(* ===== verification/NQ_Prelude.thy ===== *)
theory NQ_Prelude
  imports Complex_Main "HOL-Library.AList" "HOL-Library.Product_Lexorder"
begin

text \<open>
  Shared vocabulary of the development: the Python exceptions the code raises or catches, results
  that are either an exception or a value, JSON values, the SQL statements the repositories use as
  functions on tables (a table is the list of its rows), the Python dictionary merge, and a generic
  notion of reachable state with the locale that turns an inductive invariant into a fact about
  every reachable state.

  Conventions. A UUID is its canonical text, so \<open>str(uuid)\<close> is the identity. Time stamps and
  durations are exact reals in seconds; rounding of Python floats and of Postgres microseconds is
  not modelled. Counters are unbounded integers.
\<close>

type_synonym uuid = string
type_synonym time = real

section \<open>Exceptions and results\<close>

datatype exn =
    IntegrityError string       \<comment> \<open>a violated constraint, by its name\<close>
  | DataError string            \<comment> \<open>an SQL statement with a value it rejects\<close>
  | OperationalError            \<comment> \<open>connection, pool or commit failure\<close>
  | RedisError                  \<comment> \<open>also the socket and timeout errors of the Redis client\<close>
  | PyValueError string
  | PyRuntimeError string
  | PyOverflowError
  | PyAssertionError
  | InvalidSchedule string
  | IdempotencyConflict uuid
  | NotDeadLettered uuid
  | DeliveryError string
  | PermanentDeliveryError string
  | OtherError string string    \<comment> \<open>any other exception: class name and message\<close>

type_synonym 'a result = "exn + 'a"

definition bind_result :: "'a result \<Rightarrow> ('a \<Rightarrow> 'b result) \<Rightarrow> 'b result" where
  "bind_result m f = (case m of Inl e \<Rightarrow> Inl e | Inr x \<Rightarrow> f x)"

lemma bind_result_simps [simp]:
  "bind_result (Inl e) f = Inl e"
  "bind_result (Inr x) f = f x"
  by (simp_all add: bind_result_def)

lemma bind_result_Inr_iff: "bind_result m f = Inr y \<longleftrightarrow> (\<exists>x. m = Inr x \<and> f x = Inr y)"
  by (cases m) auto

lemma bind_result_Inl_iff:
  "bind_result m f = Inl e \<longleftrightarrow> m = Inl e \<or> (\<exists>x. m = Inr x \<and> f x = Inl e)"
  by (cases m) auto

text \<open>A loop over rows that threads the state and stops at the first exception.\<close>

fun for_each :: "('a \<Rightarrow> 's \<Rightarrow> 's result) \<Rightarrow> 'a list \<Rightarrow> 's \<Rightarrow> 's result" where
  "for_each f [] s = Inr s"
| "for_each f (x # xs) s = bind_result (f x s) (for_each f xs)"

section \<open>JSON values and Python dictionaries\<close>

text \<open>\<open>JIso t\<close> is the string \<open>t.isoformat()\<close>. Objects keep insertion order, as a dict does.\<close>

datatype json =
    JNull
  | JBool bool
  | JInt int
  | JNum real
  | JStr string
  | JIso time
  | JArr "json list"
  | JObj "(string \<times> json) list"

type_synonym dict = "(string \<times> json) list"

text \<open>\<open>{**d, **e}\<close>: a key of \<open>e\<close> replaces the value in place or is appended.\<close>

definition dict_merge :: "dict \<Rightarrow> dict \<Rightarrow> dict" where
  "dict_merge d e = fold (\<lambda>(k, v). AList.update k v) e d"

lemma map_of_dict_merge:
  "distinct (map fst e) \<Longrightarrow> map_of (dict_merge d e) k =
     (case map_of e k of None \<Rightarrow> map_of d k | Some v \<Rightarrow> Some v)"
proof (induction e arbitrary: d)
  case Nil
  then show ?case by (simp add: dict_merge_def)
next
  case (Cons kv e)
  obtain x v where kv: "kv = (x, v)" by (cases kv)
  have "dict_merge d (kv # e) = dict_merge (AList.update x v d) e"
    by (simp add: dict_merge_def kv)
  with Cons show ?case
    by (auto simp: kv update_conv' map_of_eq_None_iff image_iff split: option.splits)
qed

section \<open>Optional values\<close>

text \<open>SQL \<open>COALESCE\<close> and Python's \<open>x or y\<close> for an optional non-empty text.\<close>

definition coalesce :: "'a option \<Rightarrow> 'a \<Rightarrow> 'a" where
  "coalesce x y = (case x of Some v \<Rightarrow> v | None \<Rightarrow> y)"

definition str_or :: "string option \<Rightarrow> string \<Rightarrow> string" where
  "str_or x y = (case x of Some v \<Rightarrow> if v = [] then y else v | None \<Rightarrow> y)"

lemma coalesce_simps [simp]: "coalesce (Some v) y = v" "coalesce None y = y"
  by (simp_all add: coalesce_def)

definition first :: "'a list \<Rightarrow> 'a option" where
  "first rows = (case rows of [] \<Rightarrow> None | r # _ \<Rightarrow> Some r)"

lemma first_simps [simp]: "first [] = None" "first (r # rs) = Some r"
  by (simp_all add: first_def)

lemma first_None_iff [simp]: "first rows = None \<longleftrightarrow> rows = []"
  by (cases rows) auto

lemma first_SomeD: "first rows = Some r \<Longrightarrow> r \<in> set rows"
  by (cases rows) auto

section \<open>Decimal text\<close>

text \<open>\<open>str(n)\<close> for an integer, and the reading of such text.\<close>

definition digit_char :: "nat \<Rightarrow> char" where
  "digit_char d = char_of (48 + d)"

fun show_nat :: "nat \<Rightarrow> string" where
  "show_nat n = (if n < 10 then [digit_char n] else show_nat (n div 10) @ [digit_char (n mod 10)])"

declare show_nat.simps [simp del]

definition show_int :: "int \<Rightarrow> string" where
  "show_int n = (if n < 0 then CHR ''-'' # show_nat (nat (- n)) else show_nat (nat n))"

definition is_digit :: "char \<Rightarrow> bool" where
  "is_digit c \<longleftrightarrow> 48 \<le> (of_char c :: nat) \<and> (of_char c :: nat) \<le> 57"

definition read_nat :: "string \<Rightarrow> nat option" where
  "read_nat s =
     (if s \<noteq> [] \<and> list_all is_digit s then Some (foldl (\<lambda>n c. 10 * n + (of_char c - 48)) 0 s) else None)"

definition read_int :: "string \<Rightarrow> int option" where
  "read_int s =
     (case s of c # r \<Rightarrow> if c = CHR ''-'' then map_option (\<lambda>n. - int n) (read_nat r)
                        else map_option int (read_nat s)
      | [] \<Rightarrow> None)"

lemma of_digit_char [simp]: "d < 10 \<Longrightarrow> of_char (digit_char d) = 48 + d"
  by (simp add: digit_char_def)

lemma show_nat_digits: "list_all is_digit (show_nat n) \<and> show_nat n \<noteq> []"
proof (induction n rule: show_nat.induct)
  case (1 n)
  then show ?case
    by (cases "n < 10") (simp_all add: show_nat.simps [of n] is_digit_def)
qed

lemma read_show_nat: "foldl (\<lambda>n c. 10 * n + (of_char c - 48)) 0 (show_nat n) = n"
proof (induction n rule: show_nat.induct)
  case (1 n)
  then show ?case
    by (cases "n < 10") (simp_all add: show_nat.simps [of n])
qed

lemma is_digit_simps: "\<not> is_digit (CHR ''-'')" "\<not> is_digit (CHR ''|'')"
  by (simp_all add: is_digit_def)

lemma read_show_int: "read_int (show_int n) = Some n"
proof (cases "n < 0")
  case True
  then show ?thesis
    using show_nat_digits [of "nat (- n)"] read_show_nat [of "nat (- n)"]
    by (simp add: show_int_def read_int_def read_nat_def)
next
  case False
  obtain c r where cr: "show_nat (nat n) = c # r"
    using show_nat_digits [of "nat n"] by (cases "show_nat (nat n)") auto
  have "c \<noteq> CHR ''-''"
    using show_nat_digits [of "nat n"] is_digit_simps(1) by (auto simp: cr)
  with False show ?thesis
    using show_nat_digits [of "nat n"] read_show_nat [of "nat n"]
    by (simp add: show_int_def read_int_def read_nat_def cr)
qed

lemma show_int_no_bar: "CHR ''|'' \<notin> set (show_int n)"
proof -
  have "CHR ''|'' \<notin> set (show_nat m)" for m
    using show_nat_digits [of m] is_digit_simps(2) by (auto simp: list_all_iff)
  then show ?thesis by (simp add: show_int_def)
qed

section \<open>SQL on tables\<close>

text \<open>
  \<open>UPDATE t SET f WHERE p\<close>; \<open>DELETE FROM t WHERE p\<close>; and \<open>LIMIT n\<close>, which Postgres rejects for a
  negative \<open>n\<close>. The rows of \<open>RETURNING\<close> are the updated images of the rows that matched.
\<close>

definition update_where :: "('a \<Rightarrow> bool) \<Rightarrow> ('a \<Rightarrow> 'a) \<Rightarrow> 'a list \<Rightarrow> 'a list" where
  "update_where p f rows = map (\<lambda>r. if p r then f r else r) rows"

definition returning :: "('a \<Rightarrow> bool) \<Rightarrow> ('a \<Rightarrow> 'b) \<Rightarrow> 'a list \<Rightarrow> 'b list" where
  "returning p f rows = map f (filter p rows)"

definition delete_where :: "('a \<Rightarrow> bool) \<Rightarrow> 'a list \<Rightarrow> 'a list" where
  "delete_where p rows = filter (\<lambda>r. \<not> p r) rows"

definition sql_limit :: "int \<Rightarrow> 'a list \<Rightarrow> 'a list result" where
  "sql_limit n rows =
     (if n < 0 then Inl (DataError ''LIMIT must not be negative'') else Inr (take (nat n) rows))"

named_theorems sql

declare update_where_def [sql] returning_def [sql] delete_where_def [sql]

lemma set_update_where [simp]:
  "set (update_where p f rows) = (\<lambda>r. if p r then f r else r) ` set rows"
  by (simp add: update_where_def)

lemma length_update_where [simp]: "length (update_where p f rows) = length rows"
  by (simp add: update_where_def)

lemma map_update_where_same:
  "(\<And>r. r \<in> set rows \<Longrightarrow> p r \<Longrightarrow> k (f r) = k r) \<Longrightarrow> map k (update_where p f rows) = map k rows"
  by (auto simp: update_where_def)

lemma update_where_idle: "(\<And>r. r \<in> set rows \<Longrightarrow> \<not> p r) \<Longrightarrow> update_where p f rows = rows"
  by (simp add: update_where_def map_idI)

lemma filter_update_where_same:
  "(\<And>r. q (f r) = q r) \<Longrightarrow> filter q (update_where p f rows) = update_where p f (filter q rows)"
  by (induction rows) (auto simp: update_where_def)

text \<open>A key that is unique in a table: looking it up finds the one row that has it.\<close>

lemma filter_key_unique:
  "distinct (map k rows) \<Longrightarrow> r \<in> set rows \<Longrightarrow> filter (\<lambda>x. k x = k r) rows = [r]"
proof (induction rows)
  case Nil
  then show ?case by simp
next
  case (Cons x rows)
  show ?case
  proof (cases "x = r")
    case True
    with Cons.prems(1) have "filter (\<lambda>y. k y = k r) rows = []"
      by (fastforce simp: filter_empty_conv image_iff)
    with True show ?thesis by simp
  next
    case False
    with Cons.prems have "k x \<noteq> k r" "r \<in> set rows" by force+
    with Cons show ?thesis by simp
  qed
qed

lemma key_unique:
  "distinct (map k rows) \<Longrightarrow> r \<in> set rows \<Longrightarrow> s \<in> set rows \<Longrightarrow> k r = k s \<Longrightarrow> r = s"
  by (metis distinct_map inj_onD)

lemma filter_key_at_most_one:
  "distinct (map k rows) \<Longrightarrow>
     filter (\<lambda>x. k x = i \<and> g x) rows = [] \<or> (\<exists>r\<in>set rows. k r = i \<and> g r \<and> filter (\<lambda>x. k x = i \<and> g x) rows = [r])"
proof (induction rows)
  case Nil
  then show ?case by simp
next
  case (Cons x rows)
  show ?case
  proof (cases "k x = i \<and> g x")
    case True
    with Cons.prems have "filter (\<lambda>y. k y = i \<and> g y) rows = []"
      by (auto simp: filter_empty_conv image_iff)
    with True show ?thesis by simp
  next
    case False
    with Cons show ?thesis by auto
  qed
qed

lemma distinct_map_sort_key [simp]: "distinct (map k (sort_key f xs)) = distinct (map k xs)"
  by (simp add: distinct_map)

text \<open>
  \<open>SELECT .. WHERE p ORDER BY key LIMIT n\<close>: the tie order is the order of \<open>tie\<close>, which a
  statement leaves open.
\<close>

definition sql_select ::
  "int \<Rightarrow> ('a \<Rightarrow> 'k::linorder) \<Rightarrow> ('a \<Rightarrow> nat) \<Rightarrow> ('a \<Rightarrow> bool) \<Rightarrow> 'a list \<Rightarrow> 'a list result"
where
  "sql_select n key tie p rows = sql_limit n (sort_key key (sort_key tie (filter p rows)))"

lemma sql_limit_Inr: "sql_limit n rows = Inr rows' \<longleftrightarrow> 0 \<le> n \<and> rows' = take (nat n) rows"
  by (auto simp: sql_limit_def)

lemma sql_select_total: "0 \<le> n \<Longrightarrow> \<exists>sel. sql_select n key tie p rows = Inr sel"
  by (simp add: sql_select_def sql_limit_def)

lemma sql_selectD:
  "sql_select n key tie p rows = Inr sel \<Longrightarrow> r \<in> set sel \<Longrightarrow> r \<in> set rows \<and> p r"
  by (auto simp: sql_select_def sql_limit_Inr dest!: in_set_takeD)

lemma sql_select_length:
  "sql_select n key tie p rows = Inr sel \<Longrightarrow> length sel = min (nat n) (length (filter p rows))"
  by (auto simp: sql_select_def sql_limit_Inr min_def)

lemma sql_select_distinct:
  "sql_select n key tie p rows = Inr sel \<Longrightarrow> distinct (map k rows) \<Longrightarrow> distinct (map k sel)"
proof -
  assume sel: "sql_select n key tie p rows = Inr sel" and d: "distinct (map k rows)"
  have "distinct (map k (sort_key key (sort_key tie (filter p rows))))"
    using d by (simp add: distinct_map_filter)
  then show ?thesis
    using sel by (auto simp: sql_select_def sql_limit_Inr take_map simp flip: take_map)
qed

text \<open>The selected rows come before all other candidates in the order of the statement.\<close>

lemma sql_select_best:
  assumes sel: "sql_select n key tie p rows = Inr sel" and x: "x \<in> set sel"
    and y: "y \<in> set rows" "p y" "y \<notin> set sel"
  shows "key x \<le> key y"
proof -
  let ?xs = "sort_key key (sort_key tie (filter p rows))"
  from sel have sel_eq: "sel = take (nat n) ?xs" by (simp add: sql_select_def sql_limit_Inr)
  have "y \<in> set ?xs" using y by simp
  then have "y \<in> set (drop (nat n) ?xs)"
    using y(3) unfolding sel_eq by (metis append_take_drop_id UnE set_append)
  moreover have "sorted (map key (take (nat n) ?xs @ drop (nat n) ?xs))" by simp
  ultimately show ?thesis
    using x unfolding sel_eq map_append sorted_append by auto
qed

text \<open>A row whose key is among those of a selection of rows is itself selected.\<close>

lemma selected_row:
  "distinct (map k rows) \<Longrightarrow> r \<in> set rows \<Longrightarrow> set sel \<subseteq> set rows \<Longrightarrow>
     k r \<in> set (map k sel) \<longleftrightarrow> r \<in> set sel"
  by (auto dest: key_unique)

section \<open>Reachable states\<close>

inductive reach :: "('s \<Rightarrow> bool) \<Rightarrow> ('s \<Rightarrow> 's \<Rightarrow> bool) \<Rightarrow> 's \<Rightarrow> bool" for init step where
  reach_init: "init s \<Longrightarrow> reach init step s"
| reach_step: "reach init step s \<Longrightarrow> step s t \<Longrightarrow> reach init step t"

locale inductive_invariant =
  fixes init :: "'s \<Rightarrow> bool" and step :: "'s \<Rightarrow> 's \<Rightarrow> bool" and inv :: "'s \<Rightarrow> bool"
  assumes inv_at_start: "init s \<Longrightarrow> inv s"
    and inv_kept: "inv s \<Longrightarrow> step s t \<Longrightarrow> inv t"
begin

lemma reach_inv: "reach init step s \<Longrightarrow> inv s"
  by (induction rule: reach.induct) (auto intro: inv_at_start inv_kept)

lemma run_inv: "step\<^sup>*\<^sup>* s t \<Longrightarrow> inv s \<Longrightarrow> inv t"
  by (induction rule: rtranclp_induct) (auto intro: inv_kept)

end

end
