(* ===== verification/Database.thy ===== *)
theory Database
  imports Domain
begin

text \<open>
  The Postgres schema of \<open>migrations/versions\<close>: one record per table, the database as the record of
  its tables, and the inserts whose constraints can fail. A table is the list of its rows in
  insertion order. A transaction is one function on the database that either returns a value and
  the new database or raises, in which case the caller keeps the old database (rollback).

  What Postgres chooses is a parameter, the record \<open>txenv\<close>: the transaction's \<open>now()\<close>, the rows
  that other transactions hold locked (only \<open>SKIP LOCKED\<close> sees them), the order among rows that
  \<open>ORDER BY\<close> leaves open, the order of the rows of \<open>RETURNING\<close>, and the generated identifiers.
\<close>

section \<open>Tables\<close>

record delivery =
  d_job_id :: uuid
  d_worker_id :: string
  d_provider_message_id :: "string option"
  d_delivered_at :: time

record dead_letter =
  l_job_id :: uuid
  l_reason :: string
  l_attempts :: int
  l_last_error :: "string option"
  l_dead_lettered_at :: time

record rate_limit_bucket =
  b_recipient :: string
  b_window_start :: time
  b_count :: int

datatype outbox_status = OutboxPending | OutboxDelivered | OutboxFailed

record outbox_row =
  o_id :: uuid
  o_job_id :: uuid
  o_event :: webhook_event
  o_payload :: dict
  o_target_url :: string
  o_status :: outbox_status
  o_attempts :: int
  o_next_attempt_at :: time
  o_last_error :: "string option"
  o_created_at :: time
  o_delivered_at :: "time option"

record provider_row =
  p_id :: int
  p_idempotency_key :: string
  p_job_id :: uuid
  p_channel :: channel
  p_recipient :: string
  p_received_at :: time
  p_duplicate_requests :: int

record receipt =
  r_id :: int
  r_event_id :: uuid
  r_job_id :: uuid
  r_event :: string
  r_payload :: dict
  r_received_at :: time

record db =
  jobs :: "job list"
  deliveries :: "delivery list"
  dead_letters :: "dead_letter list"
  job_attempts :: "job_attempt list"
  rate_limit_buckets :: "rate_limit_bucket list"
  webhook_outbox :: "outbox_row list"
  mock_provider_log :: "provider_row list"
  mock_webhook_receipts :: "receipt list"

definition empty_db :: db where
  "empty_db =
     \<lparr> jobs = [], deliveries = [], dead_letters = [], job_attempts = [], rate_limit_buckets = [],
       webhook_outbox = [], mock_provider_log = [], mock_webhook_receipts = [] \<rparr>"

record txenv =
  now :: time
  locked :: "uuid \<Rightarrow> bool"
  rank :: "uuid \<Rightarrow> nat"
  ret_rank :: "uuid \<Rightarrow> nat"
  gen_job_id :: uuid
  gen_token :: "uuid \<Rightarrow> uuid"
  gen_event :: "uuid \<Rightarrow> uuid"
  gen_serial :: int

section \<open>Constrained inserts\<close>

definition job_ids :: "db \<Rightarrow> uuid list" where
  "job_ids s = map j_id (jobs s)"

definition references_job :: "db \<Rightarrow> uuid \<Rightarrow> bool" where
  "references_job s i \<longleftrightarrow> i \<in> set (job_ids s)"

definition insert_delivery :: "delivery \<Rightarrow> db \<Rightarrow> db result" where
  "insert_delivery d s =
     (if d_job_id d \<in> set (map d_job_id (deliveries s)) then Inl (IntegrityError ''deliveries_pkey'')
      else if \<not> references_job s (d_job_id d) then Inl (IntegrityError ''deliveries_job_id_fkey'')
      else Inr (s\<lparr>deliveries := deliveries s @ [d]\<rparr>))"

definition insert_dead_letter :: "dead_letter \<Rightarrow> db \<Rightarrow> db result" where
  "insert_dead_letter d s =
     (if l_job_id d \<in> set (map l_job_id (dead_letters s)) then Inl (IntegrityError ''dead_letters_pkey'')
      else if \<not> references_job s (l_job_id d) then Inl (IntegrityError ''dead_letters_job_id_fkey'')
      else Inr (s\<lparr>dead_letters := dead_letters s @ [d]\<rparr>))"

definition insert_job_attempt :: "job_attempt \<Rightarrow> db \<Rightarrow> db result" where
  "insert_job_attempt a s =
     (if (a_job_id a, a_attempt_no a) \<in> set (map (\<lambda>r. (a_job_id r, a_attempt_no r)) (job_attempts s))
      then Inl (IntegrityError ''job_attempts_job_id_attempt_no_key'')
      else if \<not> references_job s (a_job_id a) then Inl (IntegrityError ''job_attempts_job_id_fkey'')
      else Inr (s\<lparr>job_attempts := job_attempts s @ [a]\<rparr>))"

definition insert_outbox :: "outbox_row \<Rightarrow> db \<Rightarrow> db result" where
  "insert_outbox r s =
     (if o_id r \<in> set (map o_id (webhook_outbox s)) then Inl (IntegrityError ''webhook_outbox_pkey'')
      else if \<not> references_job s (o_job_id r) then Inl (IntegrityError ''webhook_outbox_job_id_fkey'')
      else Inr (s\<lparr>webhook_outbox := webhook_outbox s @ [r]\<rparr>))"

lemmas insert_defs =
  insert_delivery_def insert_dead_letter_def insert_job_attempt_def insert_outbox_def

text \<open>The rows of the satellite tables that belong to one job, in insertion order.\<close>

definition deliveries_of :: "db \<Rightarrow> uuid \<Rightarrow> delivery list" where
  "deliveries_of s i = filter (\<lambda>d. d_job_id d = i) (deliveries s)"

definition dead_letters_of :: "db \<Rightarrow> uuid \<Rightarrow> dead_letter list" where
  "dead_letters_of s i = filter (\<lambda>d. l_job_id d = i) (dead_letters s)"

definition attempts_of :: "db \<Rightarrow> uuid \<Rightarrow> job_attempt list" where
  "attempts_of s i = filter (\<lambda>a. a_job_id a = i) (job_attempts s)"

definition events_of :: "db \<Rightarrow> uuid \<Rightarrow> outbox_row list" where
  "events_of s i = filter (\<lambda>e. o_job_id e = i) (webhook_outbox s)"

lemmas rows_of_defs = deliveries_of_def dead_letters_of_def attempts_of_def events_of_def

lemma deliveries_of_Nil_iff: "deliveries_of s i = [] \<longleftrightarrow> i \<notin> set (map d_job_id (deliveries s))"
  by (auto simp: deliveries_of_def filter_empty_conv)

lemma dead_letters_of_Nil_iff: "dead_letters_of s i = [] \<longleftrightarrow> i \<notin> set (map l_job_id (dead_letters s))"
  by (auto simp: dead_letters_of_def filter_empty_conv)

lemma attempt_no_free_iff:
  "(i, n) \<notin> set (map (\<lambda>r. (a_job_id r, a_attempt_no r)) (job_attempts s)) \<longleftrightarrow>
     n \<notin> set (map a_attempt_no (attempts_of s i))"
  by (auto simp: attempts_of_def)

section \<open>Transactions\<close>

text \<open>
  \<open>async with engine.begin() as conn\<close>: the block commits, or is rolled back because no connection
  was free, the connection broke or the block raised, or commits with the acknowledgement lost, so
  that the caller sees an error although the changes are kept.
\<close>

datatype tx_fate = Commits | Aborts | AckLost

definition begin_tx :: "tx_fate \<Rightarrow> (db \<Rightarrow> ('a \<times> db) result) \<Rightarrow> db \<Rightarrow> 'a result \<times> db" where
  "begin_tx fate block s =
     (case fate of
        Aborts \<Rightarrow> (Inl OperationalError, s)
      | Commits \<Rightarrow> (case block s of Inl e \<Rightarrow> (Inl e, s) | Inr (x, s') \<Rightarrow> (Inr x, s'))
      | AckLost \<Rightarrow> (case block s of Inl e \<Rightarrow> (Inl e, s) | Inr (x, s') \<Rightarrow> (Inl OperationalError, s')))"

lemma begin_tx_cases:
  obtains (kept) "snd (begin_tx fate block s) = s" "\<exists>e. fst (begin_tx fate block s) = Inl e"
  | (committed) x s' where "block s = Inr (x, s')" "snd (begin_tx fate block s) = s'"
      "fst (begin_tx fate block s) = Inr x \<or> fst (begin_tx fate block s) = Inl OperationalError"
  by (cases fate; cases "block s") (auto simp: begin_tx_def)

lemma begin_tx_InrD: "begin_tx fate block s = (Inr x, s') \<Longrightarrow> block s = Inr (x, s')"
  by (auto simp: begin_tx_def split: tx_fate.splits sum.splits)

lemma begin_tx_Commits:
  "block s = Inr (x, s') \<Longrightarrow> begin_tx Commits block s = (Inr x, s')"
  by (simp add: begin_tx_def)

text \<open>A property that every outcome of the block keeps holds after the transaction.\<close>

lemma begin_tx_keeps:
  "P s \<Longrightarrow> (\<And>x s'. block s = Inr (x, s') \<Longrightarrow> P s') \<Longrightarrow> P (snd (begin_tx fate block s))"
  by (cases rule: begin_tx_cases [of fate block s]) auto

end
