(* ===== verification/Jobs_Repository.thy ===== *)
theory Jobs_Repository
  imports Database
begin

text \<open>
  \<open>repositories/jobs.py\<close>: every statement on the table \<open>jobs\<close> and its satellites, one definition
  per function, in the order of the file. Each runs inside a transaction of its caller and returns
  its result with the new database, or raises.
\<close>

record transition =
  t_job_id :: uuid
  t_version :: int
  t_status :: job_status

definition job_transition :: "job \<Rightarrow> transition" where
  "job_transition j = \<lparr> t_job_id = j_id j, t_version = j_version j, t_status = j_status j \<rparr>"

section \<open>Creating and reading jobs\<close>

definition new_row :: "txenv \<Rightarrow> new_job \<Rightarrow> job" where
  "new_row env n =
     \<lparr> j_id = gen_job_id env,
       j_idempotency_key = n_idempotency_key n,
       j_request_hash = n_request_hash n,
       j_recipient = n_recipient n,
       j_channel = n_channel n,
       j_payload = n_payload n,
       j_priority = n_priority n,
       j_status = PENDING,
       j_run_at = coalesce (n_send_at n) (now env + coalesce (n_delay_seconds n) 0),
       j_attempts = 0,
       j_max_attempts = n_max_attempts n,
       j_last_error = None,
       j_claim_token = None,
       j_locked_by = None,
       j_claimed_at = None,
       j_lease_expires_at = None,
       j_callback_url = n_callback_url n,
       j_version = 1,
       j_created_at = now env,
       j_updated_at = now env,
       j_sent_at = None \<rparr>"

text \<open>
  \<open>_INSERT_JOB\<close>: the row's checks come first, then \<open>ON CONFLICT (idempotency_key) DO NOTHING\<close>, in
  which NULL conflicts with nothing, then the primary key.
\<close>

definition insert_job :: "txenv \<Rightarrow> new_job \<Rightarrow> db \<Rightarrow> (job option \<times> db) result" where
  "insert_job env n s =
     (if n_max_attempts n < 1 then Inl (IntegrityError ''jobs_max_attempts_check'')
      else if n_idempotency_key n \<noteq> None \<and>
              n_idempotency_key n \<in> set (map j_idempotency_key (jobs s))
      then Inr (None, s)
      else if gen_job_id env \<in> set (job_ids s) then Inl (IntegrityError ''jobs_pkey'')
      else Inr (Some (new_row env n), s\<lparr>jobs := jobs s @ [new_row env n]\<rparr>))"

definition get_job :: "db \<Rightarrow> uuid \<Rightarrow> job option" where
  "get_job s i = first (filter (\<lambda>j. j_id j = i) (jobs s))"

definition get_job_by_idempotency_key :: "db \<Rightarrow> string option \<Rightarrow> job option" where
  "get_job_by_idempotency_key s key =
     (if key = None then None
      else first (filter (\<lambda>j. j_idempotency_key j = key) (jobs s)))"

definition create_job :: "txenv \<Rightarrow> new_job \<Rightarrow> db \<Rightarrow> ((job \<times> bool) \<times> db) result" where
  "create_job env n s =
     bind_result (insert_job env n s) (\<lambda>(row, s').
       case row of
         Some j \<Rightarrow> Inr ((j, True), s')
       | None \<Rightarrow>
           (case get_job_by_idempotency_key s' (n_idempotency_key n) of
              None \<Rightarrow> Inl (PyRuntimeError ''idempotency conflict but no existing job found'')
            | Some existing \<Rightarrow> Inr ((existing, False), s')))"

definition get_job_attempts :: "db \<Rightarrow> uuid \<Rightarrow> job_attempt list" where
  "get_job_attempts s i = sort_key a_attempt_no (filter (\<lambda>a. a_job_id a = i) (job_attempts s))"

section \<open>Claiming\<close>

definition is_due :: "txenv \<Rightarrow> job \<Rightarrow> bool" where
  "is_due env j \<longleftrightarrow> j_status j = PENDING \<and> j_run_at j \<le> now env"

definition claim_order :: "job \<Rightarrow> int \<times> time" where
  "claim_order j = (- priority_int (j_priority j), j_run_at j)"

text \<open>
  The CTE \<open>due\<close>: due rows in the order \<open>priority DESC, run_at ASC\<close> (ties in the order of \<open>rank\<close>),
  rows locked by others skipped, at most \<open>batch_size\<close> of them.
\<close>

definition select_due :: "txenv \<Rightarrow> int \<Rightarrow> db \<Rightarrow> job list result" where
  "select_due env n s =
     sql_select n claim_order (rank env \<circ> j_id) (\<lambda>j. is_due env j \<and> \<not> locked env (j_id j)) (jobs s)"

definition claim_row :: "txenv \<Rightarrow> string \<Rightarrow> real \<Rightarrow> job \<Rightarrow> job" where
  "claim_row env worker lease j =
     j\<lparr> j_status := PROCESSING,
        j_claim_token := Some (gen_token env (j_id j)),
        j_locked_by := Some worker,
        j_claimed_at := Some (now env),
        j_lease_expires_at := Some (now env + lease),
        j_attempts := j_attempts j + 1,
        j_version := j_version j + 1,
        j_updated_at := now env \<rparr>"

definition claim_due_jobs :: "txenv \<Rightarrow> string \<Rightarrow> int \<Rightarrow> real \<Rightarrow> db \<Rightarrow> (job list \<times> db) result" where
  "claim_due_jobs env worker n lease s =
     bind_result (select_due env n s) (\<lambda>due.
       let hit = (\<lambda>j. j_id j \<in> set (map j_id due));
           rows = returning hit (claim_row env worker lease) (jobs s);
           s' = s\<lparr>jobs := update_where hit (claim_row env worker lease) (jobs s)\<rparr>
       in Inr (sort_key claim_order (sort_key (ret_rank env \<circ> j_id) rows), s'))"

section \<open>Recording results\<close>

text \<open>The fence of every write after a claim: \<open>id = .. AND claim_token = .. AND status = 'processing'\<close>.\<close>

definition owns :: "uuid \<Rightarrow> uuid \<Rightarrow> job \<Rightarrow> bool" where
  "owns i tok j \<longleftrightarrow> j_id j = i \<and> j_claim_token j = Some tok \<and> j_status j = PROCESSING"

definition record_attempt ::
  "txenv \<Rightarrow> uuid \<Rightarrow> int \<Rightarrow> string option \<Rightarrow> outcome \<Rightarrow> string option \<Rightarrow> time option \<Rightarrow> db \<Rightarrow> db result"
where
  "record_attempt env i n worker out err started =
     insert_job_attempt
       \<lparr> a_job_id = i, a_attempt_no = n, a_worker_id = worker, a_outcome = out, a_error = err,
         a_started_at = started, a_finished_at = now env \<rparr>"

definition enqueue_webhook ::
  "txenv \<Rightarrow> uuid \<Rightarrow> webhook_event \<Rightarrow> string \<Rightarrow> dict \<Rightarrow> db \<Rightarrow> db result"
where
  "enqueue_webhook env i ev url data =
     insert_outbox
       \<lparr> o_id = gen_event env i, o_job_id = i, o_event = ev,
         o_payload = dict_merge
           [(''event_id'', JStr (gen_event env i)), (''job_id'', JStr i), (''event'', JStr (event_value ev))]
           data,
         o_target_url = url, o_status = OutboxPending, o_attempts = 0, o_next_attempt_at = now env,
         o_last_error = None, o_created_at = now env, o_delivered_at = None \<rparr>"

definition sent_row :: "txenv \<Rightarrow> job \<Rightarrow> job" where
  "sent_row env j =
     j\<lparr> j_status := SENT, j_sent_at := Some (now env), j_last_error := None, j_claim_token := None,
        j_locked_by := None, j_lease_expires_at := None, j_version := j_version j + 1,
        j_updated_at := now env \<rparr>"

text \<open>What \<open>mark_sent\<close> writes beside the job row, in the same transaction.\<close>

definition book_sent ::
  "txenv \<Rightarrow> string \<Rightarrow> string option \<Rightarrow> string \<Rightarrow> job \<Rightarrow> db \<Rightarrow> db result"
where
  "book_sent env worker message_id default_url row s =
     bind_result
       (insert_delivery
         \<lparr> d_job_id = j_id row, d_worker_id = worker, d_provider_message_id = message_id,
           d_delivered_at = now env \<rparr> s) (\<lambda>s1.
     bind_result
       (record_attempt env (j_id row) (j_attempts row) (Some worker) OutSent None (j_claimed_at row) s1) (\<lambda>s2.
     enqueue_webhook env (j_id row) EvSent (str_or (j_callback_url row) default_url)
       [(''status'', JStr ''sent''),
        (''recipient'', JStr (j_recipient row)),
        (''channel'', JStr (channel_value (j_channel row))),
        (''attempts'', JInt (j_attempts row)),
        (''sent_at'', case j_sent_at row of Some t \<Rightarrow> JIso t | None \<Rightarrow> JNull)] s2))"

definition mark_sent ::
  "txenv \<Rightarrow> uuid \<Rightarrow> uuid \<Rightarrow> string \<Rightarrow> string option \<Rightarrow> string \<Rightarrow> db \<Rightarrow> (transition option \<times> db) result"
where
  "mark_sent env i tok worker message_id default_url s =
     (case first (returning (owns i tok) (sent_row env) (jobs s)) of
        None \<Rightarrow> Inr (None, s)
      | Some row \<Rightarrow>
          bind_result
            (book_sent env worker message_id default_url row
               (s\<lparr>jobs := update_where (owns i tok) (sent_row env) (jobs s)\<rparr>))
            (\<lambda>s'. Inr (Some (job_transition row), s')))"

definition exhausted :: "bool \<Rightarrow> job \<Rightarrow> bool" where
  "exhausted permanent j \<longleftrightarrow> permanent \<or> j_max_attempts j \<le> j_attempts j"

definition failed_row :: "txenv \<Rightarrow> string \<Rightarrow> real \<Rightarrow> bool \<Rightarrow> job \<Rightarrow> job" where
  "failed_row env err delay permanent j =
     j\<lparr> j_status := (if exhausted permanent j then DEAD_LETTERED else PENDING),
        j_run_at := (if exhausted permanent j then j_run_at j else now env + delay),
        j_last_error := Some err, j_claim_token := None, j_locked_by := None,
        j_lease_expires_at := None, j_version := j_version j + 1, j_updated_at := now env \<rparr>"

definition after_failure :: "txenv \<Rightarrow> string \<Rightarrow> string \<Rightarrow> string \<Rightarrow> job \<Rightarrow> db \<Rightarrow> db result" where
  "after_failure env err reason default_url row s =
     (let url = str_or (j_callback_url row) default_url;
          common =
            [(''recipient'', JStr (j_recipient row)),
             (''channel'', JStr (channel_value (j_channel row))),
             (''attempts'', JInt (j_attempts row)),
             (''max_attempts'', JInt (j_max_attempts row)),
             (''error'', JStr err)]
      in if j_status row = DEAD_LETTERED
         then bind_result
                (insert_dead_letter
                  \<lparr> l_job_id = j_id row, l_reason = reason, l_attempts = j_attempts row,
                    l_last_error = Some err, l_dead_lettered_at = now env \<rparr> s)
                (enqueue_webhook env (j_id row) EvDeadLettered url
                  (dict_merge [(''status'', JStr ''dead_lettered''), (''reason'', JStr reason)] common))
         else enqueue_webhook env (j_id row) EvFailed url
                (dict_merge [(''status'', JStr ''retrying''), (''next_attempt_at'', JIso (j_run_at row))] common)
                s)"

definition failure_reason :: "bool \<Rightarrow> string" where
  "failure_reason permanent = (if permanent then ''permanent error'' else ''max attempts exceeded'')"

text \<open>What \<open>mark_failed\<close> and the reaper write beside the job row.\<close>

definition book_failure ::
  "txenv \<Rightarrow> string option \<Rightarrow> outcome \<Rightarrow> string \<Rightarrow> string \<Rightarrow> string \<Rightarrow> job \<Rightarrow> db \<Rightarrow> db result"
where
  "book_failure env worker out err reason default_url row s =
     bind_result
       (record_attempt env (j_id row) (j_attempts row) worker out (Some err) (j_claimed_at row) s)
       (after_failure env err reason default_url row)"

definition mark_failed ::
  "txenv \<Rightarrow> uuid \<Rightarrow> uuid \<Rightarrow> string \<Rightarrow> string \<Rightarrow> real \<Rightarrow> bool \<Rightarrow> string \<Rightarrow> db \<Rightarrow> (transition option \<times> db) result"
where
  "mark_failed env i tok worker err delay permanent default_url s =
     (case first (returning (owns i tok) (failed_row env err delay permanent) (jobs s)) of
        None \<Rightarrow> Inr (None, s)
      | Some row \<Rightarrow>
          bind_result
            (book_failure env (Some worker) OutFailed err (failure_reason permanent) default_url row
               (s\<lparr>jobs := update_where (owns i tok) (failed_row env err delay permanent) (jobs s)\<rparr>))
            (\<lambda>s'. Inr (Some (job_transition row), s')))"

section \<open>The fixed-window rate limit\<close>

definition window_start_at :: "real \<Rightarrow> time \<Rightarrow> time" where
  "window_start_at window t = real_of_int \<lfloor>t / window\<rfloor> * window"

definition try_acquire_rate_limit ::
  "txenv \<Rightarrow> string \<Rightarrow> int \<Rightarrow> real \<Rightarrow> db \<Rightarrow> (real option \<times> db) result"
where
  "try_acquire_rate_limit env recipient limit window s =
     (if window = 0 then Inl (DataError ''division by zero'')
      else
        let start = window_start_at window (now env);
            at_key = (\<lambda>b. b_recipient b = recipient \<and> b_window_start b = start);
            wait = (real_of_int \<lfloor>now env / window\<rfloor> + 1) * window - now env
        in if filter at_key (rate_limit_buckets s) = []
           then Inr (None, s\<lparr>rate_limit_buckets := rate_limit_buckets s @
                  [\<lparr> b_recipient = recipient, b_window_start = start, b_count = 1 \<rparr>]\<rparr>)
           else if filter (\<lambda>b. at_key b \<and> b_count b < limit) (rate_limit_buckets s) = []
           then Inr (Some wait, s)
           else Inr (None, s\<lparr>rate_limit_buckets :=
                  update_where (\<lambda>b. at_key b \<and> b_count b < limit)
                    (\<lambda>b. b\<lparr>b_count := b_count b + 1\<rparr>) (rate_limit_buckets s)\<rparr>))"

section \<open>Returning, reaping, requeueing\<close>

definition returned_row :: "txenv \<Rightarrow> real \<Rightarrow> job \<Rightarrow> job" where
  "returned_row env delay j =
     j\<lparr> j_status := PENDING, j_run_at := now env + delay, j_attempts := j_attempts j - 1,
        j_claim_token := None, j_locked_by := None, j_claimed_at := None,
        j_lease_expires_at := None, j_version := j_version j + 1, j_updated_at := now env \<rparr>"

definition return_to_queue ::
  "txenv \<Rightarrow> uuid \<Rightarrow> uuid \<Rightarrow> real \<Rightarrow> db \<Rightarrow> (transition option \<times> db) result"
where
  "return_to_queue env i tok delay s =
     Inr (map_option job_transition (first (returning (owns i tok) (returned_row env delay) (jobs s))),
          s\<lparr>jobs := update_where (owns i tok) (returned_row env delay) (jobs s)\<rparr>)"

definition lease_expired_error :: string where
  "lease_expired_error = ''lease expired: worker crashed or exceeded its lease''"

definition lease_expired :: "txenv \<Rightarrow> job \<Rightarrow> bool" where
  "lease_expired env j \<longleftrightarrow>
     j_status j = PROCESSING \<and> (case j_lease_expires_at j of Some t \<Rightarrow> t < now env | None \<Rightarrow> False)"

definition reaped_row :: "txenv \<Rightarrow> job \<Rightarrow> job" where
  "reaped_row env j =
     j\<lparr> j_status := (if exhausted False j then DEAD_LETTERED else PENDING),
        j_run_at := now env, j_last_error := Some lease_expired_error, j_claim_token := None,
        j_locked_by := None, j_lease_expires_at := None, j_version := j_version j + 1,
        j_updated_at := now env \<rparr>"

definition select_expired :: "txenv \<Rightarrow> int \<Rightarrow> db \<Rightarrow> job list result" where
  "select_expired env n s =
     sql_select n (\<lambda>j. coalesce (j_lease_expires_at j) 0) (rank env \<circ> j_id)
       (\<lambda>j. lease_expired env j \<and> \<not> locked env (j_id j)) (jobs s)"

text \<open>
  The returned rows pair the old row, for the \<open>locked_by\<close> and \<open>claimed_at\<close> that the CTE read, with
  the new one.
\<close>

definition reap_expired_leases ::
  "txenv \<Rightarrow> int \<Rightarrow> string \<Rightarrow> db \<Rightarrow> (transition list \<times> db) result"
where
  "reap_expired_leases env n default_url s =
     bind_result (select_expired env n s) (\<lambda>expired.
       let hit = (\<lambda>j. j_id j \<in> set (map j_id expired));
           rows = sort_key (ret_rank env \<circ> j_id \<circ> fst)
                    (returning hit (\<lambda>j. (j, reaped_row env j)) (jobs s));
           s1 = s\<lparr>jobs := update_where hit (reaped_row env) (jobs s)\<rparr>
       in bind_result
            (for_each (\<lambda>(old, row).
               book_failure env (j_locked_by old) OutLeaseExpired lease_expired_error
                 (failure_reason False) default_url (row\<lparr>j_claimed_at := j_claimed_at old\<rparr>))
             rows s1)
            (\<lambda>s2. Inr (map (job_transition \<circ> snd) rows, s2)))"

definition delete_old_rate_limit_buckets :: "txenv \<Rightarrow> real \<Rightarrow> db \<Rightarrow> (int \<times> db) result" where
  "delete_old_rate_limit_buckets env window s =
     (let old = (\<lambda>b. b_window_start b < now env - window * 2)
      in Inr (int (length (filter old (rate_limit_buckets s))),
              s\<lparr>rate_limit_buckets := delete_where old (rate_limit_buckets s)\<rparr>))"

definition requeued_row :: "txenv \<Rightarrow> int \<Rightarrow> job \<Rightarrow> job" where
  "requeued_row env extra j =
     j\<lparr> j_status := PENDING, j_run_at := now env, j_max_attempts := j_attempts j + extra,
        j_last_error := None, j_version := j_version j + 1, j_updated_at := now env \<rparr>"

definition requeue_dead_letter ::
  "txenv \<Rightarrow> uuid \<Rightarrow> int \<Rightarrow> db \<Rightarrow> (transition option \<times> db) result"
where
  "requeue_dead_letter env i extra s =
     (let hit = (\<lambda>j. j_id j = i \<and> j_status j = DEAD_LETTERED)
      in case first (returning hit (requeued_row env extra) (jobs s)) of
           None \<Rightarrow> Inr (None, s)
         | Some row \<Rightarrow>
             if j_max_attempts row < 1 then Inl (IntegrityError ''jobs_max_attempts_check'')
             else Inr (Some (job_transition row),
                       s\<lparr>jobs := update_where hit (requeued_row env extra) (jobs s),
                         dead_letters := delete_where (\<lambda>d. l_job_id d = i) (dead_letters s)\<rparr>))"

section \<open>Reports\<close>

record job_count_row =
  c_pending :: nat
  c_pending_due :: nat
  c_scheduled :: nat
  c_retrying :: nat
  c_processing :: nat
  c_sent :: nat
  c_dead_lettered :: nat
  c_failed_attempts :: nat
  c_webhooks_pending :: nat

definition count_where :: "('a \<Rightarrow> bool) \<Rightarrow> 'a list \<Rightarrow> nat" where
  "count_where p rows = length (filter p rows)"

definition job_counts :: "txenv \<Rightarrow> db \<Rightarrow> job_count_row" where
  "job_counts env s =
     \<lparr> c_pending = count_where (\<lambda>j. j_status j = PENDING) (jobs s),
       c_pending_due = count_where (\<lambda>j. j_status j = PENDING \<and> j_run_at j \<le> now env) (jobs s),
       c_scheduled = count_where (\<lambda>j. j_status j = PENDING \<and> now env < j_run_at j \<and>
                                      j_last_error j = None) (jobs s),
       c_retrying = count_where (\<lambda>j. j_status j = PENDING \<and> j_last_error j \<noteq> None) (jobs s),
       c_processing = count_where (\<lambda>j. j_status j = PROCESSING) (jobs s),
       c_sent = count_where (\<lambda>j. j_status j = SENT) (jobs s),
       c_dead_lettered = count_where (\<lambda>j. j_status j = DEAD_LETTERED) (jobs s),
       c_failed_attempts = count_where (\<lambda>a. a_outcome a \<noteq> OutSent) (job_attempts s),
       c_webhooks_pending = count_where (\<lambda>e. o_status e = OutboxPending) (webhook_outbox s) \<rparr>"

record dead_letter_report =
  dr_job_id :: uuid
  dr_reason :: string
  dr_attempts :: int
  dr_last_error :: "string option"
  dr_dead_lettered_at :: time
  dr_recipient :: string
  dr_channel :: channel
  dr_priority :: priority
  dr_payload :: dict

definition join_dead_letter :: "dead_letter \<Rightarrow> job \<Rightarrow> dead_letter_report" where
  "join_dead_letter d j =
     \<lparr> dr_job_id = l_job_id d, dr_reason = l_reason d, dr_attempts = l_attempts d,
       dr_last_error = l_last_error d, dr_dead_lettered_at = l_dead_lettered_at d,
       dr_recipient = j_recipient j, dr_channel = j_channel j, dr_priority = j_priority j,
       dr_payload = j_payload j \<rparr>"

definition list_dead_letters :: "txenv \<Rightarrow> int \<Rightarrow> int \<Rightarrow> db \<Rightarrow> dead_letter_report list result" where
  "list_dead_letters env n offset s =
     (if offset < 0 then Inl (DataError ''OFFSET must not be negative'')
      else sql_limit n (drop (nat offset)
        (sort_key (\<lambda>r. - dr_dead_lettered_at r)
          (sort_key (rank env \<circ> dr_job_id)
            (concat (map (\<lambda>d. map (join_dead_letter d) (filter (\<lambda>j. j_id j = l_job_id d) (jobs s)))
              (dead_letters s)))))))"

end
