(* ===== verification/Jobs_Invariant.thy ===== *)
theory Jobs_Invariant
  imports Jobs_Repository
begin

text \<open>
  The invariant of the jobs database and its preservation by every repository function.

  \<open>db_inv R s\<close> says how a job row and its satellite rows agree. The ids in \<open>R\<close> are jobs whose
  row has been updated in the running transaction while its attempt, ledger and outbox rows are
  still to be written; between transactions \<open>R\<close> is empty.
\<close>

section \<open>The invariant\<close>

definition unclaimed :: "job \<Rightarrow> bool" where
  "unclaimed j \<longleftrightarrow> j_claim_token j = None \<and> j_locked_by j = None \<and> j_lease_expires_at j = None"

definition claimed :: "job \<Rightarrow> bool" where
  "claimed j \<longleftrightarrow> j_claim_token j \<noteq> None \<and> j_locked_by j \<noteq> None \<and> j_claimed_at j \<noteq> None \<and>
     j_lease_expires_at j \<noteq> None"

definition row_ok :: "job \<Rightarrow> bool" where
  "row_ok j \<longleftrightarrow>
     1 \<le> j_max_attempts j \<and> 1 \<le> j_version j \<and> 0 \<le> j_attempts j \<and>
     (j_sent_at j \<noteq> None \<longleftrightarrow> j_status j = SENT) \<and>
     (case j_status j of
        PENDING \<Rightarrow> unclaimed j \<and> j_attempts j < j_max_attempts j
      | PROCESSING \<Rightarrow> claimed j \<and> 1 \<le> j_attempts j \<and> j_attempts j \<le> j_max_attempts j
      | SENT \<Rightarrow> unclaimed j \<and> 1 \<le> j_attempts j \<and> j_attempts j \<le> j_max_attempts j \<and> j_last_error j = None
      | DEAD_LETTERED \<Rightarrow>
          unclaimed j \<and> 1 \<le> j_attempts j \<and> j_attempts j \<le> j_max_attempts j \<and> j_last_error j \<noteq> None)"

text \<open>The number of attempts of a job that are over and recorded.\<close>

definition settled :: "uuid set \<Rightarrow> job \<Rightarrow> int" where
  "settled R j =
     (if j_status j = PROCESSING \<or> j_id j \<in> R then j_attempts j - 1 else j_attempts j)"

text \<open>The webhook event that goes with the outcome of an attempt.\<close>

fun outcome_event :: "outcome \<Rightarrow> webhook_event \<Rightarrow> bool" where
  "outcome_event OutSent e = (e = EvSent)"
| "outcome_event OutFailed e = (e \<noteq> EvSent)"
| "outcome_event OutLeaseExpired e = (e \<noteq> EvSent)"

definition books_ok :: "uuid set \<Rightarrow> db \<Rightarrow> job \<Rightarrow> bool" where
  "books_ok R s j \<longleftrightarrow>
     (let i = j_id j; closed = i \<notin> R in
        map a_attempt_no (attempts_of s i) = [1..settled R j] \<and>
        length (deliveries_of s i) = (if j_status j = SENT \<and> closed then 1 else 0) \<and>
        length (dead_letters_of s i) = (if j_status j = DEAD_LETTERED \<and> closed then 1 else 0) \<and>
        (OutSent \<in> a_outcome ` set (attempts_of s i) \<longleftrightarrow> j_status j = SENT \<and> closed) \<and>
        list_all2 outcome_event (map a_outcome (attempts_of s i)) (map o_event (events_of s i)))"

definition no_orphans :: "db \<Rightarrow> bool" where
  "no_orphans s \<longleftrightarrow>
     (\<forall>d\<in>set (deliveries s). references_job s (d_job_id d)) \<and>
     (\<forall>d\<in>set (dead_letters s). references_job s (l_job_id d)) \<and>
     (\<forall>a\<in>set (job_attempts s). references_job s (a_job_id a)) \<and>
     (\<forall>e\<in>set (webhook_outbox s). references_job s (o_job_id e))"

definition idempotency_keys :: "db \<Rightarrow> string list" where
  "idempotency_keys s = List.map_filter j_idempotency_key (jobs s)"

definition db_inv :: "uuid set \<Rightarrow> db \<Rightarrow> bool" where
  "db_inv R s \<longleftrightarrow>
     distinct (job_ids s) \<and> distinct (idempotency_keys s) \<and> distinct (map o_id (webhook_outbox s)) \<and>
     no_orphans s \<and> (\<forall>j\<in>set (jobs s). row_ok j \<and> books_ok R s j)"

text \<open>The identifiers a transaction generates are new (\<open>gen_random_uuid()\<close>, \<open>uuid4()\<close>).\<close>

definition fresh_ids :: "txenv \<Rightarrow> db \<Rightarrow> bool" where
  "fresh_ids env s \<longleftrightarrow>
     gen_job_id env \<notin> set (job_ids s) \<and> inj (gen_event env) \<and>
     range (gen_event env) \<inter> set (map o_id (webhook_outbox s)) = {}"

lemma db_invD:
  assumes "db_inv R s"
  shows "distinct (job_ids s)" "distinct (idempotency_keys s)" "distinct (map o_id (webhook_outbox s))"
    "no_orphans s" "\<And>j. j \<in> set (jobs s) \<Longrightarrow> row_ok j" "\<And>j. j \<in> set (jobs s) \<Longrightarrow> books_ok R s j"
  using assms by (auto simp: db_inv_def)

lemma db_inv_empty: "db_inv {} empty_db"
  by (simp add: db_inv_def empty_db_def job_ids_def idempotency_keys_def no_orphans_def)

section \<open>Frames\<close>

text \<open>
  \<open>books_ok\<close> reads the satellite rows of one job, so it survives every change of the database that
  keeps those.
\<close>

definition same_books :: "uuid \<Rightarrow> db \<Rightarrow> db \<Rightarrow> bool" where
  "same_books i s t \<longleftrightarrow>
     attempts_of t i = attempts_of s i \<and> deliveries_of t i = deliveries_of s i \<and>
     dead_letters_of t i = dead_letters_of s i \<and>
     map o_event (events_of t i) = map o_event (events_of s i)"

lemma books_ok_cong:
  assumes "same_books (j_id j) s t" "(j_id j \<in> R) = (j_id j \<in> R')"
  shows "books_ok R t j = books_ok R' s j"
  using assms by (simp add: books_ok_def same_books_def settled_def Let_def)

lemma same_books_refl [simp]: "same_books i s s"
  by (simp add: same_books_def)

lemma same_books_jobs [simp]:
  "same_books i s (s\<lparr>jobs := js\<rparr>)" "same_books i s (s\<lparr>rate_limit_buckets := bs\<rparr>)"
  "same_books i s (s\<lparr>mock_provider_log := ps\<rparr>)" "same_books i s (s\<lparr>mock_webhook_receipts := rs\<rparr>)"
  by (simp_all add: same_books_def rows_of_defs)

lemma same_books_trans: "same_books i s t \<Longrightarrow> same_books i t u \<Longrightarrow> same_books i s u"
  by (simp add: same_books_def)

text \<open>An update of job rows that keeps their ids and idempotency keys.\<close>

lemma job_ids_update [simp]:
  "(\<And>j. j_id (f j) = j_id j) \<Longrightarrow> job_ids (s\<lparr>jobs := update_where p f (jobs s)\<rparr>) = job_ids s"
  by (simp add: job_ids_def map_update_where_same)

lemma idempotency_keys_update:
  "(\<And>j. j_idempotency_key (f j) = j_idempotency_key j) \<Longrightarrow>
     idempotency_keys (s\<lparr>jobs := update_where p f (jobs s)\<rparr>) = idempotency_keys s"
proof -
  assume f: "\<And>j. j_idempotency_key (f j) = j_idempotency_key j"
  have "List.map_filter j_idempotency_key (update_where p f js) = List.map_filter j_idempotency_key js" for js
    by (induction js) (auto simp: update_where_def List.map_filter_simps f split: option.splits)
  then show ?thesis by (simp add: idempotency_keys_def)
qed

lemma no_orphans_update:
  "(\<And>j. j_id (f j) = j_id j) \<Longrightarrow> no_orphans (s\<lparr>jobs := update_where p f (jobs s)\<rparr>) = no_orphans s"
  by (simp add: no_orphans_def references_job_def job_ids_def map_update_where_same)

text \<open>
  The rule for the statement part of every operation: an update of some job rows keeps the
  invariant if it does so for each updated row on its own. \<open>S\<close> are the jobs it opens.
\<close>

lemma db_inv_update:
  assumes inv: "db_inv R s"
    and keeps: "\<And>j. j_id (f j) = j_id j" "\<And>j. j_idempotency_key (f j) = j_idempotency_key j"
    and hit: "\<And>j. j \<in> set (jobs s) \<Longrightarrow> p j \<Longrightarrow> row_ok j \<Longrightarrow> books_ok R s j \<Longrightarrow>
                row_ok (f j) \<and> books_ok R' s (f j)"
    and miss: "\<And>j. j \<in> set (jobs s) \<Longrightarrow> \<not> p j \<Longrightarrow> (j_id j \<in> R) = (j_id j \<in> R')"
  shows "db_inv R' (s\<lparr>jobs := update_where p f (jobs s)\<rparr>)"
proof -
  let ?t = "s\<lparr>jobs := update_where p f (jobs s)\<rparr>"
  have "row_ok j \<and> books_ok R' ?t j" if j: "j \<in> set (jobs ?t)" for j
  proof -
    from j obtain j0 where j0: "j0 \<in> set (jobs s)" and eq: "j = (if p j0 then f j0 else j0)"
      by auto
    have ok: "row_ok j0" "books_ok R s j0" using db_invD [OF inv] j0 by auto
    have "row_ok j \<and> books_ok R' s j"
    proof (cases "p j0")
      case True
      with hit [OF j0 True ok] eq show ?thesis by simp
    next
      case False
      have "books_ok R s j0 = books_ok R' s j0"
        by (rule books_ok_cong) (simp_all add: miss [OF j0 False])
      with False show ?thesis using eq ok by simp
    qed
    moreover have "books_ok R' ?t j = books_ok R' s j"
      by (rule books_ok_cong) simp_all
    ultimately show ?thesis by simp
  qed
  then show ?thesis
    using db_invD [OF inv] keeps
    by (simp add: db_inv_def idempotency_keys_update no_orphans_update)
qed

text \<open>A fenced update touches the one row that has the id.\<close>

lemma returning_id_row:
  assumes "distinct (job_ids s)" "\<And>j. p j \<Longrightarrow> j_id j = i"
  shows "(returning p f (jobs s) = [] \<and> (\<forall>j\<in>set (jobs s). \<not> p j)) \<or>
         (\<exists>j\<in>set (jobs s). p j \<and> returning p f (jobs s) = [f j])"
proof -
  have "filter (\<lambda>j. j_id j = i \<and> p j) (jobs s) = filter p (jobs s)"
    using assms(2) by (intro filter_cong) auto
  moreover have "filter (\<lambda>j. j_id j = i \<and> p j) (jobs s) = [] \<or>
    (\<exists>j\<in>set (jobs s). j_id j = i \<and> p j \<and> filter (\<lambda>j. j_id j = i \<and> p j) (jobs s) = [j])"
    using assms(1) unfolding job_ids_def by (rule filter_key_at_most_one)
  ultimately have "filter p (jobs s) = [] \<or> (\<exists>j\<in>set (jobs s). p j \<and> filter p (jobs s) = [j])"
    by auto
  then show ?thesis
    unfolding returning_def by (metis filter_empty_conv list.map)
qed

section \<open>Closing the books of one job\<close>

text \<open>
  The rows that a finished attempt adds: the attempt itself, its outbox event, and a ledger row or a
  dead letter when the job ended. They close the job.
\<close>

definition add_books ::
  "job_attempt \<Rightarrow> delivery list \<Rightarrow> dead_letter list \<Rightarrow> outbox_row \<Rightarrow> db \<Rightarrow> db"
where
  "add_books a vs ds e s =
     s\<lparr> deliveries := deliveries s @ vs, dead_letters := dead_letters s @ ds,
        job_attempts := job_attempts s @ [a], webhook_outbox := webhook_outbox s @ [e] \<rparr>"

lemma add_books_select [simp]:
  "jobs (add_books a vs ds e s) = jobs s"
  "webhook_outbox (add_books a vs ds e s) = webhook_outbox s @ [e]"
  "rate_limit_buckets (add_books a vs ds e s) = rate_limit_buckets s"
  "mock_provider_log (add_books a vs ds e s) = mock_provider_log s"
  "job_ids (add_books a vs ds e s) = job_ids s"
  "idempotency_keys (add_books a vs ds e s) = idempotency_keys s"
  by (simp_all add: add_books_def job_ids_def idempotency_keys_def)

locale closing_rows =
  fixes i :: uuid and a :: job_attempt and vs :: "delivery list" and ds :: "dead_letter list"
    and e :: outbox_row
  assumes attempt_id: "a_job_id a = i" and event_id: "o_job_id e = i"
    and delivery_ids: "\<And>d. d \<in> set vs \<Longrightarrow> d_job_id d = i"
    and dead_letter_ids: "\<And>d. d \<in> set ds \<Longrightarrow> l_job_id d = i"
    and event_fits: "outcome_event (a_outcome a) (o_event e)"
begin

lemma rows_of_same:
  "attempts_of (add_books a vs ds e s) i = attempts_of s i @ [a]"
  "deliveries_of (add_books a vs ds e s) i = deliveries_of s i @ vs"
  "dead_letters_of (add_books a vs ds e s) i = dead_letters_of s i @ ds"
  "events_of (add_books a vs ds e s) i = events_of s i @ [e]"
  by (simp_all add: add_books_def rows_of_defs attempt_id event_id delivery_ids dead_letter_ids)

lemma rows_of_other: "k \<noteq> i \<Longrightarrow> same_books k s (add_books a vs ds e s)"
  using delivery_ids dead_letter_ids
  by (auto simp: same_books_def add_books_def rows_of_defs attempt_id event_id filter_empty_conv)

lemma no_orphans_add:
  "no_orphans s \<Longrightarrow> references_job s i \<Longrightarrow> no_orphans (add_books a vs ds e s)"
  using delivery_ids dead_letter_ids
  by (auto simp: no_orphans_def add_books_def references_job_def job_ids_def attempt_id event_id)

lemma books_ok_closed:
  assumes books: "books_ok (insert i R) s j" and j: "j_id j = i" "i \<notin> R"
    and j_ended: "1 \<le> j_attempts j" "j_status j \<noteq> PROCESSING"
    and a: "a_attempt_no a = j_attempts j" "a_outcome a = OutSent \<longleftrightarrow> j_status j = SENT"
    and lens: "length vs = (if j_status j = SENT then 1 else 0)"
      "length ds = (if j_status j = DEAD_LETTERED then 1 else 0)"
  shows "books_ok R (add_books a vs ds e s) j"
proof -
  have upto: "[1..j_attempts j] = [1..j_attempts j - 1] @ [j_attempts j]"
    using j_ended(1) by (rule upto_rec2)
  have "list_all2 outcome_event (map a_outcome (attempts_of s i) @ [a_outcome a])
          (map o_event (events_of s i) @ [o_event e])"
    using books j event_fits by (intro list_all2_appendI) (auto simp: books_ok_def)
  then show ?thesis
    using books j j_ended a lens by (auto simp: books_ok_def settled_def rows_of_same upto)
qed

lemma db_inv_add_books:
  assumes inv: "db_inv (insert i R) s" and row: "row \<in> set (jobs s)" "j_id row = i" "i \<notin> R"
    and closed: "books_ok R (add_books a vs ds e s) row"
    and new_event: "o_id e \<notin> set (map o_id (webhook_outbox s))"
  shows "db_inv R (add_books a vs ds e s)"
proof -
  have "references_job s i" using row by (auto simp: references_job_def job_ids_def)
  then have orphans: "no_orphans (add_books a vs ds e s)"
    using db_invD(4) [OF inv] by (rule no_orphans_add [rotated])
  have "row_ok j \<and> books_ok R (add_books a vs ds e s) j" if j: "j \<in> set (jobs s)" for j
  proof (cases "j = row")
    case True
    with closed db_invD(5) [OF inv j] show ?thesis by simp
  next
    case False
    with db_invD(1) [OF inv] j row have "j_id j \<noteq> i"
      by (auto simp: job_ids_def dest: key_unique)
    then have "books_ok R (add_books a vs ds e s) j = books_ok (insert i R) s j"
      by (intro books_ok_cong rows_of_other) simp_all
    with db_invD(5,6) [OF inv j] show ?thesis by simp
  qed
  with db_invD [OF inv] orphans new_event show ?thesis by (simp add: db_inv_def)
qed

end

text \<open>The successful outcomes of the two bookkeeping routines are of that shape.\<close>

definition attempt_row ::
  "txenv \<Rightarrow> job \<Rightarrow> string option \<Rightarrow> outcome \<Rightarrow> string option \<Rightarrow> job_attempt"
where
  "attempt_row env row worker out err =
     \<lparr> a_job_id = j_id row, a_attempt_no = j_attempts row, a_worker_id = worker, a_outcome = out,
       a_error = err, a_started_at = j_claimed_at row, a_finished_at = now env \<rparr>"

definition may_close :: "txenv \<Rightarrow> uuid set \<Rightarrow> job \<Rightarrow> db \<Rightarrow> bool" where
  "may_close env R row s \<longleftrightarrow>
     db_inv (insert (j_id row) R) s \<and> j_id row \<notin> R \<and> row \<in> set (jobs s) \<and> 1 \<le> j_attempts row \<and>
     j_status row \<noteq> PROCESSING \<and> gen_event env (j_id row) \<notin> set (map o_id (webhook_outbox s))"

lemma may_closeD:
  assumes "may_close env R row s"
  shows "db_inv (insert (j_id row) R) s" "j_id row \<notin> R" "row \<in> set (jobs s)" "1 \<le> j_attempts row"
    "j_status row \<noteq> PROCESSING" "gen_event env (j_id row) \<notin> set (map o_id (webhook_outbox s))"
    "books_ok (insert (j_id row) R) s row" "references_job s (j_id row)"
  using assms by (auto simp: may_close_def references_job_def job_ids_def dest: db_invD(6))

lemma insert_job_attempt_open:
  assumes "may_close env R row s"
  shows "insert_job_attempt (attempt_row env row worker out err) s =
           Inr (s\<lparr>job_attempts := job_attempts s @ [attempt_row env row worker out err]\<rparr>)"
proof -
  have "map a_attempt_no (attempts_of s (j_id row)) = [1..j_attempts row - 1]"
    using may_closeD(7) [OF assms] by (simp add: books_ok_def settled_def Let_def)
  then have "j_attempts row \<notin> set (map a_attempt_no (attempts_of s (j_id row)))" by simp
  then have "(j_id row, j_attempts row) \<notin> set (map (\<lambda>r. (a_job_id r, a_attempt_no r)) (job_attempts s))"
    by (simp only: attempt_no_free_iff not_False_eq_True)
  then show ?thesis
    using may_closeD(8) [OF assms] unfolding insert_job_attempt_def attempt_row_def
    by (simp only: job_attempt.simps not_True_eq_False if_False)
qed

definition event_row :: "txenv \<Rightarrow> job \<Rightarrow> webhook_event \<Rightarrow> string \<Rightarrow> dict \<Rightarrow> outbox_row" where
  "event_row env row ev url data =
     \<lparr> o_id = gen_event env (j_id row), o_job_id = j_id row, o_event = ev,
       o_payload = dict_merge
         [(''event_id'', JStr (gen_event env (j_id row))), (''job_id'', JStr (j_id row)),
          (''event'', JStr (event_value ev))] data,
       o_target_url = url, o_status = OutboxPending, o_attempts = 0, o_next_attempt_at = now env,
       o_last_error = None, o_created_at = now env, o_delivered_at = None \<rparr>"

definition delivery_row :: "txenv \<Rightarrow> job \<Rightarrow> string \<Rightarrow> string option \<Rightarrow> delivery" where
  "delivery_row env row worker msg =
     \<lparr> d_job_id = j_id row, d_worker_id = worker, d_provider_message_id = msg, d_delivered_at = now env \<rparr>"

definition dead_letter_row :: "txenv \<Rightarrow> job \<Rightarrow> string \<Rightarrow> string \<Rightarrow> dead_letter" where
  "dead_letter_row env row reason err =
     \<lparr> l_job_id = j_id row, l_reason = reason, l_attempts = j_attempts row, l_last_error = Some err,
       l_dead_lettered_at = now env \<rparr>"

lemmas satellite_row_defs = attempt_row_def event_row_def delivery_row_def dead_letter_row_def

definition sent_data :: "job \<Rightarrow> dict" where
  "sent_data row =
     [(''status'', JStr ''sent''), (''recipient'', JStr (j_recipient row)),
      (''channel'', JStr (channel_value (j_channel row))), (''attempts'', JInt (j_attempts row)),
      (''sent_at'', case j_sent_at row of Some t \<Rightarrow> JIso t | None \<Rightarrow> JNull)]"

definition failure_data :: "job \<Rightarrow> string \<Rightarrow> string \<Rightarrow> dict" where
  "failure_data row err reason =
     dict_merge
       (if j_status row = DEAD_LETTERED
        then [(''status'', JStr ''dead_lettered''), (''reason'', JStr reason)]
        else [(''status'', JStr ''retrying''), (''next_attempt_at'', JIso (j_run_at row))])
       [(''recipient'', JStr (j_recipient row)), (''channel'', JStr (channel_value (j_channel row))),
        (''attempts'', JInt (j_attempts row)), (''max_attempts'', JInt (j_max_attempts row)),
        (''error'', JStr err)]"

definition failure_event :: "job \<Rightarrow> webhook_event" where
  "failure_event row = (if j_status row = DEAD_LETTERED then EvDeadLettered else EvFailed)"

interpretation sent_books: closing_rows "j_id row" "attempt_row env row w OutSent err"
    "[delivery_row env row w' msg]" "[]" "event_row env row EvSent url data"
  for env row w w' err msg url data
  by unfold_locales (auto simp: satellite_row_defs)

interpretation failed_books: closing_rows "j_id row" "attempt_row env row w OutFailed err" "[]"
    "if j_status row = DEAD_LETTERED then [dead_letter_row env row reason err'] else []"
    "event_row env row (failure_event row) url data"
  for env row w err reason err' url data
  by unfold_locales (auto simp: satellite_row_defs failure_event_def split: if_splits)

interpretation expired_books: closing_rows "j_id row" "attempt_row env row w OutLeaseExpired err" "[]"
    "if j_status row = DEAD_LETTERED then [dead_letter_row env row reason err'] else []"
    "event_row env row (failure_event row) url data"
  for env row w err reason err' url data
  by unfold_locales (auto simp: satellite_row_defs failure_event_def split: if_splits)

text \<open>The two bookkeeping routines succeed on a job whose books are open, and close them.\<close>

definition sent_closing :: "txenv \<Rightarrow> string \<Rightarrow> string option \<Rightarrow> string \<Rightarrow> job \<Rightarrow> db \<Rightarrow> db" where
  "sent_closing env worker msg url row =
     add_books (attempt_row env row (Some worker) OutSent None) [delivery_row env row worker msg] []
       (event_row env row EvSent (str_or (j_callback_url row) url) (sent_data row))"

definition failure_closing ::
  "txenv \<Rightarrow> string option \<Rightarrow> outcome \<Rightarrow> string \<Rightarrow> string \<Rightarrow> string \<Rightarrow> job \<Rightarrow> db \<Rightarrow> db"
where
  "failure_closing env worker out err reason url row =
     add_books (attempt_row env row worker out (Some err)) []
       (if j_status row = DEAD_LETTERED then [dead_letter_row env row reason err] else [])
       (event_row env row (failure_event row) (str_or (j_callback_url row) url)
         (failure_data row err reason))"

lemma book_sent_closes:
  assumes may: "may_close env R row s" and sent: "j_status row = SENT"
  shows "book_sent env worker msg url row s = Inr (sent_closing env worker msg url row s)"
    and "db_inv R (sent_closing env worker msg url row s)"
proof -
  let ?d = "delivery_row env row worker msg"
  let ?s1 = "s\<lparr>deliveries := deliveries s @ [?d]\<rparr>"
  have books: "books_ok (insert (j_id row) R) s row" using may_closeD(7) [OF may] .
  then have "deliveries_of s (j_id row) = []" by (simp add: books_ok_def Let_def)
  then have "insert_delivery ?d s = Inr ?s1"
    using may_closeD(8) [OF may] by (simp add: insert_delivery_def delivery_row_def deliveries_of_Nil_iff)
  moreover have "insert_job_attempt (attempt_row env row (Some worker) OutSent None) ?s1 =
      Inr (?s1\<lparr>job_attempts := job_attempts ?s1 @ [attempt_row env row (Some worker) OutSent None]\<rparr>)"
    using insert_job_attempt_open [OF may, of "Some worker" OutSent None]
    by (simp add: insert_job_attempt_def references_job_def job_ids_def split: if_splits)
  ultimately show "book_sent env worker msg url row s = Inr (sent_closing env worker msg url row s)"
    using may_closeD(6,8) [OF may]
    by (simp add: book_sent_def record_attempt_def enqueue_webhook_def insert_outbox_def
        sent_closing_def add_books_def references_job_def job_ids_def satellite_row_defs sent_data_def)
  show "db_inv R (sent_closing env worker msg url row s)"
    unfolding sent_closing_def
    by (rule sent_books.db_inv_add_books [OF may_closeD(1,3) [OF may] refl may_closeD(2) [OF may]],
        rule sent_books.books_ok_closed [OF books refl])
       (use may_closeD [OF may] sent in \<open>simp_all add: satellite_row_defs\<close>)
qed

lemma book_failure_closes:
  assumes may: "may_close env R row s" and st: "j_status row = PENDING \<or> j_status row = DEAD_LETTERED"
    and out: "out \<noteq> OutSent"
  shows "book_failure env worker out err reason url row s = Inr (failure_closing env worker out err reason url row s)"
    and "db_inv R (failure_closing env worker out err reason url row s)"
proof -
  let ?a = "attempt_row env row worker out (Some err)"
  let ?s1 = "s\<lparr>job_attempts := job_attempts s @ [?a]\<rparr>"
  have books: "books_ok (insert (j_id row) R) s row" using may_closeD(7) [OF may] .
  then have "dead_letters_of s (j_id row) = []" by (simp add: books_ok_def Let_def)
  then have no_letter: "j_id row \<notin> set (map l_job_id (dead_letters s))"
    by (simp only: dead_letters_of_Nil_iff not_False_eq_True)
  have "insert_job_attempt ?a s = Inr ?s1"
    by (rule insert_job_attempt_open [OF may])
  then show "book_failure env worker out err reason url row s = Inr (failure_closing env worker out err reason url row s)"
    using may_closeD(6,8) [OF may] no_letter
    by (simp add: book_failure_def record_attempt_def after_failure_def enqueue_webhook_def insert_outbox_def
        insert_dead_letter_def failure_closing_def add_books_def references_job_def job_ids_def
        satellite_row_defs failure_data_def failure_event_def Let_def)
  show "db_inv R (failure_closing env worker out err reason url row s)"
  proof (cases out)
    case OutSent
    with out show ?thesis by simp
  next
    case OutFailed
    show ?thesis
      unfolding failure_closing_def OutFailed
      by (rule failed_books.db_inv_add_books [OF may_closeD(1,3) [OF may] refl may_closeD(2) [OF may]],
          rule failed_books.books_ok_closed [OF books refl])
         (use may_closeD [OF may] st in \<open>auto simp: satellite_row_defs\<close>)
  next
    case OutLeaseExpired
    show ?thesis
      unfolding failure_closing_def OutLeaseExpired
      by (rule expired_books.db_inv_add_books [OF may_closeD(1,3) [OF may] refl may_closeD(2) [OF may]],
          rule expired_books.books_ok_closed [OF books refl])
         (use may_closeD [OF may] st in \<open>auto simp: satellite_row_defs\<close>)
  qed
qed

end
