(* ===== verification/Jobs_Operations.thy ===== *)
theory Jobs_Operations
  imports Jobs_Invariant
begin

text \<open>
  What each function of the jobs repository does to a database that satisfies the invariant: it
  never violates a constraint, it keeps the invariant, and its result is the one its docstring
  promises on every branch.
\<close>

section \<open>Selections\<close>

lemma select_dueD:
  "select_due env n s = Inr due \<Longrightarrow> j \<in> set due \<Longrightarrow>
     j \<in> set (jobs s) \<and> is_due env j \<and> \<not> locked env (j_id j)"
  unfolding select_due_def by (drule (1) sql_selectD) simp

lemma select_expiredD:
  "select_expired env n s = Inr rows \<Longrightarrow> j \<in> set rows \<Longrightarrow>
     j \<in> set (jobs s) \<and> lease_expired env j \<and> \<not> locked env (j_id j)"
  unfolding select_expired_def by (drule (1) sql_selectD) simp

section \<open>Claiming\<close>

lemma claim_row_simps [simp]:
  "j_id (claim_row env w l j) = j_id j" "j_status (claim_row env w l j) = PROCESSING"
  "j_idempotency_key (claim_row env w l j) = j_idempotency_key j"
  "j_priority (claim_row env w l j) = j_priority j" "j_run_at (claim_row env w l j) = j_run_at j"
  "j_claim_token (claim_row env w l j) = Some (gen_token env (j_id j))"
  "j_version (claim_row env w l j) = j_version j + 1"
  "j_attempts (claim_row env w l j) = j_attempts j + 1"
  "j_lease_expires_at (claim_row env w l j) = Some (now env + l)"
  "claim_order (claim_row env w l j) = claim_order j"
  by (simp_all add: claim_row_def claim_order_def)

lemma claimed_ids: "j_id ` claim_row env w l ` X = j_id ` X"
  by (simp add: image_image)

lemma claim_due_jobsE:
  assumes "claim_due_jobs env w n l s = Inr (cs, s')" "distinct (job_ids s)"
  obtains due where "select_due env n s = Inr due"
    "set cs = claim_row env w l ` set due" "sorted (map claim_order cs)" "length cs = length due"
    "s' = s\<lparr>jobs := update_where (\<lambda>j. j_id j \<in> set (map j_id due)) (claim_row env w l) (jobs s)\<rparr>"
proof -
  from assms(1) obtain due where due: "select_due env n s = Inr due"
    and cs: "cs = sort_key claim_order (sort_key (ret_rank env \<circ> j_id)
       (returning (\<lambda>j. j_id j \<in> set (map j_id due)) (claim_row env w l) (jobs s)))"
    and s': "s' = s\<lparr>jobs := update_where (\<lambda>j. j_id j \<in> set (map j_id due)) (claim_row env w l) (jobs s)\<rparr>"
    by (auto simp: claim_due_jobs_def bind_result_Inr_iff Let_def)
  have sub: "set due \<subseteq> set (jobs s)" using select_dueD [OF due] by auto
  have hits: "filter (\<lambda>j. j_id j \<in> set (map j_id due)) (jobs s) = filter (\<lambda>j. j \<in> set due) (jobs s)"
    using selected_row [OF assms(2) [unfolded job_ids_def] _ sub] by (intro filter_cong) auto
  have "distinct due"
    using sql_select_distinct [OF due [unfolded select_due_def] assms(2) [unfolded job_ids_def]]
    by (simp add: distinct_map)
  moreover have "distinct (jobs s)" using assms(2) by (simp add: job_ids_def distinct_map)
  ultimately have "length (filter (\<lambda>j. j \<in> set due) (jobs s)) = length due"
    using sub by (simp add: distinct_length_filter Int_absorb2 distinct_card)
  moreover have rows: "returning (\<lambda>j. j_id j \<in> set (map j_id due)) (claim_row env w l) (jobs s) =
      map (claim_row env w l) (filter (\<lambda>j. j \<in> set due) (jobs s))"
    by (simp only: returning_def hits)
  moreover have "set (filter (\<lambda>j. j \<in> set due) (jobs s)) = set due" using sub by auto
  ultimately show thesis
    using that [OF due _ _ _ s'] by (simp add: cs del: set_filter)
qed

lemma claim_due_jobs_keeps:
  assumes inv: "db_inv {} s" and claim: "claim_due_jobs env w n l s = Inr (cs, s')"
  shows "db_inv {} s'"
proof -
  from claim_due_jobsE [OF claim db_invD(1) [OF inv]] obtain due where
    due: "select_due env n s = Inr due"
    and s': "s' = s\<lparr>jobs := update_where (\<lambda>j. j_id j \<in> set (map j_id due)) (claim_row env w l) (jobs s)\<rparr>"
    by metis
  have sub: "set due \<subseteq> set (jobs s)" using select_dueD [OF due] by auto
  show ?thesis
    unfolding s'
  proof (rule db_inv_update [OF inv])
    fix j assume j: "j \<in> set (jobs s)" "j_id j \<in> set (map j_id due)" "row_ok j" "books_ok {} s j"
    then have "j \<in> set due" using selected_row [OF db_invD(1) [OF inv, unfolded job_ids_def] _ sub] by blast
    then have "j_status j = PENDING" using select_dueD [OF due] by (auto simp: is_due_def)
    with j show "row_ok (claim_row env w l j) \<and> books_ok {} s (claim_row env w l j)"
      by (auto simp: row_ok_def books_ok_def settled_def claim_row_def claimed_def Let_def)
  qed simp_all
qed

lemma claim_due_jobs_total:
  "0 \<le> n \<Longrightarrow> \<exists>cs s'. claim_due_jobs env w n l s = Inr (cs, s')"
proof -
  assume "0 \<le> n"
  then obtain due where "select_due env n s = Inr due"
    unfolding select_due_def using sql_select_total by blast
  then show ?thesis by (simp add: claim_due_jobs_def Let_def)
qed

section \<open>Fenced writes\<close>

lemma owns_id: "owns i tok j \<Longrightarrow> j_id j = i"
  by (simp add: owns_def)

lemma fenced_lost:
  "(\<And>j. j \<in> set (jobs s) \<Longrightarrow> \<not> owns i tok j) \<Longrightarrow> returning (owns i tok) f (jobs s) = []"
  by (simp add: returning_def filter_empty_conv)

lemma returning_one:
  assumes "distinct (job_ids s)" "j \<in> set (jobs s)" "p j" "\<And>k. p k \<Longrightarrow> j_id k = j_id j"
  shows "returning p f (jobs s) = [f j]"
proof -
  obtain k where k: "k \<in> set (jobs s)" "p k" "returning p f (jobs s) = [f k]"
    using returning_id_row [OF assms(1), of p "j_id j" f] assms(2-4) by blast
  have "k = j"
    using key_unique [OF assms(1) [unfolded job_ids_def] k(1) assms(2)] assms(4) [OF k(2)] by simp
  with k show ?thesis by simp
qed

lemma returning_owned:
  "distinct (job_ids s) \<Longrightarrow> j \<in> set (jobs s) \<Longrightarrow> owns i tok j \<Longrightarrow>
     returning (owns i tok) f (jobs s) = [f j]"
  by (rule returning_one) (auto simp: owns_def)

lemma sent_row_simps [simp]:
  "j_id (sent_row env j) = j_id j" "j_status (sent_row env j) = SENT"
  "j_idempotency_key (sent_row env j) = j_idempotency_key j"
  "j_attempts (sent_row env j) = j_attempts j" "j_version (sent_row env j) = j_version j + 1"
  by (simp_all add: sent_row_def)

lemma failed_row_simps [simp]:
  "j_id (failed_row env e d p j) = j_id j"
  "j_idempotency_key (failed_row env e d p j) = j_idempotency_key j"
  "j_status (failed_row env e d p j) = (if exhausted p j then DEAD_LETTERED else PENDING)"
  "j_attempts (failed_row env e d p j) = j_attempts j" "j_version (failed_row env e d p j) = j_version j + 1"
  by (simp_all add: failed_row_def)

lemma returned_row_simps [simp]:
  "j_id (returned_row env d j) = j_id j" "j_status (returned_row env d j) = PENDING"
  "j_idempotency_key (returned_row env d j) = j_idempotency_key j"
  "j_attempts (returned_row env d j) = j_attempts j - 1" "j_version (returned_row env d j) = j_version j + 1"
  by (simp_all add: returned_row_def)

lemma reaped_row_simps [simp]:
  "j_id (reaped_row env j) = j_id j" "j_claimed_at (reaped_row env j) = j_claimed_at j"
  "j_idempotency_key (reaped_row env j) = j_idempotency_key j"
  "j_status (reaped_row env j) = (if exhausted False j then DEAD_LETTERED else PENDING)"
  "j_attempts (reaped_row env j) = j_attempts j" "j_version (reaped_row env j) = j_version j + 1"
  by (simp_all add: reaped_row_def)

text \<open>Ending the attempt of a processing row opens its books.\<close>

lemma ended_row_ok:
  assumes "j_status j = PROCESSING" "row_ok j" "books_ok R s j" "j_id j \<in> R'"
  shows "row_ok (sent_row env j) \<and> books_ok R' s (sent_row env j)"
    and "row_ok (failed_row env e d p j) \<and> books_ok R' s (failed_row env e d p j)"
    and "row_ok (reaped_row env j) \<and> books_ok R' s (reaped_row env j)"
  using assms
  by (auto simp: row_ok_def books_ok_def settled_def sent_row_def failed_row_def reaped_row_def
      exhausted_def unclaimed_def Let_def)

lemma end_owned:
  assumes inv: "db_inv {} s" and fresh: "fresh_ids env s"
    and j: "j \<in> set (jobs s)" "owns i tok j"
    and f: "\<And>j. j_id (f j) = j_id j" "\<And>j. j_idempotency_key (f j) = j_idempotency_key j"
      "\<And>j. j_attempts (f j) = j_attempts j" "\<And>j. j_status (f j) \<noteq> PROCESSING"
      "\<And>j. j_status j = PROCESSING \<Longrightarrow> row_ok j \<Longrightarrow> books_ok {} s j \<Longrightarrow>
        row_ok (f j) \<and> books_ok {j_id j} s (f j)"
  shows "may_close env {} (f j) (s\<lparr>jobs := update_where (owns i tok) f (jobs s)\<rparr>)"
proof -
  have "db_inv {i} (s\<lparr>jobs := update_where (owns i tok) f (jobs s)\<rparr>)"
  proof (rule db_inv_update [OF inv f(1,2)])
    fix k assume k: "k \<in> set (jobs s)" "owns i tok k" "row_ok k" "books_ok {} s k"
    with f(5) [of k] show "row_ok (f k) \<and> books_ok {i} s (f k)" by (simp add: owns_def)
  next
    fix k assume k: "k \<in> set (jobs s)" "\<not> owns i tok k"
    have "j_id k \<noteq> i"
    proof
      assume "j_id k = i"
      with j have "j_id k = j_id j" by (simp add: owns_def)
      then have "k = j"
        using key_unique [OF db_invD(1) [OF inv, unfolded job_ids_def] k(1) j(1)] by simp
      with j(2) k(2) show False by simp
    qed
    then show "(j_id k \<in> {}) = (j_id k \<in> {i})" by simp
  qed
  moreover have "f j \<in> set (update_where (owns i tok) f (jobs s))" using j by force
  moreover have "1 \<le> j_attempts j" "j_id j = i"
    using db_invD(5) [OF inv j(1)] j(2) by (auto simp: owns_def row_ok_def)
  moreover have "gen_event env i \<notin> set (map o_id (webhook_outbox s))"
    using fresh unfolding fresh_ids_def by blast
  ultimately show ?thesis
    using f by (simp add: may_close_def)
qed

lemma mark_sent_owned:
  assumes inv: "db_inv {} s" and fresh: "fresh_ids env s" and j: "j \<in> set (jobs s)" "owns i tok j"
  defines "t \<equiv> s\<lparr>jobs := update_where (owns i tok) (sent_row env) (jobs s)\<rparr>"
  shows "mark_sent env i tok w msg url s =
           Inr (Some (job_transition (sent_row env j)), sent_closing env w msg url (sent_row env j) t)"
    and "db_inv {} (sent_closing env w msg url (sent_row env j) t)"
proof -
  have may: "may_close env {} (sent_row env j) t"
    unfolding t_def 
    by (rule end_owned [OF inv fresh j], simp, simp, simp, simp, rule ended_row_ok(1)) simp_all
  have "returning (owns i tok) (sent_row env) (jobs s) = [sent_row env j]"
    by (rule returning_owned [OF db_invD(1) [OF inv] j])
  then show "mark_sent env i tok w msg url s =
      Inr (Some (job_transition (sent_row env j)), sent_closing env w msg url (sent_row env j) t)"
    using book_sent_closes(1) [OF may, of w msg url] by (simp add: mark_sent_def t_def)
  show "db_inv {} (sent_closing env w msg url (sent_row env j) t)"
    using book_sent_closes(2) [OF may] by simp
qed

lemma mark_failed_owned:
  fixes err :: string and d :: real and p :: bool
  assumes inv: "db_inv {} s" and fresh: "fresh_ids env s" and j: "j \<in> set (jobs s)" "owns i tok j"
  defines "row \<equiv> failed_row env err d p j"
    and "t \<equiv> s\<lparr>jobs := update_where (owns i tok) (failed_row env err d p) (jobs s)\<rparr>"
  shows "mark_failed env i tok w err d p url s =
           Inr (Some (job_transition row),
                failure_closing env (Some w) OutFailed err (failure_reason p) url row t)"
    and "db_inv {} (failure_closing env (Some w) OutFailed err (failure_reason p) url row t)"
proof -
  have may: "may_close env {} row t"
    unfolding t_def row_def
    by (rule end_owned [OF inv fresh j], simp, simp, simp, simp, rule ended_row_ok(2)) simp_all
  have st: "j_status row = PENDING \<or> j_status row = DEAD_LETTERED" by (simp add: row_def)
  have "returning (owns i tok) (failed_row env err d p) (jobs s) = [row]"
    unfolding row_def by (rule returning_owned [OF db_invD(1) [OF inv] j])
  then show "mark_failed env i tok w err d p url s =
      Inr (Some (job_transition row),
           failure_closing env (Some w) OutFailed err (failure_reason p) url row t)"
    using book_failure_closes(1) [OF may st, of OutFailed] by (simp add: mark_failed_def t_def)
  show "db_inv {} (failure_closing env (Some w) OutFailed err (failure_reason p) url row t)"
    using book_failure_closes(2) [OF may st, of OutFailed] by simp
qed

lemma mark_sent_lost:
  "(\<And>j. j \<in> set (jobs s) \<Longrightarrow> \<not> owns i tok j) \<Longrightarrow> mark_sent env i tok w msg url s = Inr (None, s)"
  by (simp add: mark_sent_def fenced_lost)

lemma mark_failed_lost:
  "(\<And>j. j \<in> set (jobs s) \<Longrightarrow> \<not> owns i tok j) \<Longrightarrow> mark_failed env i tok w err d p url s = Inr (None, s)"
  by (simp add: mark_failed_def fenced_lost)

lemma return_to_queue_lost:
  "(\<And>j. j \<in> set (jobs s) \<Longrightarrow> \<not> owns i tok j) \<Longrightarrow> return_to_queue env i tok d s = Inr (None, s)"
  by (simp add: return_to_queue_def fenced_lost update_where_idle)

lemma return_to_queue_owned:
  assumes "distinct (job_ids s)" "j \<in> set (jobs s)" "owns i tok j"
  shows "return_to_queue env i tok d s =
           Inr (Some (job_transition (returned_row env d j)),
                s\<lparr>jobs := update_where (owns i tok) (returned_row env d) (jobs s)\<rparr>)"
  using returning_owned [OF assms, of "returned_row env d"] by (simp add: return_to_queue_def)

lemma returned_row_keeps:
  assumes inv: "db_inv {} s"
  shows "db_inv {} (s\<lparr>jobs := update_where (owns i tok) (returned_row env d) (jobs s)\<rparr>)"
proof (rule db_inv_update [OF inv])
  fix j assume "j \<in> set (jobs s)" "owns i tok j" "row_ok j" "books_ok {} s j"
  then show "row_ok (returned_row env d j) \<and> books_ok {} s (returned_row env d j)"
    by (auto simp: row_ok_def books_ok_def settled_def returned_row_def unclaimed_def owns_def Let_def)
qed simp_all

lemma return_to_queue_keeps:
  "db_inv {} s \<Longrightarrow> return_to_queue env i tok d s = Inr (r, s') \<Longrightarrow> db_inv {} s'"
  by (auto simp: return_to_queue_def intro: returned_row_keeps)

text \<open>Either nobody owns the row under this token, or exactly one row is owned.\<close>

lemma owned_or_lost:
  obtains (lost) "\<And>j. j \<in> set (jobs s) \<Longrightarrow> \<not> owns i tok j"
  | (owned) j where "j \<in> set (jobs s)" "owns i tok j"
  by blast

lemma mark_sent_keeps:
  assumes "db_inv {} s" "fresh_ids env s"
  shows "\<exists>r s'. mark_sent env i tok w msg url s = Inr (r, s') \<and> db_inv {} s'"
proof (cases rule: owned_or_lost [of s i tok])
  case lost
  with assms show ?thesis by (simp add: mark_sent_lost)
next
  case (owned j)
  with mark_sent_owned [OF assms] show ?thesis by blast
qed

lemma mark_failed_keeps:
  assumes "db_inv {} s" "fresh_ids env s"
  shows "\<exists>r s'. mark_failed env i tok w err d p url s = Inr (r, s') \<and> db_inv {} s'"
proof (cases rule: owned_or_lost [of s i tok])
  case lost
  with assms show ?thesis by (simp add: mark_failed_lost)
next
  case (owned j)
  with mark_failed_owned [OF assms] show ?thesis by blast
qed

section \<open>Reaping\<close>

lemma failure_closing_jobs [simp]: "jobs (failure_closing env w out err rs url row s) = jobs s"
  by (simp add: failure_closing_def)

lemma failure_closing_outbox:
  "set (map o_id (webhook_outbox (failure_closing env w out err rs url row s))) =
     insert (gen_event env (j_id row)) (set (map o_id (webhook_outbox s)))"
  by (simp add: failure_closing_def event_row_def)

text \<open>The reaper's loop over the rows it took back closes all of them.\<close>

definition reap_close :: "txenv \<Rightarrow> string \<Rightarrow> job \<times> job \<Rightarrow> db \<Rightarrow> db" where
  "reap_close env url p =
     failure_closing env (j_locked_by (fst p)) OutLeaseExpired lease_expired_error
       (failure_reason False) url (snd p)"

lemma reap_loop:
  assumes "db_inv (set (map (j_id \<circ> snd) ps)) s" "distinct (map (j_id \<circ> snd) ps)" "inj (gen_event env)"
    and "\<And>p. p \<in> set ps \<Longrightarrow> snd p \<in> set (jobs s) \<and> 1 \<le> j_attempts (snd p) \<and>
           (j_status (snd p) = PENDING \<or> j_status (snd p) = DEAD_LETTERED) \<and>
           j_claimed_at (snd p) = j_claimed_at (fst p) \<and>
           gen_event env (j_id (snd p)) \<notin> set (map o_id (webhook_outbox s))"
  shows "for_each (\<lambda>(old, row). book_failure env (j_locked_by old) OutLeaseExpired lease_expired_error
             (failure_reason False) url (row\<lparr>j_claimed_at := j_claimed_at old\<rparr>)) ps s =
           Inr (fold (reap_close env url) ps s)
       \<and> db_inv {} (fold (reap_close env url) ps s)"
  using assms
proof (induction ps arbitrary: s)
  case Nil
  then show ?case by simp
next
  case (Cons p ps)
  obtain old row where p: "p = (old, row)" by (cases p)
  let ?R = "set (map (j_id \<circ> snd) ps)"
  let ?s1 = "reap_close env url p s"
  have same: "row\<lparr>j_claimed_at := j_claimed_at old\<rparr> = row"
    using Cons.prems(4) [of p] by (simp add: p)
  have may: "may_close env ?R row s" and st: "j_status row = PENDING \<or> j_status row = DEAD_LETTERED"
    using Cons.prems(1,2) Cons.prems(4) [of p] by (auto simp: may_close_def p)
  note closes = book_failure_closes [OF may st, of OutLeaseExpired]
  have "db_inv ?R ?s1" using closes(2) by (simp add: reap_close_def p)
  moreover have "gen_event env (j_id (snd q)) \<notin> set (map o_id (webhook_outbox ?s1))" if "q \<in> set ps" for q
  proof -
    have "j_id (snd q) \<noteq> j_id row" using Cons.prems(2) that by (force simp: p)
    then have "gen_event env (j_id (snd q)) \<noteq> gen_event env (j_id row)"
      using Cons.prems(3) by (simp add: inj_eq)
    with that Cons.prems(4) [of q] show ?thesis
      by (simp add: reap_close_def p failure_closing_outbox del: set_map)
  qed
  ultimately have "for_each (\<lambda>(old, row). book_failure env (j_locked_by old) OutLeaseExpired lease_expired_error
             (failure_reason False) url (row\<lparr>j_claimed_at := j_claimed_at old\<rparr>)) ps ?s1 =
           Inr (fold (reap_close env url) ps ?s1)
       \<and> db_inv {} (fold (reap_close env url) ps ?s1)"
    using Cons.prems(2-4) by (intro Cons.IH) (auto simp: reap_close_def)
  moreover have "book_failure env (j_locked_by old) OutLeaseExpired lease_expired_error
      (failure_reason False) url row s = Inr ?s1"
    using closes(1) by (simp add: reap_close_def p)
  ultimately show ?case by (simp add: p same)
qed

text \<open>The pairs of old and new rows that \<open>RETURNING\<close> gives the reaper.\<close>

definition reaped_pairs :: "txenv \<Rightarrow> job list \<Rightarrow> db \<Rightarrow> (job \<times> job) list" where
  "reaped_pairs env expired s =
     sort_key (ret_rank env \<circ> j_id \<circ> fst)
       (map (\<lambda>j. (j, reaped_row env j)) (filter (\<lambda>j. j \<in> set expired) (jobs s)))"

definition reap_update :: "txenv \<Rightarrow> job list \<Rightarrow> db \<Rightarrow> db" where
  "reap_update env expired s =
     s\<lparr>jobs := update_where (\<lambda>j. j_id j \<in> set (map j_id expired)) (reaped_row env) (jobs s)\<rparr>"

lemma set_reaped_pairs:
  "set expired \<subseteq> set (jobs s) \<Longrightarrow> set (reaped_pairs env expired s) = (\<lambda>j. (j, reaped_row env j)) ` set expired"
  by (auto simp: reaped_pairs_def)

lemma reap_update_opens:
  assumes inv: "db_inv {} s" and expired: "select_expired env n s = Inr expired"
  shows "db_inv (j_id ` set expired) (reap_update env expired s)"
  unfolding reap_update_def
proof (rule db_inv_update [OF inv])
  fix j assume j: "j \<in> set (jobs s)" "j_id j \<in> set (map j_id expired)" "row_ok j" "books_ok {} s j"
  have "set expired \<subseteq> set (jobs s)" using select_expiredD [OF expired] by auto
  with j have "j \<in> set expired" using selected_row [OF db_invD(1) [OF inv, unfolded job_ids_def]] by blast
  then have "j_status j = PROCESSING" using select_expiredD [OF expired] by (auto simp: lease_expired_def)
  with j show "row_ok (reaped_row env j) \<and> books_ok (j_id ` set expired) s (reaped_row env j)"
    by (intro ended_row_ok(3)) auto
qed auto

lemma reap_expired_leases_eq:
  fixes url :: string
  assumes inv: "db_inv {} s" and fresh: "fresh_ids env s" and expired: "select_expired env n s = Inr expired"
  defines "s2 \<equiv> fold (reap_close env url) (reaped_pairs env expired s) (reap_update env expired s)"
  shows "reap_expired_leases env n url s =
           Inr (map (job_transition \<circ> snd) (reaped_pairs env expired s), s2)"
    and "db_inv {} s2"
proof -
  let ?ps = "reaped_pairs env expired s" and ?s1 = "reap_update env expired s"
  have sub: "set expired \<subseteq> set (jobs s)" using select_expiredD [OF expired] by auto
  have ids: "distinct (map j_id (jobs s))" using db_invD(1) [OF inv] by (simp add: job_ids_def)
  note pairs = set_reaped_pairs [OF sub]
  have "set (map (j_id \<circ> snd) ?ps) = j_id ` set expired" by (auto simp: pairs image_iff)
  then have opened: "db_inv (set (map (j_id \<circ> snd) ?ps)) ?s1"
    using reap_update_opens [OF inv expired] by simp
  have dist: "distinct (map (j_id \<circ> snd) ?ps)"
  proof -
    have "distinct (map (j_id \<circ> snd) (map (\<lambda>j. (j, reaped_row env j)) (filter (\<lambda>j. j \<in> set expired) (jobs s))))"
      using ids by (simp add: comp_def distinct_map_filter)
    then show ?thesis unfolding reaped_pairs_def by (simp only: distinct_map_sort_key)
  qed
  have row: "snd p \<in> set (jobs ?s1) \<and> 1 \<le> j_attempts (snd p) \<and>
      (j_status (snd p) = PENDING \<or> j_status (snd p) = DEAD_LETTERED) \<and>
      j_claimed_at (snd p) = j_claimed_at (fst p) \<and>
      gen_event env (j_id (snd p)) \<notin> set (map o_id (webhook_outbox ?s1))" if "p \<in> set ?ps" for p
  proof -
    from that obtain j where j: "j \<in> set expired" and p: "p = (j, reaped_row env j)" by (auto simp: pairs)
    have "1 \<le> j_attempts j"
      using select_expiredD [OF expired j] db_invD(5) [OF inv, of j] by (auto simp: lease_expired_def row_ok_def)
    moreover have "gen_event env (j_id j) \<notin> set (map o_id (webhook_outbox s))"
      using fresh unfolding fresh_ids_def by blast
    moreover have "reaped_row env j \<in> set (jobs ?s1)"
      using j sub by (force simp: reap_update_def)
    ultimately show ?thesis by (simp add: p reap_update_def)
  qed
  have "inj (gen_event env)" using fresh by (simp add: fresh_ids_def)
  note loop = reap_loop [OF opened dist this row, of url]
  have "returning (\<lambda>j. j_id j \<in> set (map j_id expired)) (\<lambda>j. (j, reaped_row env j)) (jobs s) =
      map (\<lambda>j. (j, reaped_row env j)) (filter (\<lambda>j. j \<in> set expired) (jobs s))"
    unfolding returning_def using selected_row [OF ids _ sub]
    by (intro arg_cong [where f = "map _"] filter_cong) auto
  then show "reap_expired_leases env n url s = Inr (map (job_transition \<circ> snd) ?ps, s2)"
    using loop unfolding s2_def reap_update_def reaped_pairs_def
    by (simp only: reap_expired_leases_def expired bind_result_simps Let_def)
  show "db_inv {} s2" using loop by (simp add: s2_def)
qed

lemma reap_expired_leases_keeps:
  assumes "db_inv {} s" "fresh_ids env s" "0 \<le> n"
  shows "\<exists>r s'. reap_expired_leases env n url s = Inr (r, s') \<and> db_inv {} s'"
proof -
  obtain expired where "select_expired env n s = Inr expired"
    using assms(3) sql_select_total unfolding select_expired_def by blast
  from reap_expired_leases_eq [OF assms(1,2) this] show ?thesis by blast
qed

section \<open>Requeueing, creating, and the rest\<close>

lemma requeued_row_simps [simp]:
  "j_id (requeued_row env x j) = j_id j" "j_status (requeued_row env x j) = PENDING"
  "j_idempotency_key (requeued_row env x j) = j_idempotency_key j"
  "j_attempts (requeued_row env x j) = j_attempts j"
  "j_max_attempts (requeued_row env x j) = j_attempts j + x"
  "j_version (requeued_row env x j) = j_version j + 1"
  by (simp_all add: requeued_row_def)

lemma requeue_dead_letter_lost:
  "(\<And>j. j \<in> set (jobs s) \<Longrightarrow> \<not> (j_id j = i \<and> j_status j = DEAD_LETTERED)) \<Longrightarrow>
     requeue_dead_letter env i x s = Inr (None, s)"
  by (simp add: requeue_dead_letter_def returning_def filter_empty_conv)

lemma requeue_dead_letter_found:
  fixes env :: txenv
  assumes inv: "db_inv {} s" and j: "j \<in> set (jobs s)" "j_id j = i" "j_status j = DEAD_LETTERED"
    and x: "1 \<le> x"
  defines "s' \<equiv> s\<lparr>jobs := update_where (\<lambda>j. j_id j = i \<and> j_status j = DEAD_LETTERED) (requeued_row env x) (jobs s),
                     dead_letters := delete_where (\<lambda>d. l_job_id d = i) (dead_letters s)\<rparr>"
  shows "requeue_dead_letter env i x s = Inr (Some (job_transition (requeued_row env x j)), s')"
    and "db_inv {} s'"
proof -
  let ?hit = "\<lambda>j. j_id j = i \<and> j_status j = DEAD_LETTERED"
  let ?s1 = "s\<lparr>dead_letters := delete_where (\<lambda>d. l_job_id d = i) (dead_letters s)\<rparr>"
  have ids: "distinct (map j_id (jobs s))" using db_invD(1) [OF inv] by (simp add: job_ids_def)
  have only: "k = j" if "k \<in> set (jobs s)" "j_id k = i" for k
    using key_unique [OF ids that(1) j(1)] that(2) j(2) by simp
  have ok: "row_ok j" "books_ok {} s j" using db_invD(5,6) [OF inv j(1)] by auto
  have "returning ?hit (requeued_row env x) (jobs s) = [requeued_row env x j]"
    using db_invD(1) [OF inv] j by (intro returning_one) auto
  moreover have "\<not> j_attempts j + x < 1" using ok(1) j(3) x by (simp add: row_ok_def)
  ultimately show "requeue_dead_letter env i x s = Inr (Some (job_transition (requeued_row env x j)), s')"
    by (simp add: requeue_dead_letter_def s'_def)
  have same: "same_books k s ?s1" if "k \<noteq> i" for k
    using that by (auto simp: same_books_def rows_of_defs delete_where_def intro: filter_cong)
  have "row_ok k \<and> books_ok {} s' k" if k: "k \<in> set (jobs s')" for k
  proof -
    from k obtain k0 where k0: "k0 \<in> set (jobs s)" "k = (if ?hit k0 then requeued_row env x k0 else k0)"
      by (auto simp: s'_def)
    have "same_books m ?s1 s'" for m by (simp add: s'_def same_books_def rows_of_defs)
    then have books: "books_ok {} s' k = books_ok {} ?s1 k" by (intro books_ok_cong) simp_all
    show ?thesis
    proof (cases "?hit k0")
      case True
      with only k0 have "k = requeued_row env x j" by auto
      then show ?thesis
        using ok j(2,3) x unfolding books
        by (auto simp: row_ok_def books_ok_def settled_def requeued_row_def unclaimed_def Let_def
            rows_of_defs delete_where_def)
    next
      case False
      then have "k \<in> set (jobs s)" "j_id k \<noteq> i" using k0 only j(3) by auto
      moreover from this(2) have "books_ok {} ?s1 k = books_ok {} s k"
        by (intro books_ok_cong same) simp_all
      ultimately show ?thesis using db_invD(5,6) [OF inv] books by simp
    qed
  qed
  moreover have "job_ids s' = job_ids s" "idempotency_keys s' = idempotency_keys s"
    using job_ids_update [of "requeued_row env x" ?hit s]
      idempotency_keys_update [of "requeued_row env x" ?hit s]
    by (simp_all add: s'_def job_ids_def idempotency_keys_def)
  moreover have "no_orphans s'"
    using db_invD(4) [OF inv] calculation(2)
    by (auto simp: no_orphans_def references_job_def s'_def delete_where_def)
  moreover have "webhook_outbox s' = webhook_outbox s" by (simp add: s'_def)
  ultimately show "db_inv {} s'" using db_invD(1-3) [OF inv] by (simp add: db_inv_def)
qed

lemma requeue_dead_letter_keeps:
  assumes "db_inv {} s" "1 \<le> x"
  shows "\<exists>r s'. requeue_dead_letter env i x s = Inr (r, s') \<and> db_inv {} s'"
proof (cases "\<exists>j\<in>set (jobs s). j_id j = i \<and> j_status j = DEAD_LETTERED")
  case True
  with requeue_dead_letter_found [OF assms(1) _ _ _ assms(2)] show ?thesis by blast
next
  case False
  with assms requeue_dead_letter_lost show ?thesis by (metis (no_types, lifting))
qed

lemma new_row_simps [simp]:
  "j_id (new_row env n) = gen_job_id env" "j_status (new_row env n) = PENDING"
  "j_idempotency_key (new_row env n) = n_idempotency_key n" "j_attempts (new_row env n) = 0"
  "j_request_hash (new_row env n) = n_request_hash n" "j_version (new_row env n) = 1"
  by (simp_all add: new_row_def)

lemma insert_row_keeps:
  assumes inv: "db_inv {} s" and new: "gen_job_id env \<notin> set (job_ids s)" "1 \<le> n_max_attempts n"
    and key: "n_idempotency_key n = None \<or> n_idempotency_key n \<notin> set (map j_idempotency_key (jobs s))"
  shows "db_inv {} (s\<lparr>jobs := jobs s @ [new_row env n]\<rparr>)"
proof -
  let ?t = "s\<lparr>jobs := jobs s @ [new_row env n]\<rparr>" and ?i = "gen_job_id env"
  have none: "attempts_of s ?i = [] \<and> deliveries_of s ?i = [] \<and> dead_letters_of s ?i = [] \<and> events_of s ?i = []"
    using db_invD(4) [OF inv] new(1)
    by (auto simp: rows_of_defs filter_empty_conv no_orphans_def references_job_def)
  then have "row_ok (new_row env n) \<and> books_ok {} s (new_row env n)"
    using new(2) by (simp add: row_ok_def books_ok_def settled_def new_row_def unclaimed_def)
  moreover have "books_ok {} ?t j = books_ok {} s j" for j
    by (intro books_ok_cong) simp_all
  moreover have "idempotency_keys ?t = idempotency_keys s @
      (case n_idempotency_key n of None \<Rightarrow> [] | Some k \<Rightarrow> [k])"
    by (simp add: idempotency_keys_def List.map_filter_def split: option.splits)
  moreover have "k \<notin> set (idempotency_keys s)" if "n_idempotency_key n = Some k" for k
    using key that by (force simp: idempotency_keys_def List.map_filter_def)
  moreover have "no_orphans ?t"
    using db_invD(4) [OF inv] by (auto simp: no_orphans_def references_job_def job_ids_def)
  moreover have "job_ids ?t = job_ids s @ [?i]" by (simp add: job_ids_def)
  ultimately show ?thesis
    using db_invD [OF inv] new(1) by (auto simp: db_inv_def split: option.splits)
qed

lemma idempotency_key_unique:
  assumes "distinct (idempotency_keys s)" "i \<in> set (jobs s)" "j \<in> set (jobs s)"
    "j_idempotency_key i = Some k" "j_idempotency_key j = Some k"
  shows "i = j"
proof -
  have "i = j" if "distinct (List.map_filter j_idempotency_key js)" "i \<in> set js" "j \<in> set js" for js
    using that
  proof (induction js)
    case Nil
    then show ?case by simp
  next
    case (Cons x js)
    have keys: "k \<in> set (List.map_filter j_idempotency_key js) \<longleftrightarrow> (\<exists>y\<in>set js. j_idempotency_key y = Some k)"
      by (force simp: List.map_filter_def)
    show ?case
      using Cons assms(4,5) keys by (auto simp: List.map_filter_simps split: option.splits)
  qed
  with assms show ?thesis by (simp add: idempotency_keys_def)
qed

lemma create_job_cases:
  assumes "1 \<le> n_max_attempts n" "gen_job_id env \<notin> set (job_ids s)"
  obtains (created) "create_job env n s = Inr ((new_row env n, True), s\<lparr>jobs := jobs s @ [new_row env n]\<rparr>)"
      "n_idempotency_key n = None \<or> n_idempotency_key n \<notin> set (map j_idempotency_key (jobs s))"
  | (replayed) j where "create_job env n s = Inr ((j, False), s)" "j \<in> set (jobs s)"
      "j_idempotency_key j = n_idempotency_key n" "n_idempotency_key n \<noteq> None"
proof (cases "n_idempotency_key n \<noteq> None \<and> n_idempotency_key n \<in> set (map j_idempotency_key (jobs s))")
  case True
  then have "filter (\<lambda>j. j_idempotency_key j = n_idempotency_key n) (jobs s) \<noteq> []"
    by (auto simp: filter_empty_conv)
  then obtain j where j: "first (filter (\<lambda>j. j_idempotency_key j = n_idempotency_key n) (jobs s)) = Some j"
    by (cases "filter (\<lambda>j. j_idempotency_key j = n_idempotency_key n) (jobs s)") auto
  then have "j \<in> set (jobs s)" "j_idempotency_key j = n_idempotency_key n"
    by (auto dest: first_SomeD)
  with True j assms(1) show ?thesis
    by (intro replayed) (auto simp: create_job_def insert_job_def get_job_by_idempotency_key_def)
next
  case False
  with assms show ?thesis
    by (intro created) (auto simp: create_job_def insert_job_def)
qed

lemma create_job_keeps:
  assumes inv: "db_inv {} s" and n: "1 \<le> n_max_attempts n" "gen_job_id env \<notin> set (job_ids s)"
  shows "\<exists>r s'. create_job env n s = Inr (r, s') \<and> db_inv {} s'"
  using n
proof (cases rule: create_job_cases)
  case created
  with insert_row_keeps [OF inv n(2,1)] show ?thesis by blast
next
  case (replayed j)
  with inv show ?thesis by blast
qed

text \<open>Statements that leave the jobs tables alone.\<close>

lemma db_inv_other_tables [simp]:
  "db_inv R (s\<lparr>rate_limit_buckets := b\<rparr>) = db_inv R s"
  "db_inv R (s\<lparr>mock_provider_log := p\<rparr>) = db_inv R s"
  "db_inv R (s\<lparr>mock_webhook_receipts := r\<rparr>) = db_inv R s"
  by (simp_all add: db_inv_def books_ok_def rows_of_defs job_ids_def idempotency_keys_def no_orphans_def
      references_job_def)

lemma try_acquire_rate_limit_keeps:
  "db_inv {} s \<Longrightarrow> try_acquire_rate_limit env r l w s = Inr (x, s') \<Longrightarrow> db_inv {} s'"
  by (auto simp: try_acquire_rate_limit_def Let_def split: if_splits)

lemma delete_old_rate_limit_buckets_keeps:
  "db_inv {} s \<Longrightarrow> delete_old_rate_limit_buckets env w s = Inr (x, s') \<Longrightarrow> db_inv {} s'"
  by (auto simp: delete_old_rate_limit_buckets_def Let_def)

end
