(* ===== verification/Demo_Data.thy ===== *)
theory Demo_Data
  imports Jobs_Operations
begin

text \<open>
  Concrete data for the witnesses: one scheduled job, the database after it was created, after it
  was claimed, and after it was dead-lettered. Generated identifiers are the job's id with a prefix.
\<close>

definition demo_env :: txenv where
  "demo_env =
     \<lparr> now = 100, locked = (\<lambda>_. False), rank = (\<lambda>_. 0), ret_rank = (\<lambda>_. 0), gen_job_id = ''j1'',
       gen_token = (\<lambda>i. CHR ''t'' # i), gen_event = (\<lambda>i. CHR ''e'' # i), gen_serial = 1 \<rparr>"

definition demo_new :: new_job where
  "demo_new =
     \<lparr> n_recipient = ''ada@example.com'', n_channel = EMAIL, n_payload = [], n_priority = HIGH,
       n_max_attempts = 1, n_request_hash = ''h1'', n_idempotency_key = Some ''k1'',
       n_send_at = None, n_delay_seconds = None, n_callback_url = None \<rparr>"

definition demo_job :: job where
  "demo_job = new_row demo_env demo_new"

definition demo_db :: db where
  "demo_db = empty_db\<lparr>jobs := [demo_job]\<rparr>"

definition demo_claimed :: job where
  "demo_claimed = claim_row demo_env ''w'' 30 demo_job"

definition demo_db_claimed :: db where
  "demo_db_claimed = empty_db\<lparr>jobs := [demo_claimed]\<rparr>"

lemmas demo_defs =
  demo_env_def demo_new_def demo_job_def demo_db_def demo_claimed_def demo_db_claimed_def
  new_row_def claim_row_def empty_db_def

lemma demo_ids [simp]:
  "j_id demo_job = ''j1''" "j_id demo_claimed = ''j1''" "jobs demo_db = [demo_job]"
  "jobs demo_db_claimed = [demo_claimed]"
  by (simp_all add: demo_defs)

lemma demo_fresh: "webhook_outbox s = [] \<Longrightarrow> inj (gen_event env) \<Longrightarrow> gen_job_id env \<notin> set (job_ids s) \<Longrightarrow> fresh_ids env s"
  by (simp add: fresh_ids_def)

lemma demo_env_gen_event: "inj (gen_event demo_env)"
  by (simp add: demo_env_def inj_def)

definition later :: "time \<Rightarrow> txenv" where
  "later t = demo_env\<lparr>now := t, gen_job_id := ''j2''\<rparr>"

lemma later_simps [simp]:
  "now (later t) = t" "gen_job_id (later t) = ''j2''" "inj (gen_event (later t))"
  "locked (later t) i = False" "gen_event (later t) i = CHR ''e'' # i" "gen_token (later t) i = CHR ''t'' # i"
  by (simp_all add: later_def demo_env_def inj_def)

lemma demo_db_inv: "db_inv {} demo_db"
proof -
  have "db_inv {} (empty_db\<lparr>jobs := jobs empty_db @ [new_row demo_env demo_new]\<rparr>)"
    by (rule insert_row_keeps [OF db_inv_empty]) (simp_all add: empty_db_def job_ids_def demo_new_def)
  then show ?thesis by (simp add: demo_db_def demo_job_def empty_db_def)
qed

lemma demo_claim:
  "claim_due_jobs demo_env ''w'' 10 30 demo_db = Inr ([demo_claimed], demo_db_claimed)"
  by (simp add: claim_due_jobs_def select_due_def sql_select_def sql_limit_def is_due_def
      returning_def update_where_def demo_defs coalesce_def Let_def)

lemma demo_db_claimed_inv: "db_inv {} demo_db_claimed"
  by (rule claim_due_jobs_keeps [OF demo_db_inv demo_claim])

lemma demo_owned: "owns ''j1'' ''tj1'' demo_claimed"
  by (simp add: owns_def demo_defs)

lemma demo_fresh_later: "fresh_ids (later t) demo_db" "fresh_ids (later t) demo_db_claimed"
  by (rule demo_fresh; simp add: demo_db_def demo_db_claimed_def empty_db_def job_ids_def)+

text \<open>The job is sent, or fails for good: its cap is one attempt.\<close>

definition demo_db_sent :: db where
  "demo_db_sent = snd (projr (mark_sent (later 101) ''j1'' ''tj1'' ''w'' (Some ''m1'') ''u'' demo_db_claimed))"

definition demo_db_dead :: db where
  "demo_db_dead = snd (projr (mark_failed (later 101) ''j1'' ''tj1'' ''w'' ''e'' 2 False ''u'' demo_db_claimed))"

lemma demo_db_sent_inv: "db_inv {} demo_db_sent"
  using mark_sent_keeps [OF demo_db_claimed_inv demo_fresh_later(2), of 101 "''j1''" "''tj1''" "''w''" "Some ''m1''" "''u''"]
  by (auto simp: demo_db_sent_def)

lemma demo_db_dead_inv: "db_inv {} demo_db_dead"
  using mark_failed_keeps [OF demo_db_claimed_inv demo_fresh_later(2), of 101 "''j1''" "''tj1''" "''w''" "''e''" 2 False "''u''"]
  by (auto simp: demo_db_dead_def)

definition demo_dead_job :: job where
  "demo_dead_job = failed_row (later 101) ''e'' 2 False demo_claimed"

lemma demo_db_dead_jobs: "jobs demo_db_dead = [demo_dead_job]"
  using mark_failed_owned(1) [OF demo_db_claimed_inv demo_fresh_later(2) _ demo_owned, of 101 "''w''" "''e''" 2 False "''u''"]
  by (simp add: demo_db_dead_def demo_dead_job_def update_where_def demo_owned)

lemma demo_dead_job_simps [simp]: "j_id demo_dead_job = ''j1''" "j_status demo_dead_job = DEAD_LETTERED"
  by (simp_all add: demo_dead_job_def demo_defs exhausted_def)

end
