(* ===== verification/Jobs_Properties.thy ===== *)
theory Jobs_Properties
  imports Demo_Data
begin

text \<open>
  What the jobs repository guarantees, statement by statement: claiming, fencing, recording a
  result, retry and dead-lettering, reaping, requeueing, and idempotent creation.
\<close>

section \<open>Claiming\<close>

text \<open>
  No waiting job is passed over for a worse one: a due, unlocked job that was not selected has at
  most the priority of every selected job, and among equals it became due no earlier.
\<close>

definition not_after :: "job \<Rightarrow> job \<Rightarrow> bool" where
  "not_after a b \<longleftrightarrow> j_priority b < j_priority a \<or> j_priority b = j_priority a \<and> j_run_at a \<le> j_run_at b"

lemma claim_order_not_after: "claim_order a \<le> claim_order b \<longleftrightarrow> not_after a b"
  by (cases "j_priority a"; cases "j_priority b")
    (auto simp: claim_order_def not_after_def less_eq_prod_def less_priority_def less_eq_priority_def)

lemma claim_takes_best_first:
  assumes inv: "db_inv {} s" and claim: "claim_due_jobs env w n l s = Inr (cs, s')"
    and c: "c \<in> set cs"
    and j: "j \<in> set (jobs s)" "is_due env j" "\<not> locked env (j_id j)" "j_id j \<notin> j_id ` set cs"
  shows "not_after c j"
proof -
  obtain due where due: "select_due env n s = Inr due" and cs: "set cs = claim_row env w l ` set due"
    using claim_due_jobsE [OF claim db_invD(1) [OF inv]] by metis
  from c cs obtain d where d: "d \<in> set due" "c = claim_row env w l d" by auto
  have "j \<notin> set due" using j(4) by (auto simp: cs claimed_ids)
  then have "claim_order d \<le> claim_order j"
    using sql_select_best [OF due [unfolded select_due_def] d(1) j(1)] j(2,3) by simp
  then show ?thesis by (simp add: claim_order_not_after not_after_def d(2))
qed

text \<open>
  C30: a claim takes the best due jobs. It returns due jobs that no other transaction holds, as many as there are up to
  the batch size, highest priority first and among equals the one due longest; no due, unlocked job that it leaves behind should
  have come before one that it takes. Each is the claimed image of its row, and the database changes in
  those rows and nowhere else.
\<close>

theorem claim_due_jobs_correct:
  assumes inv: "db_inv {} s" and n: "0 \<le> n"
  shows "\<exists>cs s'. claim_due_jobs env w n l s = Inr (cs, s') \<and>
     length cs = min (nat n) (length (filter (\<lambda>j. is_due env j \<and> \<not> locked env (j_id j)) (jobs s))) \<and>
     sorted_wrt not_after cs \<and>
     (\<forall>c\<in>set cs. \<forall>j\<in>set (jobs s). is_due env j \<and> \<not> locked env (j_id j) \<and> j_id j \<notin> j_id ` set cs \<longrightarrow> not_after c j) \<and>
     (\<forall>c\<in>set cs. \<exists>j\<in>set (jobs s). is_due env j \<and> \<not> locked env (j_id j) \<and> c = claim_row env w l j) \<and>
     s' = s\<lparr>jobs := map (\<lambda>j. if j_id j \<in> j_id ` set cs then claim_row env w l j else j) (jobs s)\<rparr>"
proof -
  obtain cs s' where claim: "claim_due_jobs env w n l s = Inr (cs, s')"
    using claim_due_jobs_total [OF n] by blast
  obtain due where due: "select_due env n s = Inr due"
    and cs: "set cs = claim_row env w l ` set due" "sorted (map claim_order cs)" "length cs = length due"
    and s': "s' = s\<lparr>jobs := update_where (\<lambda>j. j_id j \<in> set (map j_id due)) (claim_row env w l) (jobs s)\<rparr>"
    using claim_due_jobsE [OF claim db_invD(1) [OF inv]] by metis
  have ids: "j_id ` set cs = set (map j_id due)" by (simp add: cs(1) claimed_ids)
  have len: "length due = min (nat n) (length (filter (\<lambda>j. is_due env j \<and> \<not> locked env (j_id j)) (jobs s)))"
    using due unfolding select_due_def by (rule sql_select_length)
  have order: "sorted_wrt not_after cs" using cs(2) by (simp add: sorted_map claim_order_not_after)
  have rows: "\<forall>c\<in>set cs. \<exists>j\<in>set (jobs s). is_due env j \<and> \<not> locked env (j_id j) \<and> c = claim_row env w l j"
    using cs(1) select_dueD [OF due] by auto
  show ?thesis
    using claim len order rows claim_takes_best_first [OF inv claim]
    by (intro exI [of _ cs] exI [of _ s'] conjI) (simp_all add: cs(3) s' ids update_where_def)
qed

theorem claim_due_jobs_correct_witness:
  "\<exists>c s'. claim_due_jobs demo_env ''w'' 1 30
       (demo_db\<lparr>jobs := [demo_job\<lparr>j_id := ''j2'', j_idempotency_key := None, j_priority := LOW\<rparr>, demo_job]\<rparr>) = Inr ([c], s') \<and>
     j_id c = ''j1''"
proof -
  let ?low = "demo_job\<lparr>j_id := ''j2'', j_idempotency_key := None, j_priority := LOW\<rparr>"
  let ?s = "demo_db\<lparr>jobs := [?low, demo_job]\<rparr>"
  have inv: "db_inv {} ?s"
    by (simp add: db_inv_def job_ids_def idempotency_keys_def no_orphans_def books_ok_def row_ok_def
        settled_def rows_of_defs unclaimed_def List.map_filter_simps demo_defs)
  have due: "is_due demo_env ?low" "is_due demo_env demo_job" "\<not> locked demo_env i" for i
    by (simp_all add: is_due_def demo_defs coalesce_def)
  have prio: "j_priority ?low = LOW" "j_id ?low = ''j2''" "j_id demo_job = ''j1''" "j_priority demo_job = HIGH"
    by (simp_all add: demo_defs)
  from claim_due_jobs_correct [OF inv, of 1 demo_env "''w''" 30] due
  obtain cs s' where claim: "claim_due_jobs demo_env ''w'' 1 30 ?s = Inr (cs, s')" and one: "length cs = 1"
    and best: "\<forall>c\<in>set cs. \<forall>j\<in>set (jobs ?s). is_due demo_env j \<and> \<not> locked demo_env (j_id j) \<and> j_id j \<notin> j_id ` set cs \<longrightarrow> not_after c j"
    and rows: "\<forall>c\<in>set cs. \<exists>j\<in>set (jobs ?s). is_due demo_env j \<and> \<not> locked demo_env (j_id j) \<and> c = claim_row demo_env ''w'' 30 j"
    by auto
  obtain c where cs: "cs = [c]" using one by (cases cs) auto
  have "\<not> not_after (claim_row demo_env ''w'' 30 ?low) demo_job"
    unfolding not_after_def by (simp add: prio less_priority_def)
  obtain j where j: "j \<in> set (jobs ?s)" "c = claim_row demo_env ''w'' 30 j" using rows cs by auto
  have "j_id c = ''j1''"
  proof (cases "j = ?low")
    case True
    then have "j_id c = ''j2''" using j(2) prio(2) by (simp add: claim_row_def)
    then have "not_after c demo_job" using best due(2,3) prio(3) by (simp add: cs)
    with True j(2) \<open>\<not> not_after (claim_row demo_env ''w'' 30 ?low) demo_job\<close> show ?thesis by simp
  next
    case False
    with j prio(3) show ?thesis by (simp add: claim_row_def)
  qed
  with claim cs show ?thesis by blast
qed

text \<open>
  C24: two workers never hold the same job: a claim that commits after another one returns none of
  the jobs the first returned.
\<close>

theorem no_double_claim:
  assumes inv: "db_inv {} s" and first: "claim_due_jobs env w n l s = Inr (cs, s')"
    and second: "claim_due_jobs env' w' n' l' s' = Inr (cs', s'')"
  shows "j_id ` set cs \<inter> j_id ` set cs' = {}"
proof -
  obtain due where cs: "set cs = claim_row env w l ` set due"
    and s': "s' = s\<lparr>jobs := update_where (\<lambda>j. j_id j \<in> set (map j_id due)) (claim_row env w l) (jobs s)\<rparr>"
    using claim_due_jobsE [OF first db_invD(1) [OF inv]] by metis
  have "distinct (job_ids s')" using claim_due_jobs_keeps [OF inv first] by (rule db_invD(1))
  then obtain due' where due': "select_due env' n' s' = Inr due'" and cs': "set cs' = claim_row env' w' l' ` set due'"
    using claim_due_jobsE [OF second] by metis
  have "j_id j \<notin> j_id ` set due" if "j \<in> set due'" for j
    using select_dueD [OF due' that] by (auto simp: s' is_due_def split: if_splits)
  then have "x \<notin> j_id ` set due" if "x \<in> j_id ` set due'" for x using that by (metis imageE)
  then have "j_id ` set due \<inter> j_id ` set due' = {}" by (metis disjoint_iff)
  then show ?thesis by (simp add: cs cs' claimed_ids)
qed

theorem no_double_claim_witness:
  "claim_due_jobs (later 200) ''w2'' 10 30 demo_db_claimed = Inr ([], demo_db_claimed) \<and>
   j_id ` set [demo_claimed] \<inter> j_id ` set ([] :: job list) = {}"
proof -
  have "claim_due_jobs (later 200) ''w2'' 10 30 demo_db_claimed = Inr ([], demo_db_claimed)"
    by (simp add: claim_due_jobs_def select_due_def sql_select_def sql_limit_def is_due_def
        returning_def update_where_def later_def demo_defs coalesce_def Let_def)
  with no_double_claim [OF demo_db_inv demo_claim this] show ?thesis by simp
qed

section \<open>Fencing\<close>

text \<open>
  C3: a worker whose lease ran out is fenced. Once the reaper has taken its job back, and however
  the job was claimed again in between under new tokens, none of its three writes changes the
  database, and each tells it so.
\<close>

theorem stale_worker_is_fenced:
  assumes inv: "db_inv {} s" and fresh: "fresh_ids env s"
    and held: "j \<in> set (jobs s)" "owns i tok j"
    and reap: "select_expired env n s = Inr expired" "j \<in> set expired"
      "reap_expired_leases env n url s = Inr (ts, s1)"
    and reclaim: "s2 = s1 \<or> claim_due_jobs env' w n' l s1 = Inr (cs, s2) \<and> gen_token env' i \<noteq> tok"
  shows "mark_sent e2 i tok w2 msg url s2 = Inr (None, s2) \<and>
         mark_failed e2 i tok w2 err d p url s2 = Inr (None, s2) \<and>
         return_to_queue e2 i tok d s2 = Inr (None, s2)"
proof -
  have s1: "jobs s1 = update_where (\<lambda>k. j_id k \<in> set (map j_id expired)) (reaped_row env) (jobs s)"
    and inv1: "db_inv {} s1"
  proof -
    have keep: "jobs (fold (reap_close env url) ps t) = jobs t" for ps t
      by (induction ps arbitrary: t) (simp_all add: reap_close_def)
    note eq = reap_expired_leases_eq [OF inv fresh reap(1), of url]
    with reap(3) have "s1 = fold (reap_close env url) (reaped_pairs env expired s) (reap_update env expired s)"
      by simp
    then show "jobs s1 = update_where (\<lambda>k. j_id k \<in> set (map j_id expired)) (reaped_row env) (jobs s)"
      by (simp add: keep reap_update_def)
    from eq reap(3) show "db_inv {} s1" by simp
  qed
  have gone: "j_claim_token k = None" if "k \<in> set (jobs s1)" "j_id k = i" for k
  proof -
    from that s1 obtain k0 where k0: "k0 \<in> set (jobs s)" "j_id k0 = i"
      "k = (if j_id k0 \<in> set (map j_id expired) then reaped_row env k0 else k0)"
      by (auto split: if_splits)
    have "i \<in> set (map j_id expired)" using reap(2) held(2) by (force simp: owns_def)
    with k0 show ?thesis by (simp add: reaped_row_def)
  qed
  have lost: "\<not> owns i tok k" if "k \<in> set (jobs s2)" for k
    using reclaim
  proof
    assume "s2 = s1"
    with gone that show ?thesis by (auto simp: owns_def)
  next
    assume c: "claim_due_jobs env' w n' l s1 = Inr (cs, s2) \<and> gen_token env' i \<noteq> tok"
    obtain due :: "job list" where
      "s2 = s1\<lparr>jobs := update_where (\<lambda>j. j_id j \<in> set (map j_id due)) (claim_row env' w l) (jobs s1)\<rparr>"
      by (rule claim_due_jobsE [OF conjunct1 [OF c] db_invD(1) [OF inv1]])
    with that gone c show ?thesis by (auto simp: owns_def split: if_splits)
  qed
  show ?thesis
    using mark_sent_lost [OF lost] mark_failed_lost [OF lost] return_to_queue_lost [OF lost] by blast
qed

theorem stale_worker_is_fenced_witness:
  "\<exists>ts s1. reap_expired_leases (later 200) 10 ''u'' demo_db_claimed = Inr (ts, s1) \<and>
     mark_sent (later 201) ''j1'' ''tj1'' ''w'' None ''u'' s1 = Inr (None, s1)"
proof -
  have expired: "select_expired (later 200) 10 demo_db_claimed = Inr [demo_claimed]"
    by (simp add: select_expired_def sql_select_def sql_limit_def lease_expired_def)
       (simp add: demo_defs)
  note reap = reap_expired_leases_eq(1) [OF demo_db_claimed_inv demo_fresh_later(2) expired, of "''u''"]
  have "demo_claimed \<in> set (jobs demo_db_claimed)" by simp
  from stale_worker_is_fenced [OF demo_db_claimed_inv demo_fresh_later(2) this demo_owned expired _ reap disjI1 [OF refl]]
  show ?thesis using reap by auto
qed

section \<open>Recording a result\<close>

text \<open>
  C22: a successful delivery is recorded once and atomically: the owner's \<open>mark_sent\<close> moves the row
  to \<open>sent\<close> with the next version, adds one ledger row, one attempt and one \<open>sent\<close> event, and
  touches no other job; after it, no further \<open>mark_sent\<close> or \<open>mark_failed\<close> for the job writes
  anything.
\<close>

theorem mark_sent_commits_once:
  assumes inv: "db_inv {} s" and fresh: "fresh_ids env s" and j: "j \<in> set (jobs s)" "owns i tok j"
  shows "\<exists>s'. mark_sent env i tok w msg url s =
            Inr (Some \<lparr>t_job_id = i, t_version = j_version j + 1, t_status = SENT\<rparr>, s') \<and>
          jobs s' = map (\<lambda>k. if j_id k = i then sent_row env j else k) (jobs s) \<and>
          deliveries s' = deliveries s @ [delivery_row env j w msg] \<and> deliveries_of s i = [] \<and>
          job_attempts s' = job_attempts s @ [attempt_row env j (Some w) OutSent None] \<and>
          (\<exists>e. webhook_outbox s' = webhook_outbox s @ [e] \<and> o_job_id e = i \<and> o_event e = EvSent \<and>
               o_status e = OutboxPending) \<and>
          dead_letters s' = dead_letters s \<and>
          mark_sent e2 i tok2 w2 msg2 url2 s' = Inr (None, s') \<and>
          mark_failed e2 i tok2 w2 err d p url2 s' = Inr (None, s')"
proof -
  let ?row = "sent_row env j"
  let ?t = "s\<lparr>jobs := update_where (owns i tok) (sent_row env) (jobs s)\<rparr>"
  let ?s' = "sent_closing env w msg url ?row ?t"
  have only: "k = j" if "k \<in> set (jobs s)" "j_id k = i" for k
    using key_unique [OF db_invD(1) [OF inv, unfolded job_ids_def] that(1) j(1)] that(2) j(2)
    by (simp add: owns_def)
  have jobs': "jobs ?s' = map (\<lambda>k. if j_id k = i then ?row else k) (jobs s)"
  proof -
    have "update_where (owns i tok) (sent_row env) (jobs s) = map (\<lambda>k. if j_id k = i then ?row else k) (jobs s)"
      unfolding update_where_def
    proof (rule map_cong [OF refl])
      fix k assume "k \<in> set (jobs s)"
      then show "(if owns i tok k then sent_row env k else k) = (if j_id k = i then ?row else k)"
        using only [of k] j(2) by (cases "j_id k = i") (auto simp: owns_def)
    qed
    then show ?thesis by (simp add: sent_closing_def)
  qed
  have none: "\<not> owns i tok2 k" if "k \<in> set (jobs ?s')" for k
    using that by (auto simp: jobs' owns_def split: if_splits)
  have "length (deliveries_of s i) = 0"
    using db_invD(6) [OF inv j(1)] j(2) by (simp add: books_ok_def owns_def Let_def)
  then have none_before: "deliveries_of s i = []" by simp
  have "job_transition ?row = \<lparr>t_job_id = i, t_version = j_version j + 1, t_status = SENT\<rparr>"
    using j(2) by (simp add: job_transition_def owns_def)
  then have result: "mark_sent env i tok w msg url s =
      Inr (Some \<lparr>t_job_id = i, t_version = j_version j + 1, t_status = SENT\<rparr>, ?s')"
    using mark_sent_owned(1) [OF inv fresh j, of w msg url] by simp
  have copy: "delivery_row env ?row w msg = delivery_row env j w msg"
    "attempt_row env ?row (Some w) OutSent None = attempt_row env j (Some w) OutSent None"
    by (simp_all add: satellite_row_defs sent_row_def)
  have tables: "deliveries ?s' = deliveries s @ [delivery_row env j w msg]"
    "job_attempts ?s' = job_attempts s @ [attempt_row env j (Some w) OutSent None]"
    "dead_letters ?s' = dead_letters s"
    by (simp_all add: sent_closing_def add_books_def copy)
  have event: "\<exists>e. webhook_outbox ?s' = webhook_outbox s @ [e] \<and> o_job_id e = i \<and> o_event e = EvSent \<and>
      o_status e = OutboxPending"
    using j(2) by (simp add: sent_closing_def add_books_def event_row_def owns_def)
  have "mark_sent e2 i tok2 w2 msg2 url2 ?s' = Inr (None, ?s')"
    "mark_failed e2 i tok2 w2 err d p url2 ?s' = Inr (None, ?s')"
    by (rule mark_sent_lost mark_failed_lost, erule none)+
  with result jobs' tables none_before event show ?thesis
    by (intro exI [of _ ?s'] conjI)
qed

theorem mark_sent_commits_once_witness:
  "\<exists>s'. mark_sent (later 101) ''j1'' ''tj1'' ''w'' (Some ''m1'') ''u'' demo_db_claimed =
      Inr (Some \<lparr>t_job_id = ''j1'', t_version = 3, t_status = SENT\<rparr>, s') \<and> length (deliveries s') = 1"
proof -
  have "demo_claimed \<in> set (jobs demo_db_claimed)" by simp
  from mark_sent_commits_once [OF demo_db_claimed_inv demo_fresh_later(2) this demo_owned]
  have "\<exists>s'. mark_sent (later 101) ''j1'' ''tj1'' ''w'' (Some ''m1'') ''u'' demo_db_claimed =
      Inr (Some \<lparr>t_job_id = ''j1'', t_version = j_version demo_claimed + 1, t_status = SENT\<rparr>, s') \<and>
      length (deliveries s') = length (deliveries demo_db_claimed) + 1"
    by fastforce
  then show ?thesis by (simp add: demo_defs)
qed

text \<open>
  C23: a failed attempt of the owner is retried or dead-lettered, decided by the cap and the error
  class. The job is dead-lettered exactly when the error is permanent or the attempts are used up,
  with a dead letter that gives the reason and a \<open>dead_lettered\<close> event; otherwise it is pending
  again, due after the given delay, with a \<open>failed\<close> event and no dead letter.
\<close>

theorem mark_failed_policy:
  fixes d :: real and p :: bool and err :: string
  assumes inv: "db_inv {} s" and fresh: "fresh_ids env s" and j: "j \<in> set (jobs s)" "owns i tok j"
  defines "row \<equiv> failed_row env err d p j" and "dead \<equiv> p \<or> j_attempts j = j_max_attempts j"
  shows "\<exists>s' e. mark_failed env i tok w err d p url s = Inr (Some (job_transition row), s') \<and>
          get_job s' i = Some row \<and> j_last_error row = Some err \<and>
          j_status row = (if dead then DEAD_LETTERED else PENDING) \<and>
          (\<not> dead \<longrightarrow> j_run_at row = now env + d \<and> j_attempts row < j_max_attempts row) \<and>
          webhook_outbox s' = webhook_outbox s @ [e] \<and> o_job_id e = i \<and>
          o_event e = (if dead then EvDeadLettered else EvFailed) \<and>
          dead_letters s' = dead_letters s @
            (if dead then [dead_letter_row env j (if p then ''permanent error'' else ''max attempts exceeded'') err]
             else []) \<and>
          attempts_of s' i = attempts_of s i @ [attempt_row env j (Some w) OutFailed (Some err)] \<and>
          deliveries s' = deliveries s"
proof -
  let ?t = "s\<lparr>jobs := update_where (owns i tok) (failed_row env err d p) (jobs s)\<rparr>"
  let ?s' = "failure_closing env (Some w) OutFailed err (failure_reason p) url row ?t"
  have i: "j_id row = i" "j_id j = i" using j(2) by (simp_all add: row_def owns_def)
  have ok: "1 \<le> j_attempts j" "j_attempts j \<le> j_max_attempts j"
    using db_invD(5) [OF inv j(1)] j(2) by (auto simp: row_ok_def owns_def)
  then have dead: "exhausted p j = dead" by (auto simp: exhausted_def dead_def)
  have "distinct (map j_id (jobs ?s'))" "row \<in> set (jobs ?s')"
    using db_invD(1) [OF mark_failed_owned(2) [OF inv fresh j, of w err p url d]] j
    by (auto simp: row_def job_ids_def)
  then have "filter (\<lambda>x. j_id x = j_id row) (jobs ?s') = [row]" by (rule filter_key_unique)
  then have "get_job ?s' i = Some row" by (simp add: get_job_def i)
  moreover have "mark_failed env i tok w err d p url s = Inr (Some (job_transition row), ?s')"
    unfolding row_def by (rule mark_failed_owned(1) [OF inv fresh j])
  moreover have "j_status row = (if dead then DEAD_LETTERED else PENDING)"
    "j_last_error row = Some err" "\<not> dead \<longrightarrow> j_run_at row = now env + d \<and> j_attempts row < j_max_attempts row"
    using dead ok by (auto simp: row_def failed_row_def exhausted_def)
  moreover have "attempts_of ?s' i = attempts_of s i @ [attempt_row env j (Some w) OutFailed (Some err)]"
    by (simp add: failure_closing_def add_books_def attempts_of_def attempt_row_def i)
       (simp add: row_def failed_row_def)
  ultimately show ?thesis
    by (intro exI [of _ ?s'] exI [of _ "event_row env row (failure_event row) (str_or (j_callback_url row) url)
          (failure_data row err (failure_reason p))"])
       (simp add: failure_closing_def add_books_def dead_letter_row_def event_row_def failure_event_def i
          failure_reason_def, simp add: row_def failed_row_def)
qed

theorem mark_failed_policy_witness:
  "\<exists>s'. mark_failed (later 101) ''j1'' ''tj1'' ''w'' ''e'' 2 False ''u'' demo_db_claimed =
      Inr (Some (job_transition demo_dead_job), s') \<and> length (dead_letters s') = 1"
proof -
  have "demo_claimed \<in> set (jobs demo_db_claimed)" by simp
  from mark_failed_policy [OF demo_db_claimed_inv demo_fresh_later(2) this demo_owned,
      of 101 "''w''" "''e''" 2 False "''u''"]
  obtain s' where "mark_failed (later 101) ''j1'' ''tj1'' ''w'' ''e'' 2 False ''u'' demo_db_claimed =
      Inr (Some (job_transition demo_dead_job), s')"
    "length (dead_letters s') = length (dead_letters demo_db_claimed) +
       (if j_attempts demo_claimed = j_max_attempts demo_claimed then 1 else 0)"
    unfolding demo_dead_job_def by (auto split: if_splits)
  then show ?thesis by (simp add: demo_defs)
qed

section \<open>Reaping\<close>

lemma fold_reap_close:
  "attempts_of (fold (reap_close env url) ps s) i = attempts_of s i @
     map (\<lambda>p. attempt_row env (snd p) (j_locked_by (fst p)) OutLeaseExpired (Some lease_expired_error))
       (filter (\<lambda>p. j_id (snd p) = i) ps)"
  "jobs (fold (reap_close env url) ps s) = jobs s"
  "deliveries (fold (reap_close env url) ps s) = deliveries s"
  by (induction ps arbitrary: s)
    (simp_all add: reap_close_def failure_closing_def add_books_def attempts_of_def,
     simp_all add: attempt_row_def)

lemma reaped_pairs_of:
  assumes "distinct (map j_id (jobs s))" "set expired \<subseteq> set (jobs s)" "j \<in> set expired"
  shows "filter (\<lambda>p. j_id (snd p) = j_id j) (reaped_pairs env expired s) = [(j, reaped_row env j)]"
proof -
  have "distinct (map (j_id \<circ> fst) (reaped_pairs env expired s))"
    unfolding reaped_pairs_def distinct_map_sort_key using assms(1) by (simp add: comp_def distinct_map_filter)
  moreover have "(j, reaped_row env j) \<in> set (reaped_pairs env expired s)"
    using assms(2,3) by (simp add: set_reaped_pairs)
  ultimately have "filter (\<lambda>p. (j_id \<circ> fst) p = (j_id \<circ> fst) (j, reaped_row env j)) (reaped_pairs env expired s)
      = [(j, reaped_row env j)]"
    by (rule filter_key_unique)
  moreover have "j_id (snd p) = j_id (fst p)" if "p \<in> set (reaped_pairs env expired s)" for p
    using that assms(2) by (auto simp: set_reaped_pairs)
  ultimately show ?thesis by (simp cong: filter_cong)
qed

text \<open>
  The reaper takes back the jobs whose lease has expired, up to its limit. Each loses its claim
  token, keeps its attempt as a failed one in the history, and goes back to the queue at once or, at
  the cap, to the dead letters; every other job row is unchanged and nothing is recorded as
  delivered.
\<close>

theorem reap_expired_leases_correct:
  assumes inv: "db_inv {} s" and fresh: "fresh_ids env s" and n: "0 \<le> n"
  shows "\<exists>expired ts s'. reap_expired_leases env n url s = Inr (ts, s') \<and>
     length expired = min (nat n) (length (filter (\<lambda>j. lease_expired env j \<and> \<not> locked env (j_id j)) (jobs s))) \<and>
     set ts = (\<lambda>j. job_transition (reaped_row env j)) ` set expired \<and>
     jobs s' = map (\<lambda>j. if j \<in> set expired then reaped_row env j else j) (jobs s) \<and>
     deliveries s' = deliveries s \<and>
     (\<forall>j\<in>set expired. lease_expired env j \<and> j_claim_token (reaped_row env j) = None \<and>
        (j_status (reaped_row env j) = (if j_attempts j < j_max_attempts j then PENDING else DEAD_LETTERED)) \<and>
        attempts_of s' (j_id j) = attempts_of s (j_id j) @
          [attempt_row env j (j_locked_by j) OutLeaseExpired (Some lease_expired_error)])"
proof -
  obtain expired where expired: "select_expired env n s = Inr expired"
    using n sql_select_total unfolding select_expired_def by blast
  have sub: "set expired \<subseteq> set (jobs s)" using select_expiredD [OF expired] by auto
  have ids: "distinct (map j_id (jobs s))" using db_invD(1) [OF inv] by (simp add: job_ids_def)
  let ?s' = "fold (reap_close env url) (reaped_pairs env expired s) (reap_update env expired s)"
  have result: "reap_expired_leases env n url s =
      Inr (map (job_transition \<circ> snd) (reaped_pairs env expired s), ?s')"
    by (rule reap_expired_leases_eq(1) [OF inv fresh expired])
  have len: "length expired = min (nat n) (length (filter (\<lambda>j. lease_expired env j \<and> \<not> locked env (j_id j)) (jobs s)))"
    using expired unfolding select_expired_def by (rule sql_select_length)
  have ts: "set (map (job_transition \<circ> snd) (reaped_pairs env expired s)) =
      (\<lambda>j. job_transition (reaped_row env j)) ` set expired"
    using sub by (simp add: set_reaped_pairs image_image)
  have jobs': "jobs ?s' = map (\<lambda>j. if j \<in> set expired then reaped_row env j else j) (jobs s)"
    unfolding fold_reap_close(2) reap_update_def using selected_row [OF ids _ sub]
    by (simp add: update_where_def)
  have row: "lease_expired env j \<and> j_claim_token (reaped_row env j) = None \<and>
      (j_status (reaped_row env j) = (if j_attempts j < j_max_attempts j then PENDING else DEAD_LETTERED)) \<and>
      attempts_of ?s' (j_id j) = attempts_of s (j_id j) @
        [attempt_row env j (j_locked_by j) OutLeaseExpired (Some lease_expired_error)]"
    if "j \<in> set expired" for j
  proof -
    have "attempts_of (reap_update env expired s) (j_id j) = attempts_of s (j_id j)"
      by (simp add: reap_update_def attempts_of_def)
    moreover have "attempt_row env (reaped_row env j) w OutLeaseExpired e = attempt_row env j w OutLeaseExpired e" for w e
      by (simp add: attempt_row_def)
    ultimately show ?thesis
      using select_expiredD [OF expired that] reaped_pairs_of [OF ids sub that, of env]
      by (simp add: fold_reap_close(1)) (simp add: reaped_row_def exhausted_def not_less)
  qed
  have "deliveries ?s' = deliveries s" by (simp add: fold_reap_close reap_update_def)
  with result len ts jobs' row show ?thesis
    by (intro exI [of _ expired] exI [of _ "map (job_transition \<circ> snd) (reaped_pairs env expired s)"]
        exI [of _ ?s'] conjI ballI) blast+
qed

theorem reap_expired_leases_correct_witness:
  "\<exists>ts s'. reap_expired_leases (later 200) 10 ''u'' demo_db_claimed = Inr (ts, s') \<and>
     deliveries s' = deliveries demo_db_claimed"
  using reap_expired_leases_correct [OF demo_db_claimed_inv demo_fresh_later(2) [of 200], of 10 "''u''"] by auto

section \<open>Requeueing\<close>

text \<open>
  Requeueing a dead letter puts the job back, due now, with its attempt counter kept and exactly
  \<open>extra\<close> more attempts before it is exhausted, and removes the dead letter; for a job that is not
  dead-lettered it returns nothing and writes nothing.
\<close>

theorem requeue_dead_letter_correct:
  assumes inv: "db_inv {} s" and extra: "1 \<le> extra"
  shows "((\<forall>j\<in>set (jobs s). j_id j = i \<longrightarrow> j_status j \<noteq> DEAD_LETTERED) \<longrightarrow>
           requeue_dead_letter env i extra s = Inr (None, s)) \<and>
         (\<forall>j\<in>set (jobs s). j_id j = i \<and> j_status j = DEAD_LETTERED \<longrightarrow>
           (\<exists>s' r. requeue_dead_letter env i extra s = Inr (Some (job_transition r), s') \<and>
             get_job s' i = Some r \<and> j_status r = PENDING \<and> j_run_at r = now env \<and>
             j_attempts r = j_attempts j \<and> j_max_attempts r - j_attempts r = extra \<and> \<not> is_retrying r \<and>
             j_version r = j_version j + 1 \<and> length (dead_letters_of s i) = 1 \<and> dead_letters_of s' i = [] \<and>
             job_attempts s' = job_attempts s))"
proof (intro conjI ballI impI)
  assume "\<forall>j\<in>set (jobs s). j_id j = i \<longrightarrow> j_status j \<noteq> DEAD_LETTERED"
  then show "requeue_dead_letter env i extra s = Inr (None, s)"
    by (intro requeue_dead_letter_lost) auto
next
  fix j assume "j \<in> set (jobs s)" "j_id j = i \<and> j_status j = DEAD_LETTERED"
  then have j: "j \<in> set (jobs s)" "j_id j = i" "j_status j = DEAD_LETTERED" by auto
  let ?r = "requeued_row env extra j"
  note eq = requeue_dead_letter_found [OF inv j extra, of env]
  let ?s' = "s\<lparr>jobs := update_where (\<lambda>j. j_id j = i \<and> j_status j = DEAD_LETTERED) (requeued_row env extra) (jobs s),
              dead_letters := delete_where (\<lambda>d. l_job_id d = i) (dead_letters s)\<rparr>"
  have "?r \<in> set (jobs ?s')" using j by force
  then have "filter (\<lambda>x. j_id x = j_id ?r) (jobs ?s') = [?r]"
    using db_invD(1) [OF eq(2)] unfolding job_ids_def by (rule filter_key_unique [rotated])
  then have "get_job ?s' i = Some ?r" by (simp add: get_job_def j(2))
  moreover have "length (dead_letters_of s i) = 1"
    using db_invD(6) [OF inv j(1)] j(2,3) by (simp add: books_ok_def Let_def)
  moreover have "dead_letters_of ?s' i = []" by (simp add: dead_letters_of_def delete_where_def)
  ultimately show "\<exists>s' r. requeue_dead_letter env i extra s = Inr (Some (job_transition r), s') \<and>
      get_job s' i = Some r \<and> j_status r = PENDING \<and> j_run_at r = now env \<and>
      j_attempts r = j_attempts j \<and> j_max_attempts r - j_attempts r = extra \<and> \<not> is_retrying r \<and>
      j_version r = j_version j + 1 \<and> length (dead_letters_of s i) = 1 \<and> dead_letters_of s' i = [] \<and>
      job_attempts s' = job_attempts s"
    using eq(1) by (intro exI [of _ ?s'] exI [of _ ?r]) (simp add: requeued_row_def is_retrying_def)
qed

theorem requeue_dead_letter_correct_witness:
  "\<exists>s' r. requeue_dead_letter (later 300) ''j1'' 5 demo_db_dead = Inr (Some (job_transition r), s') \<and>
     j_status r = PENDING \<and> dead_letters_of s' ''j1'' = []"
proof -
  have "demo_dead_job \<in> set (jobs demo_db_dead)" by (simp add: demo_db_dead_jobs)
  with requeue_dead_letter_correct [OF demo_db_dead_inv, of 5 "''j1''" "later 300"]
  show ?thesis by fastforce
qed

section \<open>Idempotent creation\<close>

text \<open>
  An idempotency key names one job for good. After a submission under a key has returned a job,
  every later submission under the key, whatever its body, returns that same row, creates nothing
  and changes nothing; the key has exactly one row.
\<close>

theorem create_job_idempotent:
  assumes inv: "db_inv {} s" and ids: "gen_job_id env \<notin> set (job_ids s)"
    and n: "1 \<le> n_max_attempts n" "n_idempotency_key n = Some k"
    and n': "1 \<le> n_max_attempts n'" "n_idempotency_key n' = Some k"
    and created: "create_job env n s = Inr ((j, b), s1)"
  shows "create_job env' n' s1 = Inr ((j, False), s1) \<and>
         filter (\<lambda>x. j_idempotency_key x = Some k) (jobs s1) = [j] \<and>
         (b \<longleftrightarrow> Some k \<notin> set (map j_idempotency_key (jobs s))) \<and> (\<not> b \<longrightarrow> s1 = s)"
proof -
  have inv1: "db_inv {} s1" using create_job_keeps [OF inv n(1) ids] created by auto
  have shape: "j \<in> set (jobs s1) \<and> j_idempotency_key j = Some k \<and>
      (b \<longleftrightarrow> Some k \<notin> set (map j_idempotency_key (jobs s))) \<and> (\<not> b \<longrightarrow> s1 = s)"
    using n(1) ids
  proof (cases rule: create_job_cases)
    case created
    with assms(7) n(2) show ?thesis by auto
  next
    case (replayed j')
    with assms(7) n(2) show ?thesis by force
  qed
  have one: "filter (\<lambda>x. j_idempotency_key x = Some k) (jobs s1) = [j]"
  proof -
    have "filter (\<lambda>x. j_idempotency_key x = Some k) js = [j]"
      if "distinct (List.map_filter j_idempotency_key js)" "j \<in> set js" for js
      using that
    proof (induction js)
      case Nil
      then show ?case by simp
    next
      case (Cons x js)
      have keys: "k' \<in> set (List.map_filter j_idempotency_key js) \<longleftrightarrow> (\<exists>y\<in>set js. j_idempotency_key y = Some k')" for k'
        by (force simp: List.map_filter_def)
      show ?case
      proof (cases "x = j")
        case True
        with Cons.prems(1) shape have "k \<notin> set (List.map_filter j_idempotency_key js)"
          by (simp add: List.map_filter_simps)
        then have "filter (\<lambda>x. j_idempotency_key x = Some k) js = []" by (auto simp: keys filter_empty_conv)
        with True shape show ?thesis by simp
      next
        case False
        with Cons.prems have j: "j \<in> set js" by simp
        have "j_idempotency_key x \<noteq> Some k"
        proof
          assume x: "j_idempotency_key x = Some k"
          with Cons.prems(1) have "k \<notin> set (List.map_filter j_idempotency_key js)"
            by (simp add: List.map_filter_simps)
          with j shape show False by (auto simp: keys)
        qed
        moreover have "distinct (List.map_filter j_idempotency_key js)"
          using Cons.prems(1) by (simp add: List.map_filter_simps split: option.splits)
        ultimately show ?thesis using Cons.IH j by simp
      qed
    qed
    with db_invD(2) [OF inv1] shape show ?thesis by (simp add: idempotency_keys_def)
  qed
  have "Some k \<in> set (map j_idempotency_key (jobs s1))" using shape by force
  then have "create_job env' n' s1 = Inr ((j, False), s1)"
    using n' one by (simp add: create_job_def insert_job_def get_job_by_idempotency_key_def)
  with one shape show ?thesis by simp
qed

theorem create_job_idempotent_witness:
  "create_job demo_env demo_new empty_db = Inr ((demo_job, True), demo_db) \<and>
   create_job (later 500) (demo_new\<lparr>n_recipient := ''bob''\<rparr>) demo_db = Inr ((demo_job, False), demo_db)"
proof -
  have created: "create_job demo_env demo_new empty_db = Inr ((demo_job, True), demo_db)"
    by (simp add: create_job_def insert_job_def demo_job_def demo_db_def)
       (simp add: demo_new_def empty_db_def job_ids_def)
  have "create_job (later 500) (demo_new\<lparr>n_recipient := ''bob''\<rparr>) demo_db = Inr ((demo_job, False), demo_db)"
    using create_job_idempotent [OF db_inv_empty _ _ _ _ _ created,
        of "''k1''" "demo_new\<lparr>n_recipient := ''bob''\<rparr>" "later 500"]
    by (simp add: empty_db_def job_ids_def demo_new_def)
  with created show ?thesis by simp
qed

end
