(* ===== verification/Outbox.thy ===== *)
theory Outbox
  imports Jobs_Properties
begin

text \<open>
  The transactional outbox and its dispatcher: \<open>repositories/webhooks.py\<close> and
  \<open>worker/webhook_dispatcher.py\<close>. An event is claimed by pushing its due time past a lease, posted
  without holding a transaction, and then marked delivered, rescheduled or given up. The HTTP client
  is the environment: the model takes the outcome of each POST.
\<close>

section \<open>Statements\<close>

record outbox_event =
  e_id :: uuid
  e_job_id :: uuid
  e_event :: string
  e_payload :: dict
  e_target_url :: string
  e_attempts :: int

definition outbox_event_of :: "outbox_row \<Rightarrow> outbox_event" where
  "outbox_event_of r =
     \<lparr> e_id = o_id r, e_job_id = o_job_id r, e_event = event_value (o_event r), e_payload = o_payload r,
       e_target_url = o_target_url r, e_attempts = o_attempts r \<rparr>"

definition outbox_due :: "txenv \<Rightarrow> outbox_row \<Rightarrow> bool" where
  "outbox_due env r \<longleftrightarrow> o_status r = OutboxPending \<and> o_next_attempt_at r \<le> now env"

definition lease_row :: "txenv \<Rightarrow> real \<Rightarrow> outbox_row \<Rightarrow> outbox_row" where
  "lease_row env lease r = r\<lparr>o_next_attempt_at := now env + lease, o_attempts := o_attempts r + 1\<rparr>"

definition select_due_events :: "txenv \<Rightarrow> int \<Rightarrow> db \<Rightarrow> outbox_row list result" where
  "select_due_events env n s =
     sql_select n o_next_attempt_at (rank env \<circ> o_id) (\<lambda>r. outbox_due env r \<and> \<not> locked env (o_id r))
       (webhook_outbox s)"

definition claim_outbox_events ::
  "txenv \<Rightarrow> int \<Rightarrow> real \<Rightarrow> db \<Rightarrow> (outbox_event list \<times> db) result"
where
  "claim_outbox_events env n lease s =
     bind_result (select_due_events env n s) (\<lambda>due.
       let hit = (\<lambda>r. o_id r \<in> set (map o_id due)) in
       Inr (map outbox_event_of
              (sort_key (ret_rank env \<circ> o_id) (returning hit (lease_row env lease) (webhook_outbox s))),
            s\<lparr>webhook_outbox := update_where hit (lease_row env lease) (webhook_outbox s)\<rparr>))"

definition delivered_row :: "txenv \<Rightarrow> outbox_row \<Rightarrow> outbox_row" where
  "delivered_row env r =
     r\<lparr>o_status := OutboxDelivered, o_delivered_at := Some (now env), o_last_error := None\<rparr>"

definition mark_delivered :: "txenv \<Rightarrow> uuid \<Rightarrow> db \<Rightarrow> db" where
  "mark_delivered env i s =
     s\<lparr>webhook_outbox := update_where (\<lambda>r. o_id r = i) (delivered_row env) (webhook_outbox s)\<rparr>"

text \<open>\<open>retry_delay=None\<close> means giving up; the statement then adds \<open>retry_delay or 0.0\<close>.\<close>

definition attempt_failed_row :: "txenv \<Rightarrow> string \<Rightarrow> real option \<Rightarrow> outbox_row \<Rightarrow> outbox_row" where
  "attempt_failed_row env err delay r =
     r\<lparr>o_status := (if delay = None then OutboxFailed else OutboxPending),
       o_next_attempt_at := now env + coalesce delay 0, o_last_error := Some err\<rparr>"

definition mark_attempt_failed :: "txenv \<Rightarrow> uuid \<Rightarrow> string \<Rightarrow> real option \<Rightarrow> db \<Rightarrow> db" where
  "mark_attempt_failed env i err delay s =
     s\<lparr>webhook_outbox := update_where (\<lambda>r. o_id r = i) (attempt_failed_row env err delay) (webhook_outbox s)\<rparr>"

section \<open>The mock receiver\<close>

text \<open>
  \<open>UUID(text)\<close> of the standard library is a parameter: \<open>None\<close> stands for its \<open>ValueError\<close>. A value
  that is not a text raises in the same place.
\<close>

definition json_uuid :: "(string \<Rightarrow> uuid option) \<Rightarrow> dict \<Rightarrow> string \<Rightarrow> uuid result" where
  "json_uuid parse_uuid payload key =
     (case map_of payload key of
        None \<Rightarrow> Inl (OtherError ''KeyError'' key)
      | Some (JStr t) \<Rightarrow>
          (case parse_uuid t of
             None \<Rightarrow> Inl (PyValueError ''badly formed hexadecimal UUID string'')
           | Some u \<Rightarrow> Inr u)
      | Some JNull \<Rightarrow> Inl (OtherError ''TypeError'' key)
      | Some _ \<Rightarrow> Inl (OtherError ''AttributeError'' key))"

definition json_text :: "dict \<Rightarrow> string \<Rightarrow> string result" where
  "json_text payload key =
     (case map_of payload key of
        None \<Rightarrow> Inl (OtherError ''KeyError'' key)
      | Some (JStr t) \<Rightarrow> Inr t
      | Some JNull \<Rightarrow> Inl (IntegrityError ''mock_webhook_receipts_event_not_null'')
      | Some _ \<Rightarrow> Inl (DataError ''expected str''))"

definition record_receipt ::
  "(string \<Rightarrow> uuid option) \<Rightarrow> txenv \<Rightarrow> dict \<Rightarrow> db \<Rightarrow> (bool \<times> db) result"
where
  "record_receipt parse_uuid env payload s =
     bind_result (json_uuid parse_uuid payload ''event_id'') (\<lambda>event_id.
     bind_result (json_uuid parse_uuid payload ''job_id'') (\<lambda>job_id.
     bind_result (json_text payload ''event'') (\<lambda>event.
       if event_id \<in> set (map r_event_id (mock_webhook_receipts s)) then Inr (False, s)
       else Inr (True, s\<lparr>mock_webhook_receipts := mock_webhook_receipts s @
              [\<lparr> r_id = gen_serial env, r_event_id = event_id, r_job_id = job_id, r_event = event,
                 r_payload = payload, r_received_at = now env \<rparr>]\<rparr>))))"

definition list_receipts ::
  "uuid option \<Rightarrow> int \<Rightarrow> db \<Rightarrow> (uuid \<times> uuid \<times> string \<times> dict \<times> time) list result"
where
  "list_receipts job_id n s =
     sql_limit n
       (map (\<lambda>r. (r_event_id r, r_job_id r, r_event r, r_payload r, r_received_at r))
         (sort_key (\<lambda>r. - r_id r)
           (filter (\<lambda>r. case job_id of None \<Rightarrow> True | Some i \<Rightarrow> r_job_id r = i) (mock_webhook_receipts s))))"

section \<open>The dispatcher\<close>

text \<open>
  What a POST ends in: a response, an \<open>httpx.HTTPError\<close>, which the dispatcher catches, or another
  exception, which it does not (a URL that \<open>httpx\<close> cannot parse raises one).
\<close>

datatype http_outcome =
    HttpResponse bool int        \<comment> \<open>\<open>is_success\<close>, \<open>status_code\<close>\<close>
  | HttpError string string      \<comment> \<open>class name, message\<close>
  | HttpOther exn

definition post_error :: "http_outcome \<Rightarrow> string option result" where
  "post_error out =
     (case out of
        HttpResponse ok code \<Rightarrow> Inr (if ok then None else Some (''HTTP '' @ show_int code))
      | HttpError cls msg \<Rightarrow> Inr (Some (cls @ '': '' @ msg))
      | HttpOther e \<Rightarrow> Inl e)"

definition webhook_backoff_base :: real where
  "webhook_backoff_base = 1"

definition webhook_backoff_cap :: real where
  "webhook_backoff_cap = 300"

text \<open>The environment of one dispatch: the POST, then the transaction and its backoff sample.\<close>

record dispatch_env =
  de_http :: http_outcome
  de_env :: txenv
  de_fate :: tx_fate
  de_sample :: real

definition retry_delay_of :: "settings \<Rightarrow> outbox_event \<Rightarrow> real \<Rightarrow> real option result" where
  "retry_delay_of c ev u =
     (if webhook_max_attempts c \<le> e_attempts ev then Inr None
      else bind_result (backoff_delay (e_attempts ev) webhook_backoff_base webhook_backoff_cap u)
             (\<lambda>d. Inr (Some d)))"

definition dispatch :: "settings \<Rightarrow> dispatch_env \<Rightarrow> outbox_event \<Rightarrow> db \<Rightarrow> unit result \<times> db" where
  "dispatch c de ev s =
     (case post_error (de_http de) of
        Inl e \<Rightarrow> (Inl e, s)
      | Inr error \<Rightarrow>
          begin_tx (de_fate de) (\<lambda>s.
            case error of
              None \<Rightarrow> Inr ((), mark_delivered (de_env de) (e_id ev) s)
            | Some err \<Rightarrow>
                bind_result (retry_delay_of c ev (de_sample de)) (\<lambda>delay.
                  Inr ((), mark_attempt_failed (de_env de) (e_id ev) err delay s))) s)"

text \<open>
  \<open>asyncio.gather\<close> runs the dispatches concurrently; each has one transaction, so they take effect
  one by one in the order in which they finish. The first exception becomes that of the pass, and
  the other dispatches still run to their end.
\<close>

fun dispatch_all ::
  "settings \<Rightarrow> (outbox_event \<Rightarrow> dispatch_env) \<Rightarrow> outbox_event list \<Rightarrow> exn option \<Rightarrow> db \<Rightarrow> exn option \<times> db"
where
  "dispatch_all c plan [] err s = (err, s)"
| "dispatch_all c plan (ev # evs) err s =
     (case dispatch c (plan ev) ev s of
        (Inl e, s') \<Rightarrow> dispatch_all c plan evs (if err = None then Some e else err) s'
      | (Inr _, s') \<Rightarrow> dispatch_all c plan evs err s')"

definition dispatcher_run_once ::
  "settings \<Rightarrow> txenv \<Rightarrow> tx_fate \<Rightarrow> (outbox_event \<Rightarrow> dispatch_env) \<Rightarrow>
   (outbox_event list \<Rightarrow> outbox_event list) \<Rightarrow> db \<Rightarrow> nat result \<times> db"
where
  "dispatcher_run_once c env fate plan finish_order s =
     (case begin_tx fate (claim_outbox_events env (webhook_batch_size c) (webhook_timeout_seconds c * 2)) s of
        (Inl e, s') \<Rightarrow> (Inl e, s')
      | (Inr events, s') \<Rightarrow>
          (case dispatch_all c plan (finish_order events) None s' of
             (Some e, s'') \<Rightarrow> (Inl e, s'')
           | (None, s'') \<Rightarrow> (Inr (length events), s'')))"

section \<open>The jobs invariant is untouched\<close>

text \<open>An update of outbox rows that keeps their identity and event.\<close>

lemma db_inv_outbox_update:
  assumes inv: "db_inv R s"
    and f: "\<And>r. o_id (f r) = o_id r" "\<And>r. o_job_id (f r) = o_job_id r" "\<And>r. o_event (f r) = o_event r"
  shows "db_inv R (s\<lparr>webhook_outbox := update_where p f (webhook_outbox s)\<rparr>)"
proof -
  let ?t = "s\<lparr>webhook_outbox := update_where p f (webhook_outbox s)\<rparr>"
  have "map o_event (filter (\<lambda>e. o_job_id e = i) (update_where p f es)) =
        map o_event (filter (\<lambda>e. o_job_id e = i) es)" for i es
    by (induction es) (simp_all add: update_where_def f)
  then have "books_ok R ?t j = books_ok R s j" for j
    by (intro books_ok_cong) (simp_all add: same_books_def rows_of_defs)
  then show ?thesis
    using inv f
    by (simp add: db_inv_def job_ids_def idempotency_keys_def no_orphans_def references_job_def
        map_update_where_same) auto
qed

lemma outbox_row_keeps [simp]:
  "o_id (lease_row env l r) = o_id r" "o_job_id (lease_row env l r) = o_job_id r"
  "o_event (lease_row env l r) = o_event r" "o_status (lease_row env l r) = o_status r"
  "o_id (delivered_row env r) = o_id r" "o_job_id (delivered_row env r) = o_job_id r"
  "o_event (delivered_row env r) = o_event r"
  "o_id (attempt_failed_row env e d r) = o_id r" "o_job_id (attempt_failed_row env e d r) = o_job_id r"
  "o_event (attempt_failed_row env e d r) = o_event r"
  by (simp_all add: lease_row_def delivered_row_def attempt_failed_row_def)

lemma mark_delivered_keeps: "db_inv {} s \<Longrightarrow> db_inv {} (mark_delivered env i s)"
  unfolding mark_delivered_def by (rule db_inv_outbox_update) simp_all

lemma mark_attempt_failed_keeps: "db_inv {} s \<Longrightarrow> db_inv {} (mark_attempt_failed env i err d s)"
  unfolding mark_attempt_failed_def by (rule db_inv_outbox_update) simp_all

lemma claim_outbox_events_keeps:
  "db_inv {} s \<Longrightarrow> claim_outbox_events env n l s = Inr (evs, s') \<Longrightarrow> db_inv {} s'"
  by (auto simp: claim_outbox_events_def bind_result_Inr_iff Let_def intro!: db_inv_outbox_update)

lemma record_receipt_keeps:
  "db_inv {} s \<Longrightarrow> record_receipt pu env p s = Inr (b, s') \<Longrightarrow> db_inv {} s'"
  by (auto simp: record_receipt_def bind_result_Inr_iff split: if_splits)

lemma dispatch_keeps: "db_inv {} s \<Longrightarrow> db_inv {} (snd (dispatch c de ev s))"
proof -
  assume inv: "db_inv {} s"
  show ?thesis
  proof (cases "post_error (de_http de)")
    case (Inl e)
    with inv show ?thesis by (simp add: dispatch_def)
  next
    case (Inr error)
    show ?thesis
      unfolding dispatch_def Inr sum.case
      by (rule begin_tx_keeps [where P = "db_inv {}", OF inv])
        (auto simp: bind_result_Inr_iff split: option.splits
          intro: mark_delivered_keeps mark_attempt_failed_keeps inv)
  qed
qed

lemma dispatch_all_keeps: "db_inv {} s \<Longrightarrow> db_inv {} (snd (dispatch_all c plan evs err s))"
proof (induction evs arbitrary: err s)
  case Nil
  then show ?case by simp
next
  case (Cons ev evs)
  have "db_inv {} (snd (dispatch c (plan ev) ev s))" using Cons.prems by (rule dispatch_keeps)
  with Cons.IH show ?case by (auto split: prod.splits sum.splits)
qed

end
