(* ===== verification/Outbox_Properties.thy ===== *)
theory Outbox_Properties
  imports Outbox
begin

text \<open>
  What the outbox guarantees: a claimed event is leased, a dispatch follows the outcome of its POST,
  an event is only marked delivered after a success, and the receiver counts an event once.
\<close>

section \<open>The lease on an event\<close>

lemma claim_outbox_eventsE:
  assumes "claim_outbox_events env n l s = Inr (evs, s')"
  obtains due where "select_due_events env n s = Inr due"
    "set evs = outbox_event_of ` lease_row env l ` {r \<in> set (webhook_outbox s). o_id r \<in> o_id ` set due}"
    "s' = s\<lparr>webhook_outbox := update_where (\<lambda>r. o_id r \<in> o_id ` set due) (lease_row env l) (webhook_outbox s)\<rparr>"
proof -
  from assms obtain due where due: "select_due_events env n s = Inr due"
    and evs: "evs = map outbox_event_of (sort_key (ret_rank env \<circ> o_id)
       (returning (\<lambda>r. o_id r \<in> set (map o_id due)) (lease_row env l) (webhook_outbox s)))"
    and s': "s' = s\<lparr>webhook_outbox := update_where (\<lambda>r. o_id r \<in> set (map o_id due)) (lease_row env l) (webhook_outbox s)\<rparr>"
    by (auto simp: claim_outbox_events_def bind_result_Inr_iff Let_def)
  show thesis
    by (rule that [OF due]) (simp_all add: evs s' returning_def)
qed

lemma outbox_event_id [simp]: "e_id (outbox_event_of r) = o_id r"
  by (simp add: outbox_event_of_def)

lemma select_due_eventsD:
  "select_due_events env n s = Inr due \<Longrightarrow> r \<in> set due \<Longrightarrow>
     r \<in> set (webhook_outbox s) \<and> outbox_due env r \<and> \<not> locked env (o_id r)"
  unfolding select_due_events_def by (drule (1) sql_selectD) simp

text \<open>
  While the lease of a claimed event runs, no other dispatcher gets it: a claim before
  \<open>now + lease\<close> returns none of the events of the claim before it. Each claimed event was pending and
  due and counts one more attempt.
\<close>

theorem outbox_lease_excludes:
  assumes first: "claim_outbox_events env n l s = Inr (evs, s')"
    and second: "claim_outbox_events env' n' l' s' = Inr (evs', s'')"
    and lease: "now env' < now env + l"
  shows "e_id ` set evs \<inter> e_id ` set evs' = {} \<and>
     (\<forall>ev\<in>set evs. \<exists>r\<in>set (webhook_outbox s). o_id r = e_id ev \<and> e_attempts ev = o_attempts r + 1)"
proof -
  obtain due where due: "select_due_events env n s = Inr due"
    and evs: "set evs = outbox_event_of ` lease_row env l ` {r \<in> set (webhook_outbox s). o_id r \<in> o_id ` set due}"
    and s': "s' = s\<lparr>webhook_outbox := update_where (\<lambda>r. o_id r \<in> o_id ` set due) (lease_row env l) (webhook_outbox s)\<rparr>"
    by (rule claim_outbox_eventsE [OF first])
  obtain due' where due': "select_due_events env' n' s' = Inr due'"
    and evs': "set evs' = outbox_event_of ` lease_row env' l' ` {r \<in> set (webhook_outbox s'). o_id r \<in> o_id ` set due'}"
    by (rule claim_outbox_eventsE [OF second])
  have fresh: "o_id r \<notin> o_id ` set due" if "r \<in> set due'" for r
    using select_due_eventsD [OF due' that] lease
    by (auto simp: s' outbox_due_def lease_row_def split: if_splits)
  have "o_id ` set due \<inter> o_id ` set due' = {}"
  proof (rule equals0I)
    fix x assume "x \<in> o_id ` set due \<inter> o_id ` set due'"
    then have x: "x \<in> o_id ` set due" "x \<in> o_id ` set due'" by simp_all
    from x(2) obtain r where "x = o_id r" "r \<in> set due'" by (rule imageE)
    with fresh x(1) show False by simp
  qed
  moreover have "e_id ` set evs \<subseteq> o_id ` set due" "e_id ` set evs' \<subseteq> o_id ` set due'"
    by (auto simp: evs evs')
  moreover have "\<exists>r\<in>set (webhook_outbox s). o_id r = e_id ev \<and> e_attempts ev = o_attempts r + 1"
    if "ev \<in> set evs" for ev
    using that by (force simp: evs outbox_event_of_def lease_row_def)
  ultimately show ?thesis by blast
qed

text \<open>The database of the witnesses: the job was sent at time 101, which wrote one event.\<close>

definition demo_event_row :: outbox_row where
  "demo_event_row = event_row (later 101) (sent_row (later 101) demo_claimed) EvSent ''u''
     (sent_data (sent_row (later 101) demo_claimed))"

lemma demo_db_sent_outbox: "webhook_outbox demo_db_sent = [demo_event_row]"
proof -
  have "demo_claimed \<in> set (jobs demo_db_claimed)" by simp
  note sent = mark_sent_owned(1) [OF demo_db_claimed_inv demo_fresh_later(2) this demo_owned, of 101 "''w''" "Some ''m1''" "''u''"]
  have "webhook_outbox demo_db_claimed = []" "str_or (j_callback_url (sent_row (later 101) demo_claimed)) ''u'' = ''u''"
    by (simp_all add: sent_row_def demo_defs str_or_def)
  with sent show ?thesis by (simp add: demo_db_sent_def sent_closing_def demo_event_row_def)
qed

lemma demo_event_row_simps [simp]:
  "o_id demo_event_row = ''ej1''" "o_status demo_event_row = OutboxPending"
  "o_next_attempt_at demo_event_row = 101" "o_attempts demo_event_row = 0"
  by (simp_all add: demo_event_row_def event_row_def demo_defs)

definition demo_event :: outbox_event where
  "demo_event = outbox_event_of (lease_row (later 102) 10 demo_event_row)"

definition demo_db_leased :: db where
  "demo_db_leased = demo_db_sent\<lparr>webhook_outbox := [lease_row (later 102) 10 demo_event_row]\<rparr>"

lemma demo_event_claim:
  "claim_outbox_events (later 102) 20 10 demo_db_sent = Inr ([demo_event], demo_db_leased)"
  by (simp add: claim_outbox_events_def select_due_events_def sql_select_def sql_limit_def outbox_due_def
      demo_db_sent_outbox returning_def update_where_def demo_event_def demo_db_leased_def Let_def)

lemma demo_db_leased_outbox [simp]:
  "webhook_outbox demo_db_leased = [lease_row (later 102) 10 demo_event_row]"
  by (simp add: demo_db_leased_def)

lemma demo_event_simps [simp]: "e_id demo_event = ''ej1''" "e_attempts demo_event = 1"
  by (simp_all add: demo_event_def outbox_event_of_def lease_row_def)

theorem outbox_lease_excludes_witness:
  "claim_outbox_events (later 105) 20 10 demo_db_leased = Inr ([], demo_db_leased) \<and>
   e_id ` set [demo_event] \<inter> e_id ` set ([] :: outbox_event list) = {}"
proof -
  have again: "claim_outbox_events (later 105) 20 10 demo_db_leased = Inr ([], demo_db_leased)"
    by (simp add: claim_outbox_events_def select_due_events_def sql_select_def sql_limit_def outbox_due_def
        returning_def update_where_def lease_row_def Let_def demo_db_leased_def)
  with outbox_lease_excludes [OF demo_event_claim again] show ?thesis by simp
qed

section \<open>One dispatch\<close>


definition demo_dispatch :: "http_outcome \<Rightarrow> dispatch_env" where
  "demo_dispatch out = \<lparr>de_http = out, de_env = later 103, de_fate = Commits, de_sample = 0\<rparr>"


section \<open>Delivered means acknowledged\<close>

text \<open>An event that is delivered after a dispatch was so before, or its POST succeeded.\<close>

definition delivered_from :: "(outbox_event \<Rightarrow> dispatch_env) \<Rightarrow> outbox_event set \<Rightarrow> db \<Rightarrow> db \<Rightarrow> bool" where
  "delivered_from plan E s t \<longleftrightarrow>
     (\<forall>r\<in>set (webhook_outbox t). o_status r = OutboxDelivered \<longrightarrow>
        (\<exists>q\<in>set (webhook_outbox s). o_id q = o_id r \<and> o_status q = OutboxDelivered) \<or>
        (\<exists>ev\<in>E. \<exists>code. e_id ev = o_id r \<and> de_http (plan ev) = HttpResponse True code))"

lemma delivered_fromD:
  "delivered_from plan E s t \<Longrightarrow> r \<in> set (webhook_outbox t) \<Longrightarrow> o_status r = OutboxDelivered \<Longrightarrow>
     (\<And>q. q \<in> set (webhook_outbox s) \<Longrightarrow> o_id q = o_id r \<Longrightarrow> o_status q \<noteq> OutboxDelivered) \<Longrightarrow>
     \<exists>ev\<in>E. \<exists>code. e_id ev = o_id r \<and> de_http (plan ev) = HttpResponse True code"
  by (simp add: delivered_from_def) blast

lemma delivered_from_refl: "delivered_from plan E s s"
  by (auto simp: delivered_from_def)

lemma delivered_from_trans:
  assumes st: "delivered_from plan E s t" and tu: "delivered_from plan F t u"
  shows "delivered_from plan (E \<union> F) s u"
  unfolding delivered_from_def
proof (intro ballI impI)
  fix r assume r: "r \<in> set (webhook_outbox u)" "o_status r = OutboxDelivered"
  with tu consider (old) q where "q \<in> set (webhook_outbox t)" "o_id q = o_id r" "o_status q = OutboxDelivered"
    | (new) ev code where "ev \<in> F" "e_id ev = o_id r" "de_http (plan ev) = HttpResponse True code"
    unfolding delivered_from_def by blast
  then show "(\<exists>q\<in>set (webhook_outbox s). o_id q = o_id r \<and> o_status q = OutboxDelivered) \<or>
      (\<exists>ev\<in>E \<union> F. \<exists>code. e_id ev = o_id r \<and> de_http (plan ev) = HttpResponse True code)"
  proof cases
    case old
    with st have "(\<exists>p\<in>set (webhook_outbox s). o_id p = o_id q \<and> o_status p = OutboxDelivered) \<or>
      (\<exists>ev\<in>E. \<exists>code. e_id ev = o_id q \<and> de_http (plan ev) = HttpResponse True code)"
      unfolding delivered_from_def by blast
    with old(2) show ?thesis by auto
  next
    case new
    then show ?thesis by blast
  qed
qed

lemma delivered_from_mono: "delivered_from plan E s t \<Longrightarrow> E \<subseteq> F \<Longrightarrow> delivered_from plan F s t"
  unfolding delivered_from_def by blast

lemma delivered_from_dispatch: "delivered_from plan {ev} s (snd (dispatch c (plan ev) ev s))"
proof (cases "post_error (de_http (plan ev))")
  case (Inl e)
  then show ?thesis by (simp add: dispatch_def delivered_from_refl)
next
  case (Inr error)
  have "delivered_from plan {ev} s (mark_delivered (de_env (plan ev)) (e_id ev) s)" if "error = None"
  proof -
    from that Inr obtain code where "de_http (plan ev) = HttpResponse True code"
      by (auto simp: post_error_def split: http_outcome.splits if_splits)
    then show ?thesis by (auto simp: delivered_from_def mark_delivered_def)
  qed
  moreover have "delivered_from plan {ev} s (mark_attempt_failed (de_env (plan ev)) (e_id ev) err d s)" for err d
    by (auto simp: delivered_from_def mark_attempt_failed_def attempt_failed_row_def split: if_splits)
  ultimately show ?thesis
    unfolding dispatch_def Inr sum.case
    by (intro begin_tx_keeps [where P = "delivered_from plan {ev} s"])
      (auto simp: delivered_from_refl bind_result_Inr_iff split: option.splits)
qed

lemma delivered_from_all: "delivered_from plan (set evs) s (snd (dispatch_all c plan evs err s))"
proof (induction evs arbitrary: s err)
  case Nil
  then show ?case by (simp add: delivered_from_refl)
next
  case (Cons ev evs)
  obtain r t where d: "dispatch c (plan ev) ev s = (r, t)" by (cases "dispatch c (plan ev) ev s")
  have "delivered_from plan {ev} s t" using delivered_from_dispatch [of plan ev s c] by (simp add: d)
  moreover have "\<exists>err'. dispatch_all c plan (ev # evs) err s = dispatch_all c plan evs err' t"
    by (cases r) (auto simp: d)
  ultimately show ?case
    using delivered_from_trans [OF _ Cons.IH] by (metis insert_is_Un list.simps(15))
qed

lemma delivered_from_claim:
  assumes "claim_outbox_events env n l s = Inr (evs, s')"
  shows "delivered_from plan {} s s'"
proof -
  obtain due :: "outbox_row list" where s': "s' = s\<lparr>webhook_outbox := update_where (\<lambda>r. o_id r \<in> o_id ` set due) (lease_row env l) (webhook_outbox s)\<rparr>"
    using assms by (rule claim_outbox_eventsE)
  have "\<exists>q\<in>set (webhook_outbox s). o_id q = o_id r \<and> o_status q = o_status r"
    if "r \<in> set (webhook_outbox s')" for r
  proof -
    from that obtain q where "q \<in> set (webhook_outbox s)"
      "r = (if o_id q \<in> o_id ` set due then lease_row env l q else q)" by (auto simp: s')
    then show ?thesis by (intro bexI [of _ q]) simp_all
  qed
  then show ?thesis by (simp add: delivered_from_def) metis
qed

text \<open>
  C35: an event becomes delivered in a pass of the dispatcher only if the receiver answered that
  event's POST with a success in this pass; a crash, a lost connection or any other answer leaves it
  undelivered, so it is posted again (at least once).
\<close>

theorem delivered_only_after_success:
  assumes order: "\<And>evs. set (finish_order evs) = set evs"
    and after: "r \<in> set (webhook_outbox (snd (dispatcher_run_once c env fate plan finish_order s)))"
      "o_status r = OutboxDelivered"
    and before: "\<And>q. q \<in> set (webhook_outbox s) \<Longrightarrow> o_id q = o_id r \<Longrightarrow> o_status q \<noteq> OutboxDelivered"
  shows "\<exists>ev code. e_id ev = o_id r \<and> de_http (plan ev) = HttpResponse True code \<and>
     (\<exists>evs s1. claim_outbox_events env (webhook_batch_size c) (webhook_timeout_seconds c * 2) s = Inr (evs, s1) \<and>
        ev \<in> set evs)"
proof -
  let ?claim = "claim_outbox_events env (webhook_batch_size c) (webhook_timeout_seconds c * 2)"
  obtain evs s1 where claim: "?claim s = Inr (evs, s1)"
    and run: "delivered_from plan (set evs) s (snd (dispatcher_run_once c env fate plan finish_order s))"
  proof (cases rule: begin_tx_cases [of fate ?claim s])
    case kept
    then obtain e where "begin_tx fate ?claim s = (Inl e, s)" by (metis prod.collapse)
    with after before show thesis by (simp add: dispatcher_run_once_def)
  next
    case (committed evs s1)
    let ?d = "dispatch_all c plan (finish_order evs) None s1"
    from committed(2,3) consider "begin_tx fate ?claim s = (Inr evs, s1)"
      | "begin_tx fate ?claim s = (Inl OperationalError, s1)" by (metis prod.collapse)
    then have cases: "snd (dispatcher_run_once c env fate plan finish_order s) = s1 \<or>
        snd (dispatcher_run_once c env fate plan finish_order s) = snd ?d"
      by cases (auto simp: dispatcher_run_once_def split: prod.splits option.splits)
    have s1: "delivered_from plan {} s s1" by (rule delivered_from_claim [OF committed(1)])
    have "delivered_from plan (set evs) s s1" by (rule delivered_from_mono [OF s1]) simp
    moreover from delivered_from_trans [OF s1 delivered_from_all, of "finish_order evs" c None]
    have "delivered_from plan (set evs) s (snd ?d)" by (simp add: order)
    ultimately have "delivered_from plan (set evs) s (snd (dispatcher_run_once c env fate plan finish_order s))"
      using cases by (elim disjE) simp_all
    then show thesis by (rule that [OF committed(1)])
  qed
  have "\<exists>ev\<in>set evs. \<exists>code. e_id ev = o_id r \<and> de_http (plan ev) = HttpResponse True code"
    by (rule delivered_fromD [OF run after]) (rule before)
  then obtain ev code where
    "ev \<in> set evs" "e_id ev = o_id r" "de_http (plan ev) = HttpResponse True code"
    by (elim bexE exE conjE)
  with claim show ?thesis by auto
qed

theorem delivered_only_after_success_witness:
  "\<exists>code. de_http (demo_dispatch (HttpResponse True 200)) = HttpResponse True code \<and>
     map o_status (webhook_outbox (snd (dispatcher_run_once default_settings (later 102) Commits
       (\<lambda>_. demo_dispatch (HttpResponse True 200)) id demo_db_sent))) = [OutboxDelivered]"
proof -
  let ?plan = "\<lambda>_::outbox_event. demo_dispatch (HttpResponse True 200)"
  let ?s = "snd (dispatcher_run_once default_settings (later 102) Commits ?plan id demo_db_sent)"
  have run: "webhook_outbox ?s = [delivered_row (later 103) (lease_row (later 102) 10 demo_event_row)]"
    by (simp add: dispatcher_run_once_def begin_tx_def default_settings_def demo_event_claim dispatch_def
        post_error_def demo_dispatch_def mark_delivered_def update_where_def)
  then have "\<exists>r. r \<in> set (webhook_outbox ?s) \<and> o_status r = OutboxDelivered \<and> o_id r = ''ej1''"
    by (simp add: delivered_row_def lease_row_def)
  then obtain r where "r \<in> set (webhook_outbox ?s)" "o_status r = OutboxDelivered" "o_id r = ''ej1''" by blast
  from delivered_only_after_success [of id, OF _ this(1,2)] this(3)
  have "\<exists>code. de_http (demo_dispatch (HttpResponse True 200)) = HttpResponse True code"
    by (force simp: demo_db_sent_outbox)
  with run show ?thesis by (simp add: delivered_row_def)
qed

text \<open>
  A late failure is not fenced: \<open>mark_attempt_failed\<close> for an event that another dispatcher has
  already delivered puts it back in the queue, to be delivered again.
\<close>

theorem late_failure_reopens_delivered_event:
  assumes "r \<in> set (webhook_outbox s)" "o_id r = i"
  shows "\<exists>q\<in>set (webhook_outbox (mark_attempt_failed env' i err (Some d) (mark_delivered env i s))).
     o_id q = i \<and> o_status q = OutboxPending \<and> o_delivered_at q = Some (now env)"
proof -
  let ?q = "attempt_failed_row env' err (Some d) (delivered_row env r)"
  have "?q \<in> set (webhook_outbox (mark_attempt_failed env' i err (Some d) (mark_delivered env i s)))"
    using assms by (simp add: mark_attempt_failed_def mark_delivered_def image_image rev_image_eqI)
  then show ?thesis using assms(2) by (intro bexI [of _ ?q]) (simp_all add: attempt_failed_row_def delivered_row_def)
qed

section \<open>The receiver\<close>

text \<open>
  The mock receiver counts each event once. Whether a payload is new is decided by its event
  id alone; a new one adds one row, a repeat adds none and is reported as such, now and ever after.
\<close>

theorem record_receipt_once:
  assumes d: "distinct (map r_event_id (mock_webhook_receipts s))"
    and rec: "record_receipt parse_uuid env p s = Inr (b, s')"
  shows "distinct (map r_event_id (mock_webhook_receipts s')) \<and>
     (\<exists>i. json_uuid parse_uuid p ''event_id'' = Inr i \<and>
          (b \<longleftrightarrow> i \<notin> set (map r_event_id (mock_webhook_receipts s))) \<and>
          length (filter (\<lambda>r. r_event_id r = i) (mock_webhook_receipts s')) = 1) \<and>
     length (mock_webhook_receipts s') = length (mock_webhook_receipts s) + (if b then 1 else 0) \<and>
     record_receipt parse_uuid env' p s' = Inr (False, s')"
proof -
  from rec obtain i j t where parsed: "json_uuid parse_uuid p ''event_id'' = Inr i"
    "json_uuid parse_uuid p ''job_id'' = Inr j" "json_text p ''event'' = Inr t"
    by (auto simp: record_receipt_def bind_result_Inr_iff)
  let ?row = "\<lparr> r_id = gen_serial env, r_event_id = i, r_job_id = j, r_event = t, r_payload = p, r_received_at = now env \<rparr>"
  have step: "(b, s') = (if i \<in> set (map r_event_id (mock_webhook_receipts s)) then (False, s)
      else (True, s\<lparr>mock_webhook_receipts := mock_webhook_receipts s @ [?row]\<rparr>))"
    using rec by (auto simp: record_receipt_def parsed split: if_splits)
  have one: "length (filter (\<lambda>r. r_event_id r = i) rs) = 1"
    if "distinct (map r_event_id rs)" "i \<in> set (map r_event_id rs)" for rs
  proof -
    from that(2) obtain r where r: "r \<in> set rs" "r_event_id r = i" by auto
    from filter_key_unique [OF that(1) r(1)] r(2) show ?thesis by simp
  qed
  show ?thesis
  proof (cases "i \<in> set (map r_event_id (mock_webhook_receipts s))")
    case True
    with step d one [OF d True] show ?thesis by (simp add: record_receipt_def parsed)
  next
    case False
    with step have b: "b" and s': "mock_webhook_receipts s' = mock_webhook_receipts s @ [?row]" by simp_all
    have d': "distinct (map r_event_id (mock_webhook_receipts s'))" using d False by (auto simp: s')
    moreover have mem: "i \<in> set (map r_event_id (mock_webhook_receipts s'))" by (simp add: s')
    ultimately show ?thesis
      using False b one [OF d' mem] parsed by (simp add: record_receipt_def s')
  qed
qed

theorem record_receipt_once_witness:
  "\<exists>s'. record_receipt Some demo_env [(''event_id'', JStr ''ej1''), (''job_id'', JStr ''j1''), (''event'', JStr ''sent'')]
       empty_db = Inr (True, s') \<and>
     record_receipt Some (later 102) [(''event_id'', JStr ''ej1''), (''job_id'', JStr ''j1''), (''event'', JStr ''sent'')]
       s' = Inr (False, s')"
proof -
  let ?p = "[(''event_id'', JStr ''ej1''), (''job_id'', JStr ''j1''), (''event'', JStr ''sent'')]"
  obtain s' where s': "record_receipt Some demo_env ?p empty_db = Inr (True, s')"
    by (simp add: record_receipt_def json_uuid_def json_text_def empty_db_def)
  with record_receipt_once [OF _ s'] show ?thesis by (auto simp: empty_db_def)
qed

end
