(* ===== verification/Redis.thy ===== *)
theory Redis
  imports Outbox_Properties
begin

text \<open>
  The Redis server and the fail-open wrapper \<open>cache/client.py\<close>. The server is not part of the
  repository: its commands are a parameter, the record \<open>redis_cmds\<close> over an unknown store, and what
  the code relies on is the locale \<open>redis_laws\<close>, which states the documented behaviour of the
  commands through what later reads see. The store \<open>mem_redis\<close> satisfies the laws and serves in the
  witnesses. Every command takes the server's clock in milliseconds; a key that has passed its expiry
  reads as absent.
\<close>

section \<open>Commands\<close>

record 'r redis_cmds =
  rd_get :: "int \<Rightarrow> string \<Rightarrow> 'r \<Rightarrow> string option"
  rd_set_ex :: "int \<Rightarrow> string \<Rightarrow> string \<Rightarrow> int \<Rightarrow> 'r \<Rightarrow> 'r"      \<comment> \<open>\<open>SET k v EX seconds\<close>\<close>
  rd_del :: "string \<Rightarrow> 'r \<Rightarrow> 'r"
  rd_zremrangebyscore :: "int \<Rightarrow> string \<Rightarrow> int \<Rightarrow> 'r \<Rightarrow> 'r"  \<comment> \<open>from \<open>-inf\<close> to the bound\<close>
  rd_zscore :: "int \<Rightarrow> string \<Rightarrow> string \<Rightarrow> 'r \<Rightarrow> int option"
  rd_zcard :: "int \<Rightarrow> string \<Rightarrow> 'r \<Rightarrow> int"
  rd_zadd :: "int \<Rightarrow> string \<Rightarrow> int \<Rightarrow> string \<Rightarrow> 'r \<Rightarrow> 'r"
  rd_pexpire :: "int \<Rightarrow> string \<Rightarrow> int \<Rightarrow> 'r \<Rightarrow> 'r"
  rd_zfirst :: "int \<Rightarrow> string \<Rightarrow> 'r \<Rightarrow> (string \<times> int) option"  \<comment> \<open>\<open>ZRANGE k 0 0 WITHSCORES\<close>\<close>
  rd_zrem :: "int \<Rightarrow> string \<Rightarrow> string \<Rightarrow> 'r \<Rightarrow> 'r"

locale redis_laws =
  fixes R :: "'r redis_cmds"
  assumes get_set: "0 < ex \<Longrightarrow> t \<le> t' \<Longrightarrow> rd_get R t' k' (rd_set_ex R t k v ex s) =
        (if k' = k then if t' < t + 1000 * ex then Some v else None else rd_get R t' k' s)"
    and get_del: "rd_get R t k' (rd_del R k s) = (if k' = k then None else rd_get R t k' s)"
    and get_earlier: "t \<le> t' \<Longrightarrow> rd_get R t' k s = Some v \<Longrightarrow> rd_get R t k s = Some v"
    and get_zremrangebyscore: "t \<le> t' \<Longrightarrow> rd_get R t' k' (rd_zremrangebyscore R t k b s) = rd_get R t' k' s"
    and get_zadd: "t \<le> t' \<Longrightarrow> rd_get R t' k' (rd_zadd R t k x m s) = rd_get R t' k' s"
    and get_zrem: "t \<le> t' \<Longrightarrow> rd_get R t' k' (rd_zrem R t k m s) = rd_get R t' k' s"
    and get_pexpire: "t \<le> t' \<Longrightarrow> k' \<noteq> k \<Longrightarrow> rd_get R t' k' (rd_pexpire R t k w s) = rd_get R t' k' s"
    and get_pexpire_absent: "t \<le> t' \<Longrightarrow> rd_get R t k s = None \<Longrightarrow> rd_get R t' k (rd_pexpire R t k w s) = None"
    and zscore_set: "t \<le> t' \<Longrightarrow> k' \<noteq> k \<Longrightarrow> rd_zscore R t' k' m (rd_set_ex R t k v ex s) = rd_zscore R t' k' m s"
    and zscore_del: "k' \<noteq> k \<Longrightarrow> rd_zscore R t k' m (rd_del R k s) = rd_zscore R t k' m s"
    and zscore_earlier: "t \<le> t' \<Longrightarrow> rd_zscore R t' k m s = Some x \<Longrightarrow> rd_zscore R t k m s = Some x"
    and zscore_zremrangebyscore: "t \<le> t' \<Longrightarrow> rd_zscore R t' k' m (rd_zremrangebyscore R t k b s) =
        (case rd_zscore R t' k' m s of
           None \<Rightarrow> None | Some x \<Rightarrow> if k' = k \<and> x \<le> b then None else Some x)"
    and zscore_zadd: "rd_get R t k s = None \<Longrightarrow> rd_zscore R t k' m' (rd_zadd R t k x m s) =
        (if k' = k \<and> m' = m then Some x else rd_zscore R t k' m' s)"
    and zscore_zadd_other: "t \<le> t' \<Longrightarrow> k' \<noteq> k \<Longrightarrow> rd_zscore R t' k' m' (rd_zadd R t k x m s) = rd_zscore R t' k' m' s"
    and zscore_zrem: "t \<le> t' \<Longrightarrow> rd_zscore R t' k' m' (rd_zrem R t k m s) =
        (if k' = k \<and> m' = m then None else rd_zscore R t' k' m' s)"
    and zscore_pexpire: "0 < w \<Longrightarrow> t \<le> t' \<Longrightarrow> rd_zscore R t' k' m (rd_pexpire R t k w s) =
        (if k' = k then if t' < t + w then rd_zscore R t k m s else None else rd_zscore R t' k' m s)"
    and zset_finite: "finite {m. rd_zscore R t k m s \<noteq> None}"
    and zcard: "rd_zcard R t k s = int (card {m. rd_zscore R t k m s \<noteq> None})"
    and zfirst_None: "rd_zfirst R t k s = None \<longleftrightarrow> (\<forall>m. rd_zscore R t k m s = None)"
    and zfirst_Some: "rd_zfirst R t k s = Some (m, x) \<Longrightarrow>
        rd_zscore R t k m s = Some x \<and> (\<forall>m' x'. rd_zscore R t k m' s = Some x' \<longrightarrow> x \<le> x')"
begin

lemma get_absent_later: "t \<le> t' \<Longrightarrow> rd_get R t k s = None \<Longrightarrow> rd_get R t' k s = None"
  using get_earlier by (metis not_Some_eq)

lemma zscore_absent_later: "t \<le> t' \<Longrightarrow> rd_zscore R t k m s = None \<Longrightarrow> rd_zscore R t' k m s = None"
  using zscore_earlier by (metis not_Some_eq)

end

section \<open>A store that obeys the laws\<close>

datatype redis_value = RStr string | RZset "(string \<times> int) list"

type_synonym redis_store = "string \<Rightarrow> (redis_value \<times> int option) option"

definition mem_find :: "int \<Rightarrow> string \<Rightarrow> redis_store \<Rightarrow> (redis_value \<times> int option) option" where
  "mem_find t k s =
     (case s k of
        None \<Rightarrow> None
      | Some (v, None) \<Rightarrow> Some (v, None)
      | Some (v, Some e) \<Rightarrow> if t < e then Some (v, Some e) else None)"

definition mem_get :: "int \<Rightarrow> string \<Rightarrow> redis_store \<Rightarrow> string option" where
  "mem_get t k s = (case mem_find t k s of Some (RStr v, _) \<Rightarrow> Some v | _ \<Rightarrow> None)"

definition mem_zset :: "int \<Rightarrow> string \<Rightarrow> redis_store \<Rightarrow> (string \<times> int) list" where
  "mem_zset t k s = (case mem_find t k s of Some (RZset xs, _) \<Rightarrow> AList.clearjunk xs | _ \<Rightarrow> [])"

text \<open>Rewriting the members of a sorted set keeps its expiry; a string is left alone.\<close>

definition mem_zmap ::
  "int \<Rightarrow> string \<Rightarrow> ((string \<times> int) list \<Rightarrow> (string \<times> int) list) \<Rightarrow> redis_store \<Rightarrow> redis_store"
where
  "mem_zmap t k f s =
     (case mem_find t k s of
        None \<Rightarrow> s(k \<mapsto> (RZset (f []), None))
      | Some (RZset xs, e) \<Rightarrow> s(k \<mapsto> (RZset (f (AList.clearjunk xs)), e))
      | Some (RStr v, e) \<Rightarrow> s)"

definition mem_pexpire :: "int \<Rightarrow> string \<Rightarrow> int \<Rightarrow> redis_store \<Rightarrow> redis_store" where
  "mem_pexpire t k w s =
     (case mem_find t k s of None \<Rightarrow> s | Some (v, _) \<Rightarrow> s(k \<mapsto> (v, Some (t + w))))"

definition mem_redis :: "redis_store redis_cmds" where
  "mem_redis =
     \<lparr> rd_get = mem_get,
       rd_set_ex = (\<lambda>t k v ex s. s(k \<mapsto> (RStr v, Some (t + 1000 * ex)))),
       rd_del = (\<lambda>k s. s(k := None)),
       rd_zremrangebyscore = (\<lambda>t k b. mem_zmap t k (filter (\<lambda>p. b < snd p))),
       rd_zscore = (\<lambda>t k m s. map_of (mem_zset t k s) m),
       rd_zcard = (\<lambda>t k s. int (length (mem_zset t k s))),
       rd_zadd = (\<lambda>t k x m. mem_zmap t k (\<lambda>xs. (m, x) # AList.delete m xs)),
       rd_pexpire = mem_pexpire,
       rd_zfirst = (\<lambda>t k s. first (sort_key snd (mem_zset t k s))),
       rd_zrem = (\<lambda>t k m. mem_zmap t k (AList.delete m)) \<rparr>"

lemma mem_find_other: "k' \<noteq> k \<Longrightarrow> mem_find t k' (s(k := x)) = mem_find t k' s"
  by (simp add: mem_find_def)

lemma mem_find_later: "t \<le> t' \<Longrightarrow> mem_find t' k s = Some v \<Longrightarrow> mem_find t k s = Some v"
  by (auto simp: mem_find_def split: option.splits prod.splits if_splits)

lemma mem_find_zmap:
  "t \<le> t' \<Longrightarrow> mem_find t' k (mem_zmap t k f s) =
     (case mem_find t k s of
        None \<Rightarrow> Some (RZset (f []), None)
      | Some (RZset xs, e) \<Rightarrow> if mem_find t' k s = None then None else Some (RZset (f (AList.clearjunk xs)), e)
      | Some (RStr v, e) \<Rightarrow> mem_find t' k s)"
  by (auto simp: mem_find_def mem_zmap_def split: option.splits prod.splits if_splits redis_value.splits)

lemma mem_find_zmap_other: "k' \<noteq> k \<Longrightarrow> mem_find t' k' (mem_zmap t k f s) = mem_find t' k' s"
  by (auto simp: mem_zmap_def mem_find_other split: option.splits prod.splits redis_value.splits)

lemma mem_get_zmap: "t \<le> t' \<Longrightarrow> mem_get t' k' (mem_zmap t k f s) = mem_get t' k' s"
proof (cases "k' = k")
  case True
  assume t: "t \<le> t'"
  show ?thesis
    using mem_find_later [OF t, of k s]
    by (auto simp: True mem_get_def mem_find_zmap [OF t] split: option.splits redis_value.splits)
next
  case False
  then show ?thesis by (simp add: mem_get_def mem_find_zmap_other)
qed

lemma mem_zset_distinct [simp]: "distinct (map fst (mem_zset t k s))"
  by (auto simp: mem_zset_def distinct_clearjunk split: option.splits redis_value.splits)

text \<open>For an update that leaves an empty set empty, all later reads see the updated members.\<close>

lemma mem_zset_zmap:
  assumes t: "t \<le> t'" and f: "f [] = []" "\<And>xs. distinct (map fst xs) \<Longrightarrow> distinct (map fst (f xs))"
  shows "mem_zset t' k' (mem_zmap t k f s) = (if k' = k then f (mem_zset t' k' s) else mem_zset t' k' s)"
proof (cases "k' = k")
  case True
  show ?thesis
    using mem_find_later [OF t, of k s]
    by (auto simp: True f mem_zset_def mem_find_zmap [OF t] distinct_clearjunk
        split: option.splits redis_value.splits)
next
  case False
  then show ?thesis by (simp add: mem_zset_def mem_find_zmap_other)
qed

lemma mem_zset_zmap_now:
  assumes "mem_get t k s = None" and f: "\<And>xs. distinct (map fst xs) \<Longrightarrow> distinct (map fst (f xs))"
  shows "mem_zset t k (mem_zmap t k f s) = f (mem_zset t k s)"
  using assms(1) f [of "[]"]
  by (auto simp: mem_zset_def mem_get_def mem_find_zmap f distinct_clearjunk
      split: option.splits redis_value.splits)

lemma mem_zset_zadd:
  "mem_get t k s = None \<Longrightarrow>
     mem_zset t k (mem_zmap t k (\<lambda>xs. (m, x) # AList.delete m xs) s) = (m, x) # AList.delete m (mem_zset t k s)"
  by (rule mem_zset_zmap_now) (simp_all add: delete_keys distinct_removeAll flip: set_map)

lemma mem_zset_zmap_other: "k' \<noteq> k \<Longrightarrow> mem_zset t' k' (mem_zmap t k f s) = mem_zset t' k' s"
  by (simp add: mem_zset_def mem_find_zmap_other)

lemma mem_zset_later: "t \<le> t' \<Longrightarrow> mem_zset t' k s = mem_zset t k s \<or> mem_zset t' k s = []"
  using mem_find_later [of t t' k s] by (auto simp: mem_zset_def split: option.splits)

lemma map_of_filter_score:
  "distinct (map fst xs) \<Longrightarrow> map_of (filter (\<lambda>p. P (snd p)) xs) m =
     (case map_of xs m of None \<Rightarrow> None | Some x \<Rightarrow> if P x then Some x else None)"
  by (induction xs) (auto simp: map_of_eq_None_iff image_iff split: option.splits)

lemma mem_pexpire_find:
  "t \<le> t' \<Longrightarrow> mem_find t' k' (mem_pexpire t k w s) =
     (if k' = k then (case mem_find t k s of None \<Rightarrow> None | Some (v, _) \<Rightarrow> if t' < t + w then Some (v, Some (t + w)) else None)
      else mem_find t' k' s)"
proof (cases "mem_find t k s")
  case None
  assume "t \<le> t'"
  with None mem_find_later [of t t' k s] have "mem_find t' k s = None" by (metis option.exhaust)
  with None show ?thesis by (simp add: mem_pexpire_def)
next
  case (Some ve)
  obtain v e where "ve = (v, e)" by (cases ve)
  with Some show ?thesis by (simp add: mem_pexpire_def mem_find_other) (simp add: mem_find_def)
qed

lemma card_map_of: "distinct (map fst xs) \<Longrightarrow> card {m. map_of xs m \<noteq> None} = length xs"
  by (metis dom_def dom_map_of_conv_image_fst distinct_card length_map set_map)

lemma mem_zfirst_Some:
  assumes d: "distinct (map fst xs)" and f: "first (sort_key snd xs) = Some (m, x)"
  shows "map_of xs m = Some x \<and> (\<forall>m' x'. map_of xs m' = Some x' \<longrightarrow> x \<le> (x'::int))"
proof -
  obtain ys where ys: "sort_key snd xs = (m, x) # ys"
    using f by (cases "sort_key snd xs") auto
  then have mem: "set xs = insert (m, x) (set ys)" by (metis list.simps(15) set_sort)
  have "sorted (map snd ((m, x) # ys))" using sorted_sort_key [of snd xs] by (simp only: ys)
  then have "x \<le> snd p" if "p \<in> set xs" for p using that mem by auto
  moreover have "map_of xs m = Some x" using d mem by (simp add: map_of_eq_Some_iff)
  ultimately show ?thesis by (fastforce dest: map_of_SomeD)
qed

interpretation mem: redis_laws mem_redis
proof
  fix t t' k k' v ex b x m m' w and s :: redis_store
  let ?R = mem_redis
  show "0 < ex \<Longrightarrow> t \<le> t' \<Longrightarrow> rd_get ?R t' k' (rd_set_ex ?R t k v ex s) =
      (if k' = k then if t' < t + 1000 * ex then Some v else None else rd_get ?R t' k' s)"
    by (simp add: mem_redis_def mem_get_def mem_find_def)
  show "rd_get ?R t k' (rd_del ?R k s) = (if k' = k then None else rd_get ?R t k' s)"
    by (simp add: mem_redis_def mem_get_def mem_find_def)
  show "t \<le> t' \<Longrightarrow> rd_get ?R t' k s = Some v \<Longrightarrow> rd_get ?R t k s = Some v"
    using mem_find_later [of t t' k s]
    by (auto simp: mem_redis_def mem_get_def split: option.splits redis_value.splits)
  show "t \<le> t' \<Longrightarrow> rd_get ?R t' k' (rd_zremrangebyscore ?R t k b s) = rd_get ?R t' k' s"
    "t \<le> t' \<Longrightarrow> rd_get ?R t' k' (rd_zadd ?R t k x m s) = rd_get ?R t' k' s"
    "t \<le> t' \<Longrightarrow> rd_get ?R t' k' (rd_zrem ?R t k m s) = rd_get ?R t' k' s"
    by (simp_all add: mem_redis_def mem_get_zmap)
  show "t \<le> t' \<Longrightarrow> k' \<noteq> k \<Longrightarrow> rd_get ?R t' k' (rd_pexpire ?R t k w s) = rd_get ?R t' k' s"
    "t \<le> t' \<Longrightarrow> rd_get ?R t k s = None \<Longrightarrow> rd_get ?R t' k (rd_pexpire ?R t k w s) = None"
    by (auto simp: mem_redis_def mem_get_def mem_pexpire_find split: option.splits redis_value.splits)
  show "t \<le> t' \<Longrightarrow> k' \<noteq> k \<Longrightarrow> rd_zscore ?R t' k' m (rd_set_ex ?R t k v ex s) = rd_zscore ?R t' k' m s"
    "k' \<noteq> k \<Longrightarrow> rd_zscore ?R t k' m (rd_del ?R k s) = rd_zscore ?R t k' m s"
    by (simp_all add: mem_redis_def mem_zset_def mem_find_other)
  show "t \<le> t' \<Longrightarrow> rd_zscore ?R t' k m s = Some x \<Longrightarrow> rd_zscore ?R t k m s = Some x"
    using mem_zset_later [of t t' k s] by (auto simp: mem_redis_def)
  show "t \<le> t' \<Longrightarrow> rd_zscore ?R t' k' m (rd_zremrangebyscore ?R t k b s) =
      (case rd_zscore ?R t' k' m s of None \<Rightarrow> None | Some x \<Rightarrow> if k' = k \<and> x \<le> b then None else Some x)"
    by (simp add: mem_redis_def mem_zset_zmap distinct_map_filter map_of_filter_score [where P = "\<lambda>x. b < x"]
        split: option.splits)
  show "rd_get ?R t k s = None \<Longrightarrow> rd_zscore ?R t k' m' (rd_zadd ?R t k x m s) =
      (if k' = k \<and> m' = m then Some x else rd_zscore ?R t k' m' s)"
    by (cases "k' = k") (simp_all add: mem_redis_def mem_zset_zadd mem_zset_zmap_other delete_conv')
  show "t \<le> t' \<Longrightarrow> k' \<noteq> k \<Longrightarrow> rd_zscore ?R t' k' m' (rd_zadd ?R t k x m s) = rd_zscore ?R t' k' m' s"
    by (simp add: mem_redis_def mem_zset_def mem_find_zmap_other)
  show "t \<le> t' \<Longrightarrow> rd_zscore ?R t' k' m' (rd_zrem ?R t k m s) =
      (if k' = k \<and> m' = m then None else rd_zscore ?R t' k' m' s)"
    by (simp add: mem_redis_def mem_zset_zmap distinct_delete delete_conv')
  show "0 < w \<Longrightarrow> t \<le> t' \<Longrightarrow> rd_zscore ?R t' k' m (rd_pexpire ?R t k w s) =
      (if k' = k then if t' < t + w then rd_zscore ?R t k m s else None else rd_zscore ?R t' k' m s)"
    by (simp add: mem_redis_def mem_zset_def mem_pexpire_find split: option.splits redis_value.splits)
  show "finite {m. rd_zscore ?R t k m s \<noteq> None}"
    using finite_dom_map_of [of "mem_zset t k s"] by (simp add: mem_redis_def dom_def)
  show "rd_zcard ?R t k s = int (card {m. rd_zscore ?R t k m s \<noteq> None})"
    using card_map_of [OF mem_zset_distinct, of t k s] by (simp add: mem_redis_def)
  show "rd_zfirst ?R t k s = None \<longleftrightarrow> (\<forall>m. rd_zscore ?R t k m s = None)"
    using set_sort [of snd "mem_zset t k s"]
    by (cases "mem_zset t k s") (auto simp: mem_redis_def map_of_eq_None_iff simp del: set_sort)
  show "rd_zfirst ?R t k s = Some (m, x) \<Longrightarrow>
      rd_zscore ?R t k m s = Some x \<and> (\<forall>m' x'. rd_zscore ?R t k m' s = Some x' \<longrightarrow> x \<le> x')"
    using mem_zfirst_Some [OF mem_zset_distinct, of t k s m x] by (simp add: mem_redis_def)
qed

section \<open>The fail-open wrapper\<close>

text \<open>
  A command or script either replies or fails in the server; the connection can fail before the
  command runs or after it, when the reply is lost. \<open>Cache.call\<close> turns every failure into the
  caller's default.
\<close>

datatype 'a redis_reply = Reply 'a | ReplyError

datatype redis_fate = RedisOk | RedisLost | RedisReplyLost

record redis_env =
  re_fate :: redis_fate
  re_now :: int         \<comment> \<open>the server's clock in milliseconds\<close>

definition cache_call ::
  "bool \<Rightarrow> redis_fate \<Rightarrow> ('r \<Rightarrow> 'a redis_reply \<times> 'r) \<Rightarrow> 'a \<Rightarrow> 'r \<Rightarrow> 'a \<times> 'r"
where
  "cache_call enabled fate fn dflt s =
     (if \<not> enabled then (dflt, s)
      else case fate of
        RedisLost \<Rightarrow> (dflt, s)
      | RedisOk \<Rightarrow> (case fn s of (Reply x, s') \<Rightarrow> (x, s') | (ReplyError, s') \<Rightarrow> (dflt, s'))
      | RedisReplyLost \<Rightarrow> (dflt, snd (fn s)))"

lemma cache_call_cases:
  obtains (skipped) "cache_call enabled fate fn dflt s = (dflt, s)" "\<not> enabled \<or> fate = RedisLost"
  | (ran) x s' where "enabled" "fate = RedisOk" "fn s = (Reply x, s')" "cache_call enabled fate fn dflt s = (x, s')"
  | (failed) s' where "enabled" "cache_call enabled fate fn dflt s = (dflt, s')" "s' = snd (fn s)"
  by (cases enabled; cases fate; cases "fn s"; cases "fst (fn s)") (auto simp: cache_call_def)

lemma cache_call_keeps: "P s \<Longrightarrow> P (snd (fn s)) \<Longrightarrow> P (snd (cache_call enabled fate fn dflt s))"
  by (cases rule: cache_call_cases [of enabled fate fn dflt s]) auto

text \<open>\<open>Cache.key\<close>: the prefix and the parts joined by colons.\<close>

fun join_colon :: "string list \<Rightarrow> string" where
  "join_colon [] = []"
| "join_colon [p] = p"
| "join_colon (p # q # ps) = p @ '':'' @ join_colon (q # ps)"

definition cache_key :: "string \<Rightarrow> string list \<Rightarrow> string" where
  "cache_key prefix parts = prefix @ join_colon parts"

text \<open>\<open>SET .. EX\<close> rejects an expiry that is not positive.\<close>

definition redis_set :: "'r redis_cmds \<Rightarrow> int \<Rightarrow> string \<Rightarrow> string \<Rightarrow> int \<Rightarrow> 'r \<Rightarrow> bool option redis_reply \<times> 'r" where
  "redis_set R t k v ex s =
     (if ex \<le> 0 then (ReplyError, s) else (Reply (Some True), rd_set_ex R t k v ex s))"

definition redis_get :: "'r redis_cmds \<Rightarrow> int \<Rightarrow> string \<Rightarrow> 'r \<Rightarrow> string option redis_reply \<times> 'r" where
  "redis_get R t k s = (Reply (rd_get R t k s), s)"

definition ping :: "bool \<Rightarrow> redis_fate \<Rightarrow> 'r \<Rightarrow> bool \<times> 'r" where
  "ping enabled fate s = cache_call enabled fate (\<lambda>s. (Reply True, s)) False s"

text \<open>The keys of the four uses never meet.\<close>

lemma cache_keys_differ:
  "cache_key p [''job'', i] \<noteq> cache_key p [''idem'', k]"
  "cache_key p [''job'', i] \<noteq> cache_key p [''rl'', r]"
  "cache_key p [''idem'', k] \<noteq> cache_key p [''rl'', r]"
  "cache_key p [''metrics'', ''v1''] \<noteq> cache_key p [''rl'', r]"
  "cache_key p [''metrics'', ''v1'', ''lock''] \<noteq> cache_key p [''rl'', r]"
  "cache_key p [''metrics'', ''v1'', ''lock''] \<noteq> cache_key p [''metrics'', ''v1'']"
  by (simp_all add: cache_key_def)

lemma cache_key_inj [simp]: "cache_key p [a, i] = cache_key p [a, j] \<longleftrightarrow> i = j"
  by (simp add: cache_key_def)

end
