(* ===== verification/Rate_Limiter.thy ===== *)
theory Rate_Limiter
  imports Redis
begin

text \<open>
  Per-recipient rate limiting, \<open>services/rate_limiter.py\<close>: the Lua script \<open>_ACQUIRE\<close> of the Redis
  sliding window, the Postgres fixed window behind it, the protocol \<open>RateLimiter\<close> as a locale that
  both satisfy, and what each limiter bounds.
\<close>

section \<open>The world of a process\<close>

record 'r world =
  w_db :: db
  w_redis :: 'r

record limiter_env =
  le_redis :: redis_env
  le_fate :: tx_fate
  le_env :: txenv

record 'r rate_limiter =
  rl_acquire :: "limiter_env \<Rightarrow> job \<Rightarrow> 'r world \<Rightarrow> real option result \<times> 'r world"
  rl_release :: "limiter_env \<Rightarrow> job \<Rightarrow> 'r world \<Rightarrow> 'r world"

text \<open>A transaction on the database of the world.\<close>

definition in_tx :: "tx_fate \<Rightarrow> (db \<Rightarrow> ('a \<times> db) result) \<Rightarrow> 'r world \<Rightarrow> 'a result \<times> 'r world" where
  "in_tx fate block w =
     (let (r, s') = begin_tx fate block (w_db w) in (r, w\<lparr>w_db := s'\<rparr>))"

lemma in_tx_simps [simp]:
  "fst (in_tx fate block w) = fst (begin_tx fate block (w_db w))"
  "w_db (snd (in_tx fate block w)) = snd (begin_tx fate block (w_db w))"
  "w_redis (snd (in_tx fate block w)) = w_redis w"
  by (simp_all add: in_tx_def split_beta)

section \<open>The two limiters\<close>

definition postgres_acquire :: "settings \<Rightarrow> limiter_env \<Rightarrow> job \<Rightarrow> 'r world \<Rightarrow> real option result \<times> 'r world" where
  "postgres_acquire c e j w =
     in_tx (le_fate e)
       (try_acquire_rate_limit (le_env e) (j_recipient j) (rate_limit_per_hour c) (rate_limit_window_seconds c)) w"

definition postgres_release :: "limiter_env \<Rightarrow> job \<Rightarrow> 'r world \<Rightarrow> 'r world" where
  "postgres_release e j w = w"

definition postgres_limiter :: "settings \<Rightarrow> 'r rate_limiter" where
  "postgres_limiter c = \<lparr>rl_acquire = postgres_acquire c, rl_release = postgres_release\<rparr>"

text \<open>
  The script: trim, reuse the job's own slot, take a free slot, or report when the oldest slot
  frees up. On an empty set the last line reads \<open>oldest[2]\<close>, which is \<open>nil\<close>, and fails.
\<close>

definition acquire_script ::
  "'r redis_cmds \<Rightarrow> int \<Rightarrow> string \<Rightarrow> int \<Rightarrow> int \<Rightarrow> string \<Rightarrow> 'r \<Rightarrow> (bool \<times> int) redis_reply \<times> 'r"
where
  "acquire_script R t key window limit job s =
     (let s1 = rd_zremrangebyscore R t key (t - window) s
      in if rd_zscore R t key job s1 \<noteq> None then (Reply (True, 0), s1)
         else if rd_zcard R t key s1 < limit
         then (Reply (True, 0), rd_pexpire R t key window (rd_zadd R t key t job s1))
         else case rd_zfirst R t key s1 of
                None \<Rightarrow> (ReplyError, s1)
              | Some (_, oldest) \<Rightarrow> (Reply (False, oldest + window - t), s1))"

text \<open>Python's \<open>int(x)\<close> of a float rounds toward zero.\<close>

definition py_int :: "real \<Rightarrow> int" where
  "py_int x = (if x < 0 then \<lceil>x\<rceil> else \<lfloor>x\<rfloor>)"

definition window_ms :: "settings \<Rightarrow> int" where
  "window_ms c = py_int (rate_limit_window_seconds c * 1000)"

definition rl_key :: "settings \<Rightarrow> string \<Rightarrow> string" where
  "rl_key c recipient = cache_key (redis_key_prefix c) [''rl'', recipient]"

definition some_reply :: "'a redis_reply \<times> 'r \<Rightarrow> 'a option redis_reply \<times> 'r" where
  "some_reply p = (case p of (Reply x, s) \<Rightarrow> (Reply (Some x), s) | (ReplyError, s) \<Rightarrow> (ReplyError, s))"

definition redis_acquire ::
  "'r redis_cmds \<Rightarrow> settings \<Rightarrow> limiter_env \<Rightarrow> job \<Rightarrow> 'r world \<Rightarrow> real option result \<times> 'r world"
where
  "redis_acquire R c e j w =
     (case cache_call True (re_fate (le_redis e))
             (\<lambda>s. some_reply (acquire_script R (re_now (le_redis e)) (rl_key c (j_recipient j)) (window_ms c)
                    (rate_limit_per_hour c) (j_id j) s)) None (w_redis w) of
        (None, s') \<Rightarrow> postgres_acquire c e j (w\<lparr>w_redis := s'\<rparr>)
      | (Some (admitted, wait_ms), s') \<Rightarrow>
          (Inr (if admitted then None else Some (real_of_int (max wait_ms 1) / 1000)), w\<lparr>w_redis := s'\<rparr>))"

definition redis_release :: "'r redis_cmds \<Rightarrow> settings \<Rightarrow> limiter_env \<Rightarrow> job \<Rightarrow> 'r world \<Rightarrow> 'r world" where
  "redis_release R c e j w =
     w\<lparr>w_redis := snd (cache_call True (re_fate (le_redis e))
         (\<lambda>s. (Reply (), rd_zrem R (re_now (le_redis e)) (rl_key c (j_recipient j)) (j_id j) s)) () (w_redis w))\<rparr>"

definition redis_limiter :: "'r redis_cmds \<Rightarrow> settings \<Rightarrow> 'r rate_limiter" where
  "redis_limiter R c = \<lparr>rl_acquire = redis_acquire R c, rl_release = redis_release R c\<rparr>"

definition build_rate_limiter :: "'r redis_cmds \<Rightarrow> settings \<Rightarrow> 'r rate_limiter" where
  "build_rate_limiter R c =
     (if cfg_rate_limit_backend c = BackendRedis \<and> cache_enabled c then redis_limiter R c
      else postgres_limiter c)"

section \<open>The protocol\<close>

text \<open>
  What the worker relies on: a limiter touches no table but its own counters, giving a slot back
  touches none, and a wait is positive (for a positive window).
\<close>

locale limiter_contract =
  fixes L :: "'r rate_limiter" and c :: settings
  assumes acquire_frame: "\<exists>b. w_db (snd (rl_acquire L e j w)) = (w_db w)\<lparr>rate_limit_buckets := b\<rparr>"
    and release_frame: "w_db (rl_release L e j w) = w_db w"
    and wait_positive: "0 < rate_limit_window_seconds c \<Longrightarrow> fst (rl_acquire L e j w) = Inr (Some d) \<Longrightarrow> 0 < d"
begin

lemma acquire_inv: "db_inv {} (w_db w) \<Longrightarrow> db_inv {} (w_db (snd (rl_acquire L e j w)))"
  using acquire_frame [of e j w] by auto

lemma acquire_same:
  "jobs (w_db (snd (rl_acquire L e j w))) = jobs (w_db w)"
  "webhook_outbox (w_db (snd (rl_acquire L e j w))) = webhook_outbox (w_db w)"
  "mock_provider_log (w_db (snd (rl_acquire L e j w))) = mock_provider_log (w_db w)"
  using acquire_frame [of e j w] by auto

end

lemma next_window_wait:
  fixes window t :: real
  assumes "0 < window"
  shows "0 < (real_of_int \<lfloor>t / window\<rfloor> + 1) * window - t"
    and "(real_of_int \<lfloor>t / window\<rfloor> + 1) * window - t \<le> window"
    and "window_start_at window t \<le> t" "t < window_start_at window t + window"
proof -
  have 1: "t < (real_of_int \<lfloor>t / window\<rfloor> + 1) * window"
  proof -
    have "t / window < real_of_int \<lfloor>t / window\<rfloor> + 1" using floor_correct [of "t / window"] by simp
    then show ?thesis using assms by (subst (asm) divide_less_eq) simp
  qed
  have 2: "real_of_int \<lfloor>t / window\<rfloor> * window \<le> t"
  proof -
    have "real_of_int \<lfloor>t / window\<rfloor> \<le> t / window" by simp
    then show ?thesis using assms by (subst (asm) le_divide_eq) simp
  qed
  show "0 < (real_of_int \<lfloor>t / window\<rfloor> + 1) * window - t" using 1 by simp
  show "(real_of_int \<lfloor>t / window\<rfloor> + 1) * window - t \<le> window" using 2 by (simp add: algebra_simps)
  show "window_start_at window t \<le> t" using 2 by (simp add: window_start_at_def)
  show "t < window_start_at window t + window" using 1 by (simp add: window_start_at_def algebra_simps)
qed

lemma try_acquire_frame:
  "try_acquire_rate_limit env r l win s = Inr (x, s') \<Longrightarrow> \<exists>b. s' = s\<lparr>rate_limit_buckets := b\<rparr>"
proof -
  assume t: "try_acquire_rate_limit env r l win s = Inr (x, s')"
  have "\<exists>b. s = s\<lparr>rate_limit_buckets := b\<rparr>" by (rule exI [of _ "rate_limit_buckets s"]) simp
  with t show ?thesis
    by (auto simp: try_acquire_rate_limit_def Let_def split: if_splits)
qed

lemma try_acquire_wait:
  "0 < win \<Longrightarrow> try_acquire_rate_limit env r l win s = Inr (Some d, s') \<Longrightarrow>
     0 < d \<and> d \<le> win \<and> s' = s \<and> d = window_start_at win (now env) + win - now env"
  using next_window_wait [of win "now env"]
  by (auto simp: try_acquire_rate_limit_def window_start_at_def Let_def algebra_simps split: if_splits)

lemma postgres_acquire_frame: "\<exists>b. w_db (snd (postgres_acquire c e j w)) = (w_db w)\<lparr>rate_limit_buckets := b\<rparr>"
proof -
  have "\<exists>b. w_db w = (w_db w)\<lparr>rate_limit_buckets := b\<rparr>" by (rule exI [of _ "rate_limit_buckets (w_db w)"]) simp
  then show ?thesis
    unfolding postgres_acquire_def in_tx_simps
    by (rule begin_tx_keeps) (rule try_acquire_frame)
qed

lemma begin_tx_fst_Inr: "fst (begin_tx fate block s) = Inr x \<Longrightarrow> \<exists>s'. block s = Inr (x, s')"
  by (auto simp: begin_tx_def split: tx_fate.splits sum.splits)

lemma postgres_wait:
  "0 < rate_limit_window_seconds c \<Longrightarrow> fst (postgres_acquire c e j w) = Inr (Some d) \<Longrightarrow> 0 < d"
  by (auto simp: postgres_acquire_def dest!: begin_tx_fst_Inr dest: try_acquire_wait)

interpretation pg: limiter_contract "postgres_limiter c" c for c
  by unfold_locales
    (simp_all add: postgres_limiter_def postgres_acquire_frame postgres_release_def postgres_wait)

lemma redis_acquire_cases:
  obtains (fallback) s' where "redis_acquire R c e j w = postgres_acquire c e j (w\<lparr>w_redis := s'\<rparr>)"
  | (answered) a ms s' where
      "acquire_script R (re_now (le_redis e)) (rl_key c (j_recipient j)) (window_ms c) (rate_limit_per_hour c)
         (j_id j) (w_redis w) = (Reply (a, ms), s')"
      "redis_acquire R c e j w =
         (Inr (if a then None else Some (real_of_int (max ms 1) / 1000)), w\<lparr>w_redis := s'\<rparr>)"
proof -
  let ?fn = "\<lambda>s. some_reply (acquire_script R (re_now (le_redis e)) (rl_key c (j_recipient j)) (window_ms c)
                    (rate_limit_per_hour c) (j_id j) s)"
  obtain r s' where call: "cache_call True (re_fate (le_redis e)) ?fn None (w_redis w) = (r, s')"
    by (cases "cache_call True (re_fate (le_redis e)) ?fn None (w_redis w)")
  show thesis
  proof (cases r)
    case None
    with call have "redis_acquire R c e j w = postgres_acquire c e j (w\<lparr>w_redis := s'\<rparr>)"
      by (simp add: redis_acquire_def)
    then show thesis by (rule fallback)
  next
    case (Some p)
    obtain a ms where p: "p = (a, ms)" by (cases p)
    have "acquire_script R (re_now (le_redis e)) (rl_key c (j_recipient j)) (window_ms c) (rate_limit_per_hour c)
        (j_id j) (w_redis w) = (Reply (a, ms), s')"
      using call Some p
      by (auto simp: cache_call_def some_reply_def split: redis_fate.splits redis_reply.splits prod.splits)
    moreover have "redis_acquire R c e j w =
        (Inr (if a then None else Some (real_of_int (max ms 1) / 1000)), w\<lparr>w_redis := s'\<rparr>)"
      using call Some p by (simp add: redis_acquire_def)
    ultimately show thesis by (rule answered)
  qed
qed

interpretation red: limiter_contract "redis_limiter R c" c for R c
proof
  fix e j w d
  show "\<exists>b. w_db (snd (rl_acquire (redis_limiter R c) e j w)) = (w_db w)\<lparr>rate_limit_buckets := b\<rparr>"
  proof (cases rule: redis_acquire_cases [of R c e j w])
    case (fallback s')
    with postgres_acquire_frame [of c e j "w\<lparr>w_redis := s'\<rparr>"] show ?thesis by (simp add: redis_limiter_def)
  next
    case (answered a ms s')
    then show ?thesis
      by (intro exI [of _ "rate_limit_buckets (w_db w)"]) (simp add: redis_limiter_def)
  qed
  show "w_db (rl_release (redis_limiter R c) e j w) = w_db w"
    by (simp add: redis_limiter_def redis_release_def)
  assume "0 < rate_limit_window_seconds c" "fst (rl_acquire (redis_limiter R c) e j w) = Inr (Some d)"
  then show "0 < d"
    by (cases rule: redis_acquire_cases [of R c e j w])
      (auto simp: redis_limiter_def dest: postgres_wait split: if_splits)
qed

lemma build_limiter_contract: "limiter_contract (build_rate_limiter R c) c"
  by (simp add: build_rate_limiter_def pg.limiter_contract_axioms red.limiter_contract_axioms)

end
