(* ===== verification/Rate_Limiter_Properties.thy ===== *)
theory Rate_Limiter_Properties
  imports Rate_Limiter
begin

text \<open>
  What the limiters bound: the Redis script never has more than \<open>limit\<close> slots taken and not handed
  back in any window, a job re-uses its own slot, the wait it reports is enough, and the Postgres
  counter never passes the limit in a fixed window.
\<close>

section \<open>The sliding window\<close>

text \<open>
  A run of the script and of releases on one recipient's key, in the order in which Redis executes
  them. The second component records the slots that were taken, with their times, less those that
  were handed back.
\<close>

datatype slot_event = Acquire uuid | Release uuid

definition slot_step ::
  "'r redis_cmds \<Rightarrow> string \<Rightarrow> int \<Rightarrow> int \<Rightarrow> int \<times> slot_event \<Rightarrow> 'r \<times> (int \<times> uuid) list \<Rightarrow> 'r \<times> (int \<times> uuid) list"
where
  "slot_step R key window limit ev st =
     (case (ev, st) of
        ((t, Acquire j), (s, taken)) \<Rightarrow>
          let (r, s') = acquire_script R t key window limit j s
          in (s', if rd_zscore R t key j (rd_zremrangebyscore R t key (t - window) s) = None \<and> r = Reply (True, 0)
                  then (t, j) # taken else taken)
      | ((t, Release j), (s, taken)) \<Rightarrow> (rd_zrem R t key j s, filter (\<lambda>p. snd p \<noteq> j) taken))"

fun slot_run ::
  "'r redis_cmds \<Rightarrow> string \<Rightarrow> int \<Rightarrow> int \<Rightarrow> (int \<times> slot_event) list \<Rightarrow> 'r \<times> (int \<times> uuid) list \<Rightarrow> 'r \<times> (int \<times> uuid) list"
where
  "slot_run R key window limit [] st = st"
| "slot_run R key window limit (ev # evs) st = slot_run R key window limit evs (slot_step R key window limit ev st)"

definition holders :: "int \<Rightarrow> int \<Rightarrow> (int \<times> uuid) list \<Rightarrow> uuid set" where
  "holders window T taken = {j. \<exists>t. (t, j) \<in> set taken \<and> T - window < t \<and> t \<le> T}"

lemma finite_holders [simp]: "finite (holders window T taken)"
proof -
  have "holders window T taken \<subseteq> snd ` set taken" by (force simp: holders_def)
  then show ?thesis by (rule finite_subset) simp
qed

lemma holders_mono: "set taken' \<subseteq> set taken \<Longrightarrow> holders window T taken' \<subseteq> holders window T taken"
  by (auto simp: holders_def)

context redis_laws
begin

text \<open>
  At time \<open>n\<close> and ever after, a slot that was taken less than a window ago is in the sorted set.
\<close>

definition tracks :: "string \<Rightarrow> int \<Rightarrow> int \<Rightarrow> 'r \<times> (int \<times> uuid) list \<Rightarrow> bool" where
  "tracks key window n st \<longleftrightarrow>
     (\<forall>(t, j)\<in>set (snd st). t \<le> n) \<and> rd_get R n key (fst st) = None \<and>
     (\<forall>(t, j)\<in>set (snd st). \<forall>m\<ge>n. m - window < t \<longrightarrow> (\<exists>x\<ge>t. rd_zscore R m key j (fst st) = Some x))"

lemma tracksD:
  assumes "tracks key window n (s, taken)" "(t, j) \<in> set taken"
  shows "t \<le> n" "\<And>m. n \<le> m \<Longrightarrow> m - window < t \<Longrightarrow> \<exists>x\<ge>t. rd_zscore R m key j s = Some x"
  using assms unfolding tracks_def by auto

lemma tracks_later: "tracks key window n st \<Longrightarrow> n \<le> n' \<Longrightarrow> tracks key window n' st"
  unfolding tracks_def using get_absent_later by fastforce

lemma tracks_trim:
  assumes tr: "tracks key window n (s, taken)"
  shows "tracks key window n (rd_zremrangebyscore R n key (n - window) s, taken)"
proof -
  have "\<exists>x\<ge>t. rd_zscore R m key j (rd_zremrangebyscore R n key (n - window) s) = Some x"
    if m: "(t, j) \<in> set taken" "n \<le> m" "m - window < t" for t j m
  proof -
    obtain x where "x \<ge> t" "rd_zscore R m key j s = Some x" using tracksD(2) [OF tr m] by blast
    moreover have "\<not> x \<le> n - window" using calculation(1) m by simp
    ultimately show ?thesis using m(2) by (auto simp: zscore_zremrangebyscore)
  qed
  then show ?thesis using tr by (auto simp: tracks_def get_zremrangebyscore)
qed

lemma tracks_take:
  assumes tr: "tracks key window n (s, taken)" and w: "0 < window"
  shows "tracks key window n (rd_pexpire R n key window (rd_zadd R n key n j s), (n, j) # taken)"
proof -
  let ?s = "rd_pexpire R n key window (rd_zadd R n key n j s)"
  have none: "rd_get R n key s = None" using tr by (simp add: tracks_def)
  have "\<exists>x\<ge>t. rd_zscore R m key i ?s = Some x"
    if m: "(t, i) \<in> set ((n, j) # taken)" "n \<le> m" "m - window < t" for t i m
  proof (cases "i = j")
    case True
    have "t \<le> n" using m(1) tracksD(1) [OF tr] by auto
    with True m w show ?thesis by (simp add: zscore_pexpire zscore_zadd none)
  next
    case False
    with m(1) have i: "(t, i) \<in> set taken" by simp
    have "t \<le> n" by (rule tracksD(1) [OF tr i])
    moreover obtain x where "x \<ge> t" "rd_zscore R m key i s = Some x" using tracksD(2) [OF tr i m(2,3)] by blast
    moreover from this(2) have "rd_zscore R n key i s = Some x" by (rule zscore_earlier [OF m(2)])
    ultimately show ?thesis using False m w by (simp add: zscore_pexpire zscore_zadd none)
  qed
  moreover have "rd_get R n key ?s = None"
    using none by (simp add: get_pexpire_absent get_zadd)
  ultimately show ?thesis using tr by (auto simp: tracks_def)
qed

lemma tracks_release:
  assumes tr: "tracks key window n (s, taken)"
  shows "tracks key window n (rd_zrem R n key j s, filter (\<lambda>p. snd p \<noteq> j) taken)"
  using tr by (auto simp: tracks_def get_zrem zscore_zrem)

text \<open>Taking a slot when fewer than \<open>limit\<close> are held leaves at most \<open>limit\<close> in every window.\<close>

lemma take_bound:
  assumes tr: "tracks key window n (s, taken)" and w: "0 < window"
    and free: "rd_zcard R n key s < limit"
    and bound: "\<And>T. card (holders window T taken) \<le> nat limit"
  shows "card (holders window T ((n, j) # taken)) \<le> nat limit"
proof (cases "n \<le> T \<and> T - window < n")
  case False
  then have "holders window T ((n, j) # taken) = holders window T taken" by (auto simp: holders_def)
  with bound show ?thesis by simp
next
  case True
  have held: "holders window n taken \<subseteq> {i. rd_zscore R n key i s \<noteq> None}"
  proof
    fix i assume "i \<in> holders window n taken"
    then obtain t where "(t, i) \<in> set taken" "n - window < t" by (auto simp: holders_def)
    from tracksD(2) [OF tr this(1) order_refl this(2)] show "i \<in> {i. rd_zscore R n key i s \<noteq> None}" by auto
  qed
  have "holders window T ((n, j) # taken) \<subseteq> insert j (holders window n taken)"
    using True tracksD(1) [OF tr] by (fastforce simp: holders_def)
  then have "card (holders window T ((n, j) # taken)) \<le> card (insert j (holders window n taken))"
    by (rule card_mono [rotated]) simp
  also have "\<dots> \<le> Suc (card (holders window n taken))" by (rule card_insert_le_m1) simp_all
  also have "card (holders window n taken) \<le> card {i. rd_zscore R n key i s \<noteq> None}"
    by (rule card_mono [OF zset_finite held])
  finally show ?thesis using free by (simp add: zcard)
qed

definition within_limit :: "string \<Rightarrow> int \<Rightarrow> int \<Rightarrow> int \<Rightarrow> 'r \<times> (int \<times> uuid) list \<Rightarrow> bool" where
  "within_limit key window limit n st \<longleftrightarrow>
     tracks key window n st \<and> (\<forall>T. card (holders window T (snd st)) \<le> nat limit)"

lemma slot_step_within:
  assumes ok: "within_limit key window limit n st" and w: "0 < window" and t: "n \<le> t"
  shows "within_limit key window limit t (slot_step R key window limit (t, ev) st)"
proof -
  obtain s taken where st: "st = (s, taken)" by (cases st)
  have tr: "tracks key window t (s, taken)" and bound: "\<And>T. card (holders window T taken) \<le> nat limit"
    using ok tracks_later [OF _ t] by (auto simp: within_limit_def st)
  show ?thesis
  proof (cases ev)
    case (Acquire j)
    let ?s1 = "rd_zremrangebyscore R t key (t - window) s"
    note tr1 = tracks_trim [OF tr]
    show ?thesis
    proof (cases "rd_zscore R t key j ?s1 = None \<and> rd_zcard R t key ?s1 < limit")
      case True
      then show ?thesis
        using take_bound [OF tr1 w _ bound] tracks_take [OF tr1 w]
        by (simp add: Acquire st slot_step_def acquire_script_def within_limit_def)
    next
      case False
      then have "slot_step R key window limit (t, ev) st = (?s1, taken)"
        by (auto simp: Acquire st slot_step_def acquire_script_def Let_def split: option.splits)
      with tr1 bound show ?thesis by (simp add: within_limit_def)
    qed
  next
    case (Release j)
    have "card (holders window T (filter (\<lambda>p. snd p \<noteq> j) taken)) \<le> nat limit" for T
      using card_mono [OF finite_holders holders_mono, of "filter (\<lambda>p. snd p \<noteq> j) taken" taken window T] bound [of T]
      by auto
    with tracks_release [OF tr] show ?thesis by (simp add: Release st slot_step_def within_limit_def)
  qed
qed

lemma slot_run_within:
  assumes "within_limit key window limit n st" "0 < window" "sorted (n # map fst evs)"
  shows "\<exists>m. within_limit key window limit m (slot_run R key window limit evs st)"
  using assms
proof (induction evs arbitrary: n st)
  case Nil
  then show ?case by auto
next
  case (Cons ev evs)
  obtain t e where ev: "ev = (t, e)" by (cases ev)
  have "within_limit key window limit t (slot_step R key window limit ev st)"
    using slot_step_within [OF Cons.prems(1,2)] Cons.prems(3) by (simp add: ev)
  from Cons.IH [OF this Cons.prems(2)] Cons.prems(3) show ?case by (simp add: ev)
qed

lemma sliding_window:
  assumes "0 < window" "sorted (n # map fst evs)" "rd_get R n key s = None"
  shows "card (holders window T (snd (slot_run R key window limit evs (s, [])))) \<le> nat limit"
proof -
  have "within_limit key window limit n (s, [])"
    using assms(3) by (simp add: within_limit_def tracks_def holders_def)
  from slot_run_within [OF this assms(1,2)] show ?thesis by (auto simp: within_limit_def)
qed

end

text \<open>
  C25: over any run of the acquire script and of releases on a recipient's key, with the clock not
  going back, every window of the configured length contains at most \<open>limit\<close> jobs that took a slot
  in it and did not hand it back. The start may be any Redis state.
\<close>

theorem sliding_window_limit:
  assumes laws: "redis_laws R" and window: "0 < window" and clock: "sorted (n # map fst evs)"
    and key: "rd_get R n key s = None"
  shows "card (holders window T (snd (slot_run R key window limit evs (s, [])))) \<le> nat limit"
  by (rule redis_laws.sliding_window [OF laws window clock key])

lemma mem_eval:
  "rd_get mem_redis = mem_get" "rd_zremrangebyscore mem_redis t k b = mem_zmap t k (filter (\<lambda>p. b < snd p))"
  "rd_zscore mem_redis t k m s = map_of (mem_zset t k s) m" "rd_zcard mem_redis t k s = int (length (mem_zset t k s))"
  "rd_zadd mem_redis t k x m = mem_zmap t k (\<lambda>xs. (m, x) # AList.delete m xs)"
  "rd_pexpire mem_redis = mem_pexpire" "rd_zfirst mem_redis t k s = first (sort_key snd (mem_zset t k s))"
  "rd_zrem mem_redis t k m = mem_zmap t k (AList.delete m)"
  by (simp_all add: mem_redis_def)

lemmas mem_run = mem_eval acquire_script_def mem_zmap_def mem_find_def mem_zset_def mem_get_def mem_pexpire_def

theorem sliding_window_limit_witness:
  "snd (slot_run mem_redis ''k'' 1000 1 [(0, Acquire ''a''), (10, Acquire ''b'')] (\<lambda>_. None, [])) = [(0, ''a'')] \<and>
   card (holders 1000 500 (snd (slot_run mem_redis ''k'' 1000 1 [(0, Acquire ''a''), (10, Acquire ''b'')] (\<lambda>_. None, [])))) \<le> 1"
proof -
  let ?evs = "[(0, Acquire ''a''), (10, Acquire ''b'')]"
  have "card (holders 1000 500 (snd (slot_run mem_redis ''k'' 1000 1 ?evs (\<lambda>_. None, [])))) \<le> nat 1"
    by (rule sliding_window_limit [OF mem.redis_laws_axioms, where n = 0])
      (simp_all add: mem_eval mem_get_def mem_find_def)
  moreover have "snd (slot_run mem_redis ''k'' 1000 1 ?evs (\<lambda>_. None, [])) = [(0, ''a'')]"
    by (simp add: slot_step_def mem_run Let_def)
  ultimately show ?thesis by simp
qed

section \<open>Slots and waits\<close>

context redis_laws
begin

lemma taken_slot_is_reused:
  assumes key: "rd_get R t key s = None" and w: "t' < t + window" "t \<le> t'"
    and took: "acquire_script R t key window limit j s = (Reply (True, 0), s')"
      "rd_zscore R t key j (rd_zremrangebyscore R t key (t - window) s) = None"
  shows "acquire_script R t' key window limit j s' =
     (Reply (True, 0), rd_zremrangebyscore R t' key (t' - window) s')"
proof -
  let ?s1 = "rd_zremrangebyscore R t key (t - window) s"
  have window: "0 < window" using w by simp
  from took have s': "s' = rd_pexpire R t key window (rd_zadd R t key t j ?s1)"
    by (auto simp: acquire_script_def Let_def split: if_splits option.splits)
  have "rd_get R t key ?s1 = None" using key by (simp add: get_zremrangebyscore)
  then have "rd_zscore R t' key j s' = Some t"
    using w window by (simp add: s' zscore_pexpire zscore_zadd)
  moreover have "\<not> t \<le> t' - window" using w by simp
  ultimately have "rd_zscore R t' key j (rd_zremrangebyscore R t' key (t' - window) s') = Some t"
    by (simp add: zscore_zremrangebyscore)
  then show ?thesis by (simp add: acquire_script_def)
qed

lemma waiting_frees_a_slot:
  assumes denied: "acquire_script R t key window limit j s = (Reply (False, ms), s')"
    and full: "rd_zcard R t key s' = limit" and window: "0 < window"
  shows "0 < ms \<and> (\<exists>s''. acquire_script R (t + ms) key window limit i s' = (Reply (True, 0), s''))"
proof -
  from denied obtain k x where s': "s' = rd_zremrangebyscore R t key (t - window) s"
    and k: "rd_zfirst R t key s' = Some (k, x)" and ms: "ms = x + window - t"
    by (auto simp: acquire_script_def Let_def split: if_splits option.splits)
  have score: "rd_zscore R t key k s' = Some x" using zfirst_Some [OF k] by simp
  then have "t - window < x" by (auto simp: s' zscore_zremrangebyscore split: option.splits if_splits)
  then have pos: "0 < ms" by (simp add: ms)
  let ?s2 = "rd_zremrangebyscore R (t + ms) key (t + ms - window) s'"
  have "{m. rd_zscore R (t + ms) key m ?s2 \<noteq> None} \<subset> {m. rd_zscore R t key m s' \<noteq> None}"
  proof (rule psubsetI)
    show "{m. rd_zscore R (t + ms) key m ?s2 \<noteq> None} \<subseteq> {m. rd_zscore R t key m s' \<noteq> None}"
    proof
      fix m assume "m \<in> {m. rd_zscore R (t + ms) key m ?s2 \<noteq> None}"
      then obtain y where "rd_zscore R (t + ms) key m s' = Some y"
        by (auto simp: zscore_zremrangebyscore split: option.splits)
      with zscore_earlier [of t "t + ms" key m s' y] pos
      show "m \<in> {m. rd_zscore R t key m s' \<noteq> None}" by simp
    qed
    have "rd_zscore R (t + ms) key k ?s2 = None"
    proof (cases "rd_zscore R (t + ms) key k s'")
      case None
      then show ?thesis by (simp add: zscore_zremrangebyscore)
    next
      case (Some y)
      with zscore_earlier [of t "t + ms" key k s' y] pos score have "y = x" by simp
      with Some show ?thesis by (simp add: zscore_zremrangebyscore ms)
    qed
    then have "k \<notin> {m. rd_zscore R (t + ms) key m ?s2 \<noteq> None}" by simp
    moreover have "k \<in> {m. rd_zscore R t key m s' \<noteq> None}" using score by simp
    ultimately show "{m. rd_zscore R (t + ms) key m ?s2 \<noteq> None} \<noteq> {m. rd_zscore R t key m s' \<noteq> None}"
      by blast
  qed
  then have "card {m. rd_zscore R (t + ms) key m ?s2 \<noteq> None} < card {m. rd_zscore R t key m s' \<noteq> None}"
    by (rule psubset_card_mono [OF zset_finite])
  then have "rd_zcard R (t + ms) key ?s2 < limit" using full by (simp add: zcard)
  then show ?thesis using pos by (simp add: acquire_script_def Let_def)
qed

end

text \<open>
  A job that is claimed again, after a crash or a retry, within a window of taking its slot is
  admitted on that slot: the script adds no member for it.
\<close>

theorem reclaimed_job_reuses_slot:
  assumes laws: "redis_laws R" and key: "rd_get R t key s = None" and time: "t \<le> t'" "t' < t + window"
    and took: "acquire_script R t key window limit j s = (Reply (True, 0), s')"
      "rd_zscore R t key j (rd_zremrangebyscore R t key (t - window) s) = None"
  shows "acquire_script R t' key window limit j s' =
     (Reply (True, 0), rd_zremrangebyscore R t' key (t' - window) s')"
  by (rule redis_laws.taken_slot_is_reused [OF laws key time(2,1) took])

text \<open>A recipient with one slot, taken by job \<open>a\<close> at time 0.\<close>

definition demo_slot :: redis_store where
  "demo_slot = snd (acquire_script mem_redis 0 ''k'' 1000 1 ''a'' (\<lambda>_. None))"

lemma demo_slot_taken: "acquire_script mem_redis 0 ''k'' 1000 1 ''a'' (\<lambda>_. None) = (Reply (True, 0), demo_slot)"
  by (simp add: demo_slot_def mem_run)

lemma demo_slot_value: "demo_slot = [''k'' \<mapsto> (RZset [(''a'', 0)], Some 1000)]"
  by (simp add: demo_slot_def mem_run)

theorem reclaimed_job_reuses_slot_witness:
  "\<exists>s. acquire_script mem_redis 500 ''k'' 1000 1 ''a'' demo_slot = (Reply (True, 0), s)"
  using reclaimed_job_reuses_slot [OF mem.redis_laws_axioms _ _ _ demo_slot_taken, of 500]
  by (simp add: mem_run)

text \<open>
  The wait the script reports is positive and enough: when the window is full, a retry after
  exactly the reported milliseconds is admitted, for any job, if nobody else took the slot.
\<close>

theorem reported_wait_frees_a_slot:
  assumes laws: "redis_laws R" and denied: "acquire_script R t key window limit j s = (Reply (False, ms), s')"
    and full: "rd_zcard R t key s' = limit" and window: "0 < window"
  shows "0 < ms \<and> (\<exists>s''. acquire_script R (t + ms) key window limit i s' = (Reply (True, 0), s''))"
  by (rule redis_laws.waiting_frees_a_slot [OF laws denied full window])

theorem reported_wait_frees_a_slot_witness:
  "acquire_script mem_redis 400 ''k'' 1000 1 ''b'' demo_slot = (Reply (False, 600), demo_slot) \<and>
   (\<exists>s. acquire_script mem_redis 1000 ''k'' 1000 1 ''b'' demo_slot = (Reply (True, 0), s))"
proof -
  have denied: "acquire_script mem_redis 400 ''k'' 1000 1 ''b'' demo_slot = (Reply (False, 600), demo_slot)"
    by (simp add: demo_slot_value mem_run)
  with reported_wait_frees_a_slot [OF mem.redis_laws_axioms denied, of "''b''"] show ?thesis
    by (simp add: demo_slot_value mem_run)
qed

text \<open>
  Because a re-used slot keeps its first score, the sends themselves are not bounded by the limit in
  every window: with one slot per second, job \<open>a\<close> is admitted at 0 and, claimed again, at 999, and
  job \<open>b\<close> at 1000, one millisecond later.
\<close>

theorem reused_slot_exceeds_limit:
  "fst (acquire_script mem_redis 999 ''k'' 1000 1 ''a'' demo_slot) = Reply (True, 0) \<and>
   fst (acquire_script mem_redis 1000 ''k'' 1000 1 ''b''
     (snd (acquire_script mem_redis 999 ''k'' 1000 1 ''a'' demo_slot))) = Reply (True, 0)"
  by (simp add: demo_slot_value mem_run)

section \<open>The fixed window\<close>

definition bucket_count :: "db \<Rightarrow> string \<Rightarrow> time \<Rightarrow> int" where
  "bucket_count s r start =
     (case filter (\<lambda>b. b_recipient b = r \<and> b_window_start b = start) (rate_limit_buckets s) of
        [] \<Rightarrow> 0 | b # _ \<Rightarrow> b_count b)"

definition bucket_key :: "rate_limit_bucket \<Rightarrow> string \<times> time" where
  "bucket_key b = (b_recipient b, b_window_start b)"

definition buckets_ok :: "int \<Rightarrow> db \<Rightarrow> bool" where
  "buckets_ok limit s \<longleftrightarrow>
     distinct (map bucket_key (rate_limit_buckets s)) \<and>
     (\<forall>b\<in>set (rate_limit_buckets s). 1 \<le> b_count b \<and> b_count b \<le> max 1 limit)"

lemma bucket_filter: "(\<lambda>b. b_recipient b = r \<and> b_window_start b = start) = (\<lambda>b. bucket_key b = (r, start))"
  by (simp add: bucket_key_def fun_eq_iff)

lemma bucket_count_key:
  "bucket_count s r start = (case filter (\<lambda>b. bucket_key b = (r, start)) (rate_limit_buckets s) of
     [] \<Rightarrow> 0 | b # _ \<Rightarrow> b_count b)"
  by (simp add: bucket_count_def bucket_filter)

text \<open>The three outcomes of \<open>try_acquire_rate_limit\<close>: the first slot of a window, one more, and none left.\<close>

lemma first_slot:
  fixes env :: txenv
  assumes ok: "buckets_ok limit s" and window: "0 < window"
    and new: "filter (\<lambda>b. bucket_key b = (rcpt, window_start_at window (now env))) (rate_limit_buckets s) = []"
  defines "row \<equiv> \<lparr>b_recipient = rcpt, b_window_start = window_start_at window (now env), b_count = 1\<rparr>"
  defines "s' \<equiv> s\<lparr>rate_limit_buckets := rate_limit_buckets s @ [row]\<rparr>"
  shows "try_acquire_rate_limit env rcpt limit window s = Inr (None, s') \<and> buckets_ok limit s' \<and>
     bucket_count s rcpt (window_start_at window (now env)) = 0 \<and> bucket_count s' rcpt (window_start_at window (now env)) = 1 \<and>
     (\<forall>q st. (q, st) \<noteq> (rcpt, window_start_at window (now env)) \<longrightarrow> bucket_count s' q st = bucket_count s q st)"
proof (intro conjI allI impI)
  show "try_acquire_rate_limit env rcpt limit window s = Inr (None, s')"
    using new window by (simp add: try_acquire_rate_limit_def Let_def bucket_filter s'_def row_def)
  have "bucket_key row \<notin> set (map bucket_key (rate_limit_buckets s))"
    using new by (auto simp: filter_empty_conv row_def bucket_key_def)
  then show "buckets_ok limit s'" using ok by (auto simp: buckets_ok_def s'_def row_def)
  show "bucket_count s rcpt (window_start_at window (now env)) = 0" "bucket_count s' rcpt (window_start_at window (now env)) = 1"
    using new by (simp_all add: bucket_count_key s'_def) (simp add: bucket_key_def row_def)
  fix q st assume "(q, st) \<noteq> (rcpt, window_start_at window (now env))"
  then show "bucket_count s' q st = bucket_count s q st" by (auto simp: bucket_count_def s'_def row_def)
qed

lemma found_slot:
  assumes "filter (\<lambda>b. bucket_key b = key) bs = [b]"
  shows "filter (\<lambda>c. bucket_key c = key \<and> b_count c < limit) bs = (if b_count b < limit then [b] else [])"
proof -
  have "filter (\<lambda>c. bucket_key c = key \<and> b_count c < limit) bs = filter (\<lambda>c. b_count c < limit) (filter (\<lambda>c. bucket_key c = key) bs)"
    by (simp add: conj_commute)
  then show ?thesis by (simp add: assms)
qed

lemma no_slot:
  fixes env :: txenv
  assumes window: "0 < window" and full: "\<not> b_count b < limit"
    and old: "filter (\<lambda>b. bucket_key b = (rcpt, window_start_at window (now env))) (rate_limit_buckets s) = [b]"
  defines "d \<equiv> window_start_at window (now env) + window - now env"
  shows "try_acquire_rate_limit env rcpt limit window s = Inr (Some d, s) \<and> 0 < d \<and> d \<le> window"
proof -
  have wait: "(real_of_int \<lfloor>now env / window\<rfloor> + 1) * window - now env = d"
    by (simp add: d_def window_start_at_def algebra_simps)
  have "try_acquire_rate_limit env rcpt limit window s = Inr (Some d, s)"
    using found_slot [OF old] old window full wait by (simp add: try_acquire_rate_limit_def Let_def bucket_filter)
  then show ?thesis using next_window_wait(1,2) [OF window, of "now env"] wait by simp
qed

lemma one_more_slot:
  fixes env :: txenv
  assumes ok: "buckets_ok limit s" and window: "0 < window" and free: "b_count b < limit"
    and b: "b \<in> set (rate_limit_buckets s)" "bucket_key b = (rcpt, window_start_at window (now env))"
    and old: "filter (\<lambda>b. bucket_key b = (rcpt, window_start_at window (now env))) (rate_limit_buckets s) = [b]"
  defines "hit \<equiv> \<lambda>c. bucket_key c = (rcpt, window_start_at window (now env)) \<and> b_count c < limit"
  defines "s' \<equiv> s\<lparr>rate_limit_buckets := update_where hit (\<lambda>c. c\<lparr>b_count := b_count c + 1\<rparr>) (rate_limit_buckets s)\<rparr>"
  shows "try_acquire_rate_limit env rcpt limit window s = Inr (None, s') \<and> buckets_ok limit s' \<and>
     bucket_count s' rcpt (window_start_at window (now env)) = b_count b + 1 \<and>
     (\<forall>q st. (q, st) \<noteq> (rcpt, window_start_at window (now env)) \<longrightarrow> bucket_count s' q st = bucket_count s q st)"
proof (intro conjI allI impI)
  let ?up = "\<lambda>c. c\<lparr>b_count := b_count c + 1\<rparr>"
  show "try_acquire_rate_limit env rcpt limit window s = Inr (None, s')"
    using found_slot [OF old] old window free by (simp add: try_acquire_rate_limit_def Let_def bucket_filter s'_def hit_def)
  have keys: "bucket_key (c\<lparr>b_count := n\<rparr>) = bucket_key c" for c n by (simp add: bucket_key_def)
  show "buckets_ok limit s'"
    using ok by (fastforce simp: buckets_ok_def map_update_where_same keys s'_def hit_def)
  have rows: "filter (\<lambda>c. bucket_key c = (q, st)) (rate_limit_buckets s') =
      update_where hit ?up (filter (\<lambda>c. bucket_key c = (q, st)) (rate_limit_buckets s))" for q st
    by (simp add: filter_update_where_same keys s'_def)
  then show "bucket_count s' rcpt (window_start_at window (now env)) = b_count b + 1"
    using free b(2) by (simp add: bucket_count_key old) (simp add: update_where_def hit_def)
  fix q st assume "(q, st) \<noteq> (rcpt, window_start_at window (now env))"
  then have "update_where hit ?up (filter (\<lambda>c. bucket_key c = (q, st)) (rate_limit_buckets s)) =
      filter (\<lambda>c. bucket_key c = (q, st)) (rate_limit_buckets s)"
    by (intro update_where_idle) (auto simp: hit_def)
  with rows show "bucket_count s' q st = bucket_count s q st" by (simp add: bucket_count_key)
qed

text \<open>
  C36: the Postgres limiter admits exactly while the recipient's counter for the current window is
  below the limit, counts each admission once in that window and no other, never counts past the
  limit (past 1, when the limit is smaller: the first insert of a window is not conditional), and
  otherwise reports the time to the start of the next window.
\<close>

theorem fixed_window_limit:
  fixes env :: txenv
  assumes ok: "buckets_ok limit s" and window: "0 < window"
  defines "start \<equiv> window_start_at window (now env)"
  shows "\<exists>r s'. try_acquire_rate_limit env rcpt limit window s = Inr (r, s') \<and> buckets_ok limit s' \<and>
     (r = None \<longleftrightarrow> bucket_count s rcpt start < max 1 limit) \<and>
     bucket_count s' rcpt start = bucket_count s rcpt start + (if r = None then 1 else 0) \<and>
     bucket_count s' rcpt start \<le> max 1 limit \<and>
     (\<forall>q st. (q, st) \<noteq> (rcpt, start) \<longrightarrow> bucket_count s' q st = bucket_count s q st) \<and>
     (\<forall>d. r = Some d \<longrightarrow> s' = s \<and> now env + d = start + window \<and> 0 < d \<and> d \<le> window)"
proof -
  have dist: "distinct (map bucket_key (rate_limit_buckets s))"
    and range: "\<And>b. b \<in> set (rate_limit_buckets s) \<Longrightarrow> 1 \<le> b_count b \<and> b_count b \<le> max 1 limit"
    using ok by (auto simp: buckets_ok_def)
  consider (new) "filter (\<lambda>b. bucket_key b = (rcpt, start)) (rate_limit_buckets s) = []"
    | (old) b where "b \<in> set (rate_limit_buckets s)" "bucket_key b = (rcpt, start)"
        "filter (\<lambda>b. bucket_key b = (rcpt, start)) (rate_limit_buckets s) = [b]"
    using filter_key_at_most_one [OF dist, of "(rcpt, start)" "\<lambda>_. True"] by auto
  then show ?thesis
  proof cases
    case new
    from first_slot [OF ok window new [unfolded start_def]] show ?thesis by (fold start_def) auto
  next
    case (old b)
    have count: "bucket_count s rcpt start = b_count b" by (simp add: bucket_count_key old(3))
    show ?thesis
    proof (cases "b_count b < limit")
      case False
      from no_slot [OF window False old(3) [unfolded start_def]] show ?thesis
        using ok range [OF old(1)] False count by (fold start_def) auto
    next
      case True
      from one_more_slot [OF ok window True old [unfolded start_def]] show ?thesis
        using True count by (fold start_def) auto
    qed
  qed
qed

theorem fixed_window_limit_witness:
  "\<exists>s1 r s2. try_acquire_rate_limit demo_env ''ada'' 1 60 empty_db = Inr (None, s1) \<and>
     try_acquire_rate_limit demo_env ''ada'' 1 60 s1 = Inr (Some r, s2) \<and> 100 + r = 120"
proof -
  have e: "buckets_ok 1 empty_db" "bucket_count empty_db ''ada'' 60 = 0"
    by (simp_all add: buckets_ok_def bucket_count_def empty_db_def)
  have "\<lfloor>(100::real) / 60\<rfloor> = 1" by (rule floor_unique) simp_all
  then have start: "window_start_at 60 (now demo_env) = 60" by (simp add: window_start_at_def demo_env_def)
  from fixed_window_limit [OF e(1), of 60 demo_env "''ada''"] e(2) start obtain s1 where s1:
    "try_acquire_rate_limit demo_env ''ada'' 1 60 empty_db = Inr (None, s1)" "buckets_ok 1 s1"
    "bucket_count s1 ''ada'' 60 = 1" by auto
  from fixed_window_limit [OF s1(2), of 60 demo_env "''ada''"] s1(3) start obtain r s2 where
    "try_acquire_rate_limit demo_env ''ada'' 1 60 s1 = Inr (Some r, s2)" "now demo_env + r = 60 + 60" by auto
  with s1(1) show ?thesis by (auto simp: demo_env_def)
qed

text \<open>
  The reaper's clean-up removes only counters of windows that ended more than a window ago, so
  it never resets a counter that a limiter can still read.
\<close>

theorem cleanup_keeps_live_windows:
  assumes window: "0 < window" and cleanup: "delete_old_rate_limit_buckets env window s = Inr (n, s')"
    and later: "now env \<le> t"
  shows "bucket_count s' r (window_start_at window t) = bucket_count s r (window_start_at window t) \<and>
     set (rate_limit_buckets s') = {b \<in> set (rate_limit_buckets s). now env - window \<le> b_window_start b + window} \<and>
     int (length (rate_limit_buckets s)) = int (length (rate_limit_buckets s')) + n"
proof -
  let ?old = "\<lambda>b. b_window_start b < now env - window * 2"
  from cleanup have s': "s' = s\<lparr>rate_limit_buckets := delete_where ?old (rate_limit_buckets s)\<rparr>"
    and n: "n = int (length (filter ?old (rate_limit_buckets s)))"
    by (auto simp: delete_old_rate_limit_buckets_def Let_def)
  have "\<not> window_start_at window t < now env - window * 2"
    using next_window_wait(4) [OF window, of t] later window by linarith
  then have "filter (\<lambda>b. b_recipient b = r \<and> b_window_start b = window_start_at window t) (rate_limit_buckets s') =
      filter (\<lambda>b. b_recipient b = r \<and> b_window_start b = window_start_at window t) (rate_limit_buckets s)"
    by (auto simp: s' delete_where_def intro: filter_cong)
  then have "bucket_count s' r (window_start_at window t) = bucket_count s r (window_start_at window t)"
    by (simp add: bucket_count_def)
  moreover have "set (rate_limit_buckets s') = {b \<in> set (rate_limit_buckets s). now env - window \<le> b_window_start b + window}"
    by (auto simp: s' delete_where_def)
  moreover have "int (length (rate_limit_buckets s)) = int (length (rate_limit_buckets s')) + n"
    using sum_length_filter_compl [of ?old "rate_limit_buckets s"]
    by (simp add: s' delete_where_def n)
  ultimately show ?thesis by simp
qed

theorem cleanup_keeps_live_windows_witness:
  "\<exists>n s'. delete_old_rate_limit_buckets demo_env 30
       (empty_db\<lparr>rate_limit_buckets := [\<lparr>b_recipient = ''ada'', b_window_start = 0, b_count = 1\<rparr>]\<rparr>) = Inr (n, s') \<and>
     rate_limit_buckets s' = []"
proof -
  let ?s = "empty_db\<lparr>rate_limit_buckets := [\<lparr>b_recipient = ''ada'', b_window_start = 0, b_count = 1\<rparr>]\<rparr>"
  obtain n s' where d: "delete_old_rate_limit_buckets demo_env 30 ?s = Inr (n, s')"
    by (simp add: delete_old_rate_limit_buckets_def Let_def)
  from cleanup_keeps_live_windows [OF _ d, of 100 "''ada''"]
  have "set (rate_limit_buckets s') = {}" by (simp add: demo_env_def)
  with d show ?thesis by auto
qed

text \<open>
  A limit of zero does not stop sending: on an empty set the Redis script fails, the call falls back
  to Postgres, and the first insert of a window admits.
\<close>

theorem zero_limit_still_admits:
  assumes laws: "redis_laws R" and limit: "rate_limit_per_hour c \<le> 0" "0 < rate_limit_window_seconds c"
    and empty: "\<And>m. rd_zscore R (re_now (le_redis e)) (rl_key c (j_recipient j)) m (w_redis w) = None"
    and db: "rate_limit_buckets (w_db w) = []" "le_fate e = Commits" "re_fate (le_redis e) = RedisOk"
  shows "fst (redis_acquire R c e j w) = Inr None"
proof -
  let ?t = "re_now (le_redis e)" and ?k = "rl_key c (j_recipient j)"
  let ?s1 = "rd_zremrangebyscore R ?t ?k (?t - window_ms c) (w_redis w)"
  have none: "rd_zscore R ?t ?k m ?s1 = None" for m
    using empty by (simp add: redis_laws.zscore_zremrangebyscore [OF laws])
  then have "rd_zfirst R ?t ?k ?s1 = None" by (simp add: redis_laws.zfirst_None [OF laws])
  moreover have "rd_zcard R ?t ?k ?s1 = 0" by (simp add: redis_laws.zcard [OF laws] none)
  ultimately have "acquire_script R ?t ?k (window_ms c) (rate_limit_per_hour c) (j_id j) (w_redis w) = (ReplyError, ?s1)"
    using limit by (simp add: acquire_script_def none)
  with db limit show ?thesis
    by (simp add: redis_acquire_def cache_call_def some_reply_def postgres_acquire_def begin_tx_def
        try_acquire_rate_limit_def Let_def)
qed

end
