(* ===== verification/Api_Schemas.thy ===== *)
theory Api_Schemas
  imports Rate_Limiter_Properties "HOL-Library.Multiset" "HOL-Library.Char_ord"
    "HOL-Library.List_Lexorder"
begin

text \<open>
  The API models of \<open>domain/schemas.py\<close>: the validation of a scheduling request, its fingerprint
  \<open>request_hash\<close>, and the outgoing views of jobs and attempts. The URL parser of pydantic and the
  digest (SHA-256 of the canonical text) are parameters.
\<close>

section \<open>Requests\<close>

record raw_request =
  w_recipient :: string
  w_channel :: string
  w_payload :: dict
  w_priority :: "py_object option"
  w_send_at :: "time option"
  w_delay_seconds :: "real option"
  w_max_attempts :: "int option"
  w_callback_url :: "string option"
  w_idempotency_key :: "string option"

record schedule_request =
  q_recipient :: string
  q_channel :: channel
  q_payload :: dict
  q_priority :: priority
  q_send_at :: "time option"
  q_delay_seconds :: "real option"
  q_max_attempts :: "int option"
  q_callback_url :: "string option"
  q_idempotency_key :: "string option"

definition max_delay_seconds :: real where
  "max_delay_seconds = 365 * 24 * 3600"

definition all_channels :: "channel list" where
  "all_channels = [EMAIL, SMS, PUSH]"

definition parse_channel :: "string \<Rightarrow> channel option" where
  "parse_channel t = find (\<lambda>c. channel_value c = t) all_channels"

definition length_in :: "nat \<Rightarrow> nat \<Rightarrow> string \<Rightarrow> bool" where
  "length_in lo hi t \<longleftrightarrow> lo \<le> length t \<and> length t \<le> hi"

definition opt_all :: "('a \<Rightarrow> bool) \<Rightarrow> 'a option \<Rightarrow> bool" where
  "opt_all p x = (case x of None \<Rightarrow> True | Some v \<Rightarrow> p v)"

text \<open>
  The fields in the order of the class, then the validator that runs after them. Pydantic collects
  all field errors into one; only that there is one matters here.
\<close>

definition field_check :: "bool \<Rightarrow> string \<Rightarrow> unit result" where
  "field_check ok field = (if ok then Inr () else Inl (PyValueError field))"

definition parse_request :: "(string \<Rightarrow> string option) \<Rightarrow> raw_request \<Rightarrow> schedule_request result" where
  "parse_request parse_url r =
     bind_result (field_check (length_in 1 320 (w_recipient r)) ''recipient'') (\<lambda>_.
     bind_result (case parse_channel (w_channel r) of
        None \<Rightarrow> Inl (PyValueError ''channel'') | Some c \<Rightarrow> Inr c) (\<lambda>channel.
     bind_result (case w_priority r of None \<Rightarrow> Inr NORMAL | Some p \<Rightarrow> priority_parse p) (\<lambda>priority.
     bind_result (field_check (opt_all (\<lambda>d. 0 \<le> d \<and> d \<le> max_delay_seconds) (w_delay_seconds r)) ''delay_seconds'') (\<lambda>_.
     bind_result (field_check (opt_all (\<lambda>n. 1 \<le> n \<and> n \<le> 20) (w_max_attempts r)) ''max_attempts'') (\<lambda>_.
     bind_result (case w_callback_url r of
        None \<Rightarrow> Inr None
      | Some u \<Rightarrow> (case parse_url u of None \<Rightarrow> Inl (PyValueError ''callback_url'') | Some v \<Rightarrow> Inr (Some v))) (\<lambda>url.
     bind_result (field_check (opt_all (length_in 1 255) (w_idempotency_key r)) ''idempotency_key'') (\<lambda>_.
     bind_result (field_check (w_send_at r = None \<or> w_delay_seconds r = None)
        ''give either send_at or delay_seconds, not both'') (\<lambda>_.
     Inr \<lparr> q_recipient = w_recipient r, q_channel = channel, q_payload = w_payload r, q_priority = priority,
           q_send_at = w_send_at r, q_delay_seconds = w_delay_seconds r, q_max_attempts = w_max_attempts r,
           q_callback_url = url, q_idempotency_key = w_idempotency_key r \<rparr>))))))))"

section \<open>The fingerprint\<close>

text \<open>\<open>json.dumps(.., sort_keys=True)\<close> sorts the keys of every object.\<close>

fun sort_keys :: "json \<Rightarrow> json" where
  "sort_keys (JObj kvs) = JObj (sort_key fst (map (\<lambda>(k, v). (k, sort_keys v)) kvs))"
| "sort_keys (JArr vs) = JArr (map sort_keys vs)"
| "sort_keys JNull = JNull"
| "sort_keys (JBool b) = JBool b"
| "sort_keys (JInt n) = JInt n"
| "sort_keys (JNum x) = JNum x"
| "sort_keys (JStr t) = JStr t"
| "sort_keys (JIso t) = JIso t"

definition opt_json :: "('a \<Rightarrow> json) \<Rightarrow> 'a option \<Rightarrow> json" where
  "opt_json f x = (case x of None \<Rightarrow> JNull | Some v \<Rightarrow> f v)"

definition request_body :: "schedule_request \<Rightarrow> dict" where
  "request_body q =
     [(''recipient'', JStr (q_recipient q)),
      (''channel'', JStr (channel_value (q_channel q))),
      (''payload'', JObj (q_payload q)),
      (''priority'', JStr (priority_dump (q_priority q))),
      (''send_at'', opt_json JIso (q_send_at q)),
      (''delay_seconds'', opt_json JNum (q_delay_seconds q)),
      (''max_attempts'', opt_json JInt (q_max_attempts q)),
      (''callback_url'', opt_json JStr (q_callback_url q))]"

definition request_hash :: "(json \<Rightarrow> string) \<Rightarrow> schedule_request \<Rightarrow> string" where
  "request_hash digest q = digest (sort_keys (JObj (request_body q)))"

section \<open>Responses\<close>

record attempt_out =
  ao_attempt_no :: int
  ao_worker_id :: "string option"
  ao_outcome :: outcome
  ao_error :: "string option"
  ao_started_at :: "time option"
  ao_finished_at :: time

definition attempt_out_of :: "job_attempt \<Rightarrow> attempt_out" where
  "attempt_out_of a =
     \<lparr> ao_attempt_no = a_attempt_no a, ao_worker_id = a_worker_id a, ao_outcome = a_outcome a,
       ao_error = a_error a, ao_started_at = a_started_at a, ao_finished_at = a_finished_at a \<rparr>"

record job_out =
  jo_id :: uuid
  jo_idempotency_key :: "string option"
  jo_recipient :: string
  jo_channel :: channel
  jo_payload :: dict
  jo_priority :: priority
  jo_status :: job_status
  jo_retrying :: bool
  jo_run_at :: time
  jo_attempts :: int
  jo_max_attempts :: int
  jo_last_error :: "string option"
  jo_callback_url :: "string option"
  jo_version :: int
  jo_created_at :: time
  jo_updated_at :: time
  jo_sent_at :: "time option"
  jo_attempt_history :: "attempt_out list option"

definition job_out_of :: "job \<Rightarrow> job_out" where
  "job_out_of j =
     \<lparr> jo_id = j_id j, jo_idempotency_key = j_idempotency_key j, jo_recipient = j_recipient j,
       jo_channel = j_channel j, jo_payload = j_payload j, jo_priority = j_priority j,
       jo_status = j_status j, jo_retrying = is_retrying j, jo_run_at = j_run_at j,
       jo_attempts = j_attempts j, jo_max_attempts = j_max_attempts j, jo_last_error = j_last_error j,
       jo_callback_url = j_callback_url j, jo_version = j_version j, jo_created_at = j_created_at j,
       jo_updated_at = j_updated_at j, jo_sent_at = j_sent_at j, jo_attempt_history = None \<rparr>"

lemma job_out_of_simps [simp]:
  "jo_id (job_out_of j) = j_id j" "jo_version (job_out_of j) = j_version j" "jo_status (job_out_of j) = j_status j"
  "jo_attempt_history (job_out_of j) = None"
  by (simp_all add: job_out_of_def)

section \<open>Properties\<close>

lemma field_check_Inr [simp]: "field_check ok f = Inr u \<longleftrightarrow> ok"
  by (simp add: field_check_def)

lemma find_channel: "find (\<lambda>c. channel_value c = t) all_channels = Some c \<longleftrightarrow> channel_value c = t"
proof -
  have "find (\<lambda>c. channel_value c = channel_value d) all_channels = Some d" for d
    by (induction d) code_simp+
  moreover have "channel_value c = t" if "find (\<lambda>c. channel_value c = t) all_channels = Some c"
    using that by (auto simp: find_Some_iff)
  ultimately show ?thesis by blast
qed

text \<open>When the parts that are parsed are accepted.\<close>

lemma channel_accepted:
  "(case parse_channel t of None \<Rightarrow> Inl x | Some c \<Rightarrow> Inr c) = Inr c \<longleftrightarrow> channel_value c = t"
  using find_channel [of t c] by (cases "parse_channel t") (simp_all add: parse_channel_def)

lemma priority_accepted:
  "(case w of None \<Rightarrow> Inr NORMAL | Some x \<Rightarrow> priority_parse x) = Inr p \<longleftrightarrow>
     (case w of None \<Rightarrow> p = NORMAL | Some x \<Rightarrow> priority_parse x = Inr p)"
  by (cases w) auto

lemma url_accepted:
  "(case w of None \<Rightarrow> Inr None | Some x \<Rightarrow> (case parse_url x of None \<Rightarrow> Inl y | Some v \<Rightarrow> Inr (Some v))) = Inr u \<longleftrightarrow>
     (case w of None \<Rightarrow> u = None | Some x \<Rightarrow> u \<noteq> None \<and> parse_url x = u)"
  by (cases w; cases u) (auto split: option.split)

text \<open>
  C37: a request is accepted exactly when every field is in its range, the channel and the priority
  are known, the URL parses, and not both a time and a delay are given; the accepted request carries
  the fields unchanged, with normal priority when none is given.
\<close>

theorem parse_request_accepts:
  "parse_request parse_url r = Inr q \<longleftrightarrow>
     1 \<le> length (w_recipient r) \<and> length (w_recipient r) \<le> 320 \<and>
     channel_value (q_channel q) = w_channel r \<and>
     (case w_priority r of None \<Rightarrow> q_priority q = NORMAL | Some p \<Rightarrow> priority_parse p = Inr (q_priority q)) \<and>
     opt_all (\<lambda>d. 0 \<le> d \<and> d \<le> max_delay_seconds) (w_delay_seconds r) \<and>
     opt_all (\<lambda>n. 1 \<le> n \<and> n \<le> 20) (w_max_attempts r) \<and>
     (case w_callback_url r of None \<Rightarrow> q_callback_url q = None
      | Some u \<Rightarrow> q_callback_url q \<noteq> None \<and> parse_url u = q_callback_url q) \<and>
     opt_all (\<lambda>k. 1 \<le> length k \<and> length k \<le> 255) (w_idempotency_key r) \<and>
     (w_send_at r = None \<or> w_delay_seconds r = None) \<and>
     q_recipient q = w_recipient r \<and> q_payload q = w_payload r \<and> q_send_at q = w_send_at r \<and>
     q_delay_seconds q = w_delay_seconds r \<and> q_max_attempts q = w_max_attempts r \<and>
     q_idempotency_key q = w_idempotency_key r"
proof -
  let ?channel = "case parse_channel (w_channel r) of None \<Rightarrow> Inl (PyValueError ''channel'') | Some c \<Rightarrow> Inr c"
  let ?priority = "case w_priority r of None \<Rightarrow> Inr NORMAL | Some p \<Rightarrow> priority_parse p"
  let ?url = "case w_callback_url r of None \<Rightarrow> Inr None
    | Some u \<Rightarrow> (case parse_url u of None \<Rightarrow> Inl (PyValueError ''callback_url'') | Some v \<Rightarrow> Inr (Some v))"
  let ?q = "\<lambda>c p u. \<lparr> q_recipient = w_recipient r, q_channel = c, q_payload = w_payload r, q_priority = p,
    q_send_at = w_send_at r, q_delay_seconds = w_delay_seconds r, q_max_attempts = w_max_attempts r,
    q_callback_url = u, q_idempotency_key = w_idempotency_key r \<rparr>"
  let ?checks = "1 \<le> length (w_recipient r) \<and> length (w_recipient r) \<le> 320 \<and>
     opt_all (\<lambda>d. 0 \<le> d \<and> d \<le> max_delay_seconds) (w_delay_seconds r) \<and>
     opt_all (\<lambda>n. 1 \<le> n \<and> n \<le> 20) (w_max_attempts r) \<and>
     opt_all (\<lambda>k. 1 \<le> length k \<and> length k \<le> 255) (w_idempotency_key r) \<and>
     (w_send_at r = None \<or> w_delay_seconds r = None)"
  have len: "length_in a b = (\<lambda>t. a \<le> length t \<and> length t \<le> b)" for a b by (simp add: length_in_def fun_eq_iff)
  have "parse_request parse_url r = Inr q \<longleftrightarrow>
      ?checks \<and> (\<exists>c p u. ?channel = Inr c \<and> ?priority = Inr p \<and> ?url = Inr u \<and> ?q c p u = q)"
    unfolding parse_request_def bind_result_Inr_iff field_check_Inr len sum.inject
    by (rule iffI; elim exE conjE; intro conjI exI; assumption)
  also have "(\<exists>c p u. ?channel = Inr c \<and> ?priority = Inr p \<and> ?url = Inr u \<and> ?q c p u = q) \<longleftrightarrow>
      ?channel = Inr (q_channel q) \<and> ?priority = Inr (q_priority q) \<and>
      ?url = Inr (q_callback_url q) \<and> ?q (q_channel q) (q_priority q) (q_callback_url q) = q"
  proof -
    have "(\<exists>c p u. A c \<and> B p \<and> C u \<and> ?q c p u = q) \<longleftrightarrow> A (q_channel q) \<and> B (q_priority q) \<and>
        C (q_callback_url q) \<and> ?q (q_channel q) (q_priority q) (q_callback_url q) = q" for A B C
      by (cases q) auto
    then show ?thesis .
  qed
  also have "?q (q_channel q) (q_priority q) (q_callback_url q) = q \<longleftrightarrow>
      q_recipient q = w_recipient r \<and> q_payload q = w_payload r \<and> q_send_at q = w_send_at r \<and>
      q_delay_seconds q = w_delay_seconds r \<and> q_max_attempts q = w_max_attempts r \<and>
      q_idempotency_key q = w_idempotency_key r"
    by (cases q) auto
  finally show ?thesis unfolding channel_accepted priority_accepted url_accepted by (simp only: conj_ac)
qed

lemma sort_key_perm:
  assumes d: "distinct (map k xs)" and p: "mset ys = mset xs"
  shows "sort_key k ys = sort_key k xs"
proof (rule properties_for_sort_key)
  show "mset (sort_key k xs) = mset ys" using p by simp
  show "sorted (map k (sort_key k xs))" by simp
  fix r assume r: "r \<in> set (sort_key k xs)"
  have dy: "distinct (map k ys)"
  proof -
    have "mset (map k ys) = mset (map k xs)" using p by simp
    then show ?thesis using d by (metis mset_eq_imp_distinct_iff)
  qed
  have "r \<in> set xs" "r \<in> set ys" using r p by (simp_all flip: set_mset_mset)
  moreover have "distinct (map k (sort_key k xs))" using d by simp
  ultimately have "filter (\<lambda>x. k x = k r) (sort_key k xs) = [r]" "filter (\<lambda>x. k x = k r) ys = [r]"
    using r dy by (simp_all add: filter_key_unique)
  then show "filter (\<lambda>x. k r = k x) (sort_key k xs) = filter (\<lambda>x. k r = k x) ys"
    by (simp add: eq_commute)
qed

lemma sort_keys_perm:
  assumes "distinct (map fst d)" "mset d' = mset d"
  shows "sort_keys (JObj d') = sort_keys (JObj d)"
proof -
  let ?f = "\<lambda>(k, v). (k, sort_keys v)"
  have "map fst (map ?f d) = map fst d" by (induction d) auto
  then have "distinct (map fst (map ?f d))" using assms(1) by (simp only:)
  moreover have "mset (map ?f d') = mset (map ?f d)" using assms(2) by simp
  ultimately show ?thesis by (simp add: sort_key_perm)
qed

lemma sort_keys_lookup:
  assumes "sort_keys (JObj d) = sort_keys (JObj e)" "distinct (map fst d)" "distinct (map fst e)"
  shows "map_option sort_keys (map_of d k) = map_option sort_keys (map_of e k)"
proof -
  let ?f = "\<lambda>(k, v). (k, sort_keys v)"
  have keys: "map fst (map ?f d) = map fst d" for d by (induction d) auto
  have dist: "distinct (map fst (map ?f d))" "distinct (map fst (map ?f e))" using assms(2,3) by (simp_all only: keys)
  have "sort_key fst (map ?f d) = sort_key fst (map ?f e)" using assms(1) by simp
  then have "set (map ?f d) = set (map ?f e)" by (metis set_sort)
  then have "map_of (map ?f d) = map_of (map ?f e)" using map_of_inject_set [OF dist] by blast
  then show ?thesis by (simp add: map_of_map fun_eq_iff)
qed

lemma priority_dump_inj: "priority_dump p = priority_dump q \<longleftrightarrow> p = q"
proof -
  have "priority_parse (PyStr (priority_dump p)) = Inr p" for p by (induction p) code_simp+
  then show ?thesis by (metis sum.inject(2))
qed

lemma channel_value_inj: "channel_value c = channel_value d \<longleftrightarrow> c = d"
  by (cases c; cases d) simp_all

lemma request_body_lookup:
  "map_of (request_body q) ''recipient'' = Some (JStr (q_recipient q))"
  "map_of (request_body q) ''channel'' = Some (JStr (channel_value (q_channel q)))"
  "map_of (request_body q) ''payload'' = Some (JObj (q_payload q))"
  "map_of (request_body q) ''priority'' = Some (JStr (priority_dump (q_priority q)))"
  "map_of (request_body q) ''send_at'' = Some (opt_json JIso (q_send_at q))"
  "map_of (request_body q) ''delay_seconds'' = Some (opt_json JNum (q_delay_seconds q))"
  "map_of (request_body q) ''max_attempts'' = Some (opt_json JInt (q_max_attempts q))"
  "map_of (request_body q) ''callback_url'' = Some (opt_json JStr (q_callback_url q))"
  by (simp_all add: request_body_def)

lemma request_body_distinct: "distinct (map fst (request_body q))"
  by (simp add: request_body_def)

lemma opt_json_inj:
  "sort_keys (opt_json JIso x) = sort_keys (opt_json JIso x') \<longleftrightarrow> x = x'"
  "sort_keys (opt_json JNum y) = sort_keys (opt_json JNum y') \<longleftrightarrow> y = y'"
  "sort_keys (opt_json JInt n) = sort_keys (opt_json JInt n') \<longleftrightarrow> n = n'"
  "sort_keys (opt_json JStr t) = sort_keys (opt_json JStr t') \<longleftrightarrow> t = t'"
  by (auto simp: opt_json_def split: option.splits)

text \<open>
  C38: the fingerprint does not depend on the idempotency key, nor on the order in which the payload
  lists its keys; requests whose canonical bodies the digest tells apart get the same fingerprint
  only if recipient, channel, priority, times, attempts, URL and sorted payload all agree.
\<close>

theorem request_hash_canonical:
  assumes payload: "distinct (map fst (q_payload q))" "mset d = mset (q_payload q)"
    and digest: "digest (sort_keys (JObj (request_body p))) = digest (sort_keys (JObj (request_body q))) \<Longrightarrow>
      sort_keys (JObj (request_body p)) = sort_keys (JObj (request_body q))"
  shows "request_hash digest (q\<lparr>q_payload := d, q_idempotency_key := k\<rparr>) = request_hash digest q \<and>
     (request_hash digest p = request_hash digest q \<longrightarrow>
        q_recipient p = q_recipient q \<and> q_channel p = q_channel q \<and> q_priority p = q_priority q \<and>
        q_send_at p = q_send_at q \<and> q_delay_seconds p = q_delay_seconds q \<and>
        q_max_attempts p = q_max_attempts q \<and> q_callback_url p = q_callback_url q \<and>
        sort_keys (JObj (q_payload p)) = sort_keys (JObj (q_payload q)))"
proof (intro conjI impI)
  have "request_hash digest (q\<lparr>q_payload := d, q_idempotency_key := k\<rparr>) =
      digest (sort_keys (JObj (request_body (q\<lparr>q_payload := d\<rparr>))))"
    by (simp add: request_hash_def request_body_def)
  moreover have "sort_keys (JObj (request_body (q\<lparr>q_payload := d\<rparr>))) = sort_keys (JObj (request_body q))"
    using sort_keys_perm [OF payload] by (simp add: request_body_def)
  ultimately show "request_hash digest (q\<lparr>q_payload := d, q_idempotency_key := k\<rparr>) = request_hash digest q"
    by (simp only: request_hash_def)
next
  assume "request_hash digest p = request_hash digest q"
  then have same: "sort_keys (JObj (request_body p)) = sort_keys (JObj (request_body q))"
    using digest by (simp only: request_hash_def)
  note look = sort_keys_lookup [OF same request_body_distinct request_body_distinct]
  show "q_recipient p = q_recipient q" using look [of "''recipient''"] by (simp add: request_body_lookup)
  show "q_channel p = q_channel q" using look [of "''channel''"] by (simp add: request_body_lookup channel_value_inj)
  show "q_priority p = q_priority q" using look [of "''priority''"] by (simp add: request_body_lookup priority_dump_inj)
  show "q_send_at p = q_send_at q" using look [of "''send_at''"] by (simp add: request_body_lookup opt_json_inj)
  show "q_delay_seconds p = q_delay_seconds q"
    using look [of "''delay_seconds''"] by (simp add: request_body_lookup opt_json_inj)
  show "q_max_attempts p = q_max_attempts q"
    using look [of "''max_attempts''"] by (simp add: request_body_lookup opt_json_inj)
  show "q_callback_url p = q_callback_url q"
    using look [of "''callback_url''"] by (simp add: request_body_lookup opt_json_inj)
  show "sort_keys (JObj (q_payload p)) = sort_keys (JObj (q_payload q))"
    using look [of "''payload''"] by (simp only: request_body_lookup option.map option.inject)
qed

definition demo_request :: schedule_request where
  "demo_request =
     \<lparr> q_recipient = ''ada@example.com'', q_channel = EMAIL, q_payload = [(''b'', JInt 1), (''a'', JInt 2)],
       q_priority = HIGH, q_send_at = None, q_delay_seconds = None, q_max_attempts = None,
       q_callback_url = None, q_idempotency_key = Some ''k1'' \<rparr>"

text \<open>A digest for the witnesses that keeps the recipient and nothing else.\<close>

definition demo_digest :: "json \<Rightarrow> string" where
  "demo_digest v = (case v of JObj kvs \<Rightarrow> (case map_of kvs ''recipient'' of Some (JStr t) \<Rightarrow> t | _ \<Rightarrow> []) | _ \<Rightarrow> [])"

theorem request_hash_canonical_witness:
  "request_hash demo_digest (demo_request\<lparr>q_payload := [(''a'', JInt 2), (''b'', JInt 1)], q_idempotency_key := None\<rparr>) =
   request_hash demo_digest demo_request"
proof -
  have "distinct (map fst (q_payload demo_request))"
    "mset [(''a'', JInt 2), (''b'', JInt 1)] = mset (q_payload demo_request)"
    by (simp_all add: demo_request_def)
  from request_hash_canonical [OF this, of demo_digest demo_request None] show ?thesis by blast
qed

end
