(* ===== verification/Job_Cache.thy ===== *)
theory Job_Cache
  imports Api_Schemas
begin

text \<open>
  \<open>cache/job_cache.py\<close>: versioned job entries with tombstones, written by the Lua script
  \<open>_SET_IF_NEWER\<close>, and the idempotency-key entries. The JSON codec of pydantic is a parameter; what
  the code relies on is that it reads back what it wrote and never writes the empty text.
\<close>

record job_codec =
  jc_dump :: "job_out \<Rightarrow> string"
  jc_load :: "string \<Rightarrow> job_out result"

definition reads_back :: "job_codec \<Rightarrow> job_out \<Rightarrow> bool" where
  "reads_back K j \<longleftrightarrow> jc_dump K j \<noteq> [] \<and> jc_load K (jc_dump K j) = Inr j"

section \<open>The script\<close>

text \<open>\<open>string.find(s, '|', 1, true)\<close> and Python's \<open>s.partition('|')\<close>.\<close>

definition before_bar :: "string \<Rightarrow> string" where
  "before_bar s = takeWhile (\<lambda>c. c \<noteq> CHR ''|'') s"

definition after_bar :: "string \<Rightarrow> string" where
  "after_bar s = drop 1 (dropWhile (\<lambda>c. c \<noteq> CHR ''|'') s)"

text \<open>The version of an entry; a text without a bar, or whose head is no number, has none.\<close>

definition entry_version :: "string \<Rightarrow> int option" where
  "entry_version s = (if CHR ''|'' \<in> set s then read_int (before_bar s) else None)"

definition set_if_newer ::
  "'r redis_cmds \<Rightarrow> int \<Rightarrow> string \<Rightarrow> int \<Rightarrow> string \<Rightarrow> int \<Rightarrow> 'r \<Rightarrow> int redis_reply \<times> 'r"
where
  "set_if_newer R t key version body ttl s =
     (if (case rd_get R t key s of
            None \<Rightarrow> False
          | Some current \<Rightarrow> (case entry_version current of None \<Rightarrow> False | Some v \<Rightarrow> version < v))
      then (Reply 0, s)
      else case redis_set R t key (show_int version @ ''|'' @ body) ttl s of
             (Reply _, s') \<Rightarrow> (Reply 1, s')
           | (ReplyError, s') \<Rightarrow> (ReplyError, s'))"

section \<open>\<open>JobCache\<close>\<close>

definition job_key :: "settings \<Rightarrow> uuid \<Rightarrow> string" where
  "job_key c i = cache_key (redis_key_prefix c) [''job'', i]"

definition idem_key :: "settings \<Rightarrow> string \<Rightarrow> string" where
  "idem_key c k = cache_key (redis_key_prefix c) [''idem'', k]"

definition parse_entry :: "job_codec \<Rightarrow> string option \<Rightarrow> job_out option result" where
  "parse_entry K raw =
     (case raw of
        None \<Rightarrow> Inr None
      | Some text \<Rightarrow>
          if after_bar text = [] then Inr None
          else bind_result (jc_load K (after_bar text)) (\<lambda>j. Inr (Some j)))"

definition cache_get_job ::
  "'r redis_cmds \<Rightarrow> job_codec \<Rightarrow> settings \<Rightarrow> redis_env \<Rightarrow> uuid \<Rightarrow> 'r \<Rightarrow> job_out option result \<times> 'r"
where
  "cache_get_job R K c e i s =
     (let (raw, s') = cache_call (cache_enabled c) (re_fate e) (redis_get R (re_now e) (job_key c i)) None s
      in (parse_entry K raw, s'))"

definition cache_write ::
  "'r redis_cmds \<Rightarrow> settings \<Rightarrow> redis_env \<Rightarrow> uuid \<Rightarrow> int \<Rightarrow> string \<Rightarrow> int \<Rightarrow> 'r \<Rightarrow> bool \<times> 'r"
where
  "cache_write R c e i version body ttl s =
     (if \<not> cache_enabled c then (False, s)
      else let (written, s') = cache_call (cache_enabled c) (re_fate e)
                 (set_if_newer R (re_now e) (job_key c i) version body ttl) 0 s
           in (written \<noteq> 0, s'))"

definition job_ttl :: "settings \<Rightarrow> job_status \<Rightarrow> int" where
  "job_ttl c st = (if is_terminal st then cache_job_ttl_terminal c else cache_job_ttl_active c)"

definition cache_put_job ::
  "'r redis_cmds \<Rightarrow> job_codec \<Rightarrow> settings \<Rightarrow> redis_env \<Rightarrow> job_out \<Rightarrow> 'r \<Rightarrow> bool \<times> 'r"
where
  "cache_put_job R K c e j s =
     cache_write R c e (jo_id j) (jo_version j) (jc_dump K (j\<lparr>jo_attempt_history := None\<rparr>))
       (job_ttl c (jo_status j)) s"

definition cache_invalidate_job ::
  "'r redis_cmds \<Rightarrow> settings \<Rightarrow> redis_env \<Rightarrow> uuid \<Rightarrow> int \<Rightarrow> 'r \<Rightarrow> 'r"
where
  "cache_invalidate_job R c e i new_version s =
     snd (cache_write R c e i new_version [] (cache_tombstone_ttl c) s)"

text \<open>\<open>UUID(text)\<close> is the parameter \<open>parse_uuid\<close>; \<open>None\<close> stands for its \<open>ValueError\<close>.\<close>

definition parse_idem_entry :: "(string \<Rightarrow> uuid option) \<Rightarrow> string option \<Rightarrow> (uuid \<times> string) option result" where
  "parse_idem_entry parse_uuid raw =
     (case raw of
        None \<Rightarrow> Inr None
      | Some text \<Rightarrow>
          if text = [] then Inr None
          else (case parse_uuid (before_bar text) of
                  None \<Rightarrow> Inl (PyValueError ''badly formed hexadecimal UUID string'')
                | Some i \<Rightarrow> Inr (Some (i, after_bar text))))"

definition cache_get_idempotency ::
  "'r redis_cmds \<Rightarrow> (string \<Rightarrow> uuid option) \<Rightarrow> settings \<Rightarrow> redis_env \<Rightarrow> string \<Rightarrow> 'r \<Rightarrow>
   (uuid \<times> string) option result \<times> 'r"
where
  "cache_get_idempotency R parse_uuid c e k s =
     (let (raw, s') = cache_call (cache_enabled c) (re_fate e) (redis_get R (re_now e) (idem_key c k)) None s
      in (parse_idem_entry parse_uuid raw, s'))"

definition cache_put_idempotency ::
  "'r redis_cmds \<Rightarrow> settings \<Rightarrow> redis_env \<Rightarrow> string \<Rightarrow> uuid \<Rightarrow> string \<Rightarrow> 'r \<Rightarrow> 'r"
where
  "cache_put_idempotency R c e k i h s =
     snd (cache_call (cache_enabled c) (re_fate e)
       (redis_set R (re_now e) (idem_key c k) (i @ ''|'' @ h) (cache_idempotency_ttl c)) None s)"

section \<open>Entries\<close>

lemma bar_split:
  "CHR ''|'' \<notin> set a \<Longrightarrow> before_bar (a @ ''|'' @ b) = a"
  "CHR ''|'' \<notin> set a \<Longrightarrow> after_bar (a @ ''|'' @ b) = b"
  by (induction a) (auto simp: before_bar_def after_bar_def)

lemma entry_version_written [simp]: "entry_version (show_int v @ ''|'' @ body) = Some v"
  by (simp only: entry_version_def bar_split(1) [OF show_int_no_bar]) (simp add: read_show_int)

lemma entry_body_written [simp]: "after_bar (show_int v @ ''|'' @ body) = body"
  by (rule bar_split(2) [OF show_int_no_bar])

text \<open>The version that an entry of the cache would hold against a write.\<close>

definition cached_version :: "'r redis_cmds \<Rightarrow> settings \<Rightarrow> int \<Rightarrow> uuid \<Rightarrow> 'r \<Rightarrow> int option" where
  "cached_version R c t i s = Option.bind (rd_get R t (job_key c i) s) entry_version"

context redis_laws
begin

lemma set_if_newer_cases:
  assumes "0 < ttl"
  obtains (refused) v where "cached_version R c t i s = Some v" "version < v"
      "set_if_newer R t (job_key c i) version body ttl s = (Reply 0, s)"
  | (written) "\<And>v. cached_version R c t i s = Some v \<Longrightarrow> v \<le> version"
      "set_if_newer R t (job_key c i) version body ttl s =
         (Reply 1, rd_set_ex R t (job_key c i) (show_int version @ ''|'' @ body) ttl s)"
proof (cases "cached_version R c t i s")
  case None
  then have "set_if_newer R t (job_key c i) version body ttl s =
      (Reply 1, rd_set_ex R t (job_key c i) (show_int version @ ''|'' @ body) ttl s)"
    using assms by (cases "rd_get R t (job_key c i) s") (auto simp: set_if_newer_def cached_version_def redis_set_def)
  then show thesis by (rule written [rotated]) (simp add: None)
next
  case (Some v)
  then obtain cur where cur: "rd_get R t (job_key c i) s = Some cur" "entry_version cur = Some v"
    by (auto simp: cached_version_def bind_eq_Some_conv)
  show thesis
  proof (cases "version < v")
    case True
    with Some cur show thesis by (intro refused) (auto simp: set_if_newer_def)
  next
    case False
    with Some cur assms show thesis by (intro written) (auto simp: set_if_newer_def redis_set_def)
  qed
qed

lemma cached_version_written:
  assumes "0 < ttl" "t \<le> t'" "t' < t + 1000 * ttl"
  shows "cached_version R c t' i (rd_set_ex R t (job_key c i) (show_int v @ ''|'' @ body) ttl s) = Some v"
  using assms by (simp add: cached_version_def get_set del: append.simps)

lemma cached_version_other:
  assumes "0 < ttl" "t \<le> t'" "i' \<noteq> i"
  shows "cached_version R c t' i' (rd_set_ex R t (job_key c i) text ttl s) = cached_version R c t' i' s"
  using assms by (simp add: cached_version_def get_set job_key_def)

end

section \<open>Runs of cache writes\<close>

datatype cache_op = PutJob job_out | InvalidateJob uuid int

definition cache_step :: "'r redis_cmds \<Rightarrow> job_codec \<Rightarrow> settings \<Rightarrow> redis_env \<times> cache_op \<Rightarrow> 'r \<Rightarrow> 'r" where
  "cache_step R K c op s =
     (case op of
        (e, PutJob j) \<Rightarrow> snd (cache_put_job R K c e j s)
      | (e, InvalidateJob i v) \<Rightarrow> cache_invalidate_job R c e i v s)"

fun cache_run :: "'r redis_cmds \<Rightarrow> job_codec \<Rightarrow> settings \<Rightarrow> (redis_env \<times> cache_op) list \<Rightarrow> 'r \<Rightarrow> 'r" where
  "cache_run R K c [] s = s"
| "cache_run R K c (op # ops) s = cache_run R K c ops (cache_step R K c op s)"

definition strip_history :: "job_out \<Rightarrow> job_out" where
  "strip_history j = j\<lparr>jo_attempt_history := None\<rparr>"

definition codec_ok :: "job_codec \<Rightarrow> (redis_env \<times> cache_op) list \<Rightarrow> bool" where
  "codec_ok K ops \<longleftrightarrow> (\<forall>(e, op)\<in>set ops. case op of PutJob j \<Rightarrow> reads_back K (strip_history j) | InvalidateJob i v \<Rightarrow> True)"

definition min_ttl :: "settings \<Rightarrow> int" where
  "min_ttl c = min (cache_tombstone_ttl c) (min (cache_job_ttl_active c) (cache_job_ttl_terminal c))"

text \<open>An entry that is no older than version \<open>v\<close>: a tombstone or a job of that version or later.\<close>

definition entry_at_least :: "job_codec \<Rightarrow> int \<Rightarrow> string \<Rightarrow> bool" where
  "entry_at_least K v text \<longleftrightarrow>
     (\<exists>u\<ge>v. entry_version text = Some u \<and>
        (after_bar text = [] \<or> (\<exists>j. jc_load K (after_bar text) = Inr j \<and> jo_version j = u)))"

lemma parse_entry_at_least:
  "entry_at_least K v text \<Longrightarrow> parse_entry K (Some text) = Inr None \<or>
     (\<exists>j. parse_entry K (Some text) = Inr (Some j) \<and> v \<le> jo_version j)"
  by (auto simp: entry_at_least_def parse_entry_def)

context redis_laws
begin

text \<open>From \<open>n\<close> until \<open>h\<close> the key of job \<open>i\<close> holds an entry of version \<open>v\<close> or later.\<close>

definition guarded :: "job_codec \<Rightarrow> settings \<Rightarrow> uuid \<Rightarrow> int \<Rightarrow> int \<Rightarrow> int \<Rightarrow> 'r \<Rightarrow> bool" where
  "guarded K c i v h n s \<longleftrightarrow>
     (\<forall>m. n \<le> m \<longrightarrow> m < h \<longrightarrow> (\<exists>text. rd_get R m (job_key c i) s = Some text \<and> entry_at_least K v text))"

lemma guardedD:
  "guarded K c i v h n s \<Longrightarrow> n \<le> m \<Longrightarrow> m < h \<Longrightarrow>
     \<exists>text. rd_get R m (job_key c i) s = Some text \<and> entry_at_least K v text"
  by (simp add: guarded_def)

lemma guarded_later: "guarded K c i v h n s \<Longrightarrow> n \<le> n' \<Longrightarrow> guarded K c i v h n' s"
  by (auto simp: guarded_def)

lemma guarded_version: "guarded K c i v h n s \<Longrightarrow> n < h \<Longrightarrow> \<exists>u\<ge>v. cached_version R c n i s = Some u"
  using guardedD [of K c i v h n s n] by (auto simp: cached_version_def entry_at_least_def)

lemma guarded_set:
  assumes g: "i' = i \<Longrightarrow> v \<le> w \<and> entry_at_least K v (show_int w @ ''|'' @ body) \<and> h \<le> t + 1000 * ttl"
    and other: "i' \<noteq> i \<Longrightarrow> guarded K c i v h t s" and ttl: "0 < ttl"
  shows "guarded K c i v h t (rd_set_ex R t (job_key c i') (show_int w @ ''|'' @ body) ttl s)"
proof (cases "i' = i")
  case True
  with g ttl show ?thesis by (auto simp: guarded_def get_set)
next
  case False
  with other ttl show ?thesis by (auto simp: guarded_def get_set job_key_def)
qed

lemma guarded_write:
  assumes g: "guarded K c i v h t s" and h: "t < h" "h \<le> t + 1000 * ttl" and ttl: "0 < ttl"
    and body: "body = [] \<or> (\<exists>j. jc_load K body = Inr j \<and> jo_version j = w)"
    and t: "t = re_now e"
  shows "guarded K c i v h t (snd (cache_write R c e i' w body ttl s))"
proof -
  have "guarded K c i v h t (snd (set_if_newer R t (job_key c i') w body ttl s))"
    using ttl
  proof (cases rule: set_if_newer_cases [where c = c and t = t and i = i' and s = s and version = w and body = body])
    case (refused u)
    with g show ?thesis by simp
  next
    case written
    have new: "v \<le> w \<and> entry_at_least K v (show_int w @ ''|'' @ body) \<and> h \<le> t + 1000 * ttl" if "i' = i"
    proof -
      obtain u where "v \<le> u" "cached_version R c t i s = Some u" using guarded_version [OF g h(1)] by blast
      with written(1) that have "v \<le> w" by force
      with body h(2) show ?thesis
        by (simp add: entry_at_least_def del: append.simps)
    qed
    have "guarded K c i v h t (rd_set_ex R t (job_key c i') (show_int w @ ''|'' @ body) ttl s)"
      by (rule guarded_set [OF new _ ttl]) (simp_all only: g)
    with written(2) show ?thesis by (simp only: snd_conv)
  qed
  with g show ?thesis
    by (simp add: cache_write_def Let_def split_beta t cache_call_keeps [where P = "guarded K c i v h (re_now e)"])
qed

lemma guarded_step:
  assumes g: "guarded K c i v h n s" and n: "n \<le> re_now e" "re_now e < h" "h \<le> n + 1000 * min_ttl c"
    and ttl: "0 < min_ttl c" and K: "codec_ok K [(e, op)]"
  shows "guarded K c i v h (re_now e) (cache_step R K c (e, op) s)"
proof -
  note g' = guarded_later [OF g n(1)]
  have h: "h \<le> re_now e + 1000 * ttl'" if "min_ttl c \<le> ttl'" for ttl' using n that by linarith
  show ?thesis
  proof (cases op)
    case (PutJob j)
    have "min_ttl c \<le> job_ttl c (jo_status j)" by (auto simp: min_ttl_def job_ttl_def)
    moreover have "jc_load K (jc_dump K (strip_history j)) = Inr (strip_history j)"
      using K by (simp add: codec_ok_def PutJob reads_back_def)
    ultimately show ?thesis
      using guarded_write [OF g' n(2) h _ _ refl, of "job_ttl c (jo_status j)" "jc_dump K (strip_history j)" "jo_version j" "jo_id j"] ttl
      by (auto simp: PutJob cache_step_def cache_put_job_def strip_history_def)
  next
    case (InvalidateJob k w)
    have "min_ttl c \<le> cache_tombstone_ttl c" by (simp add: min_ttl_def)
    then show ?thesis
      using guarded_write [OF g' n(2) h _ _ refl, of "cache_tombstone_ttl c" "[]" w k] ttl
      by (auto simp: InvalidateJob cache_step_def cache_invalidate_job_def)
  qed
qed

lemma guarded_run:
  assumes "guarded K c i v h n s" "sorted (n # map (\<lambda>op. re_now (fst op)) ops)" "0 < min_ttl c"
    "\<And>op. op \<in> set ops \<Longrightarrow> re_now (fst op) < h" "h \<le> n + 1000 * min_ttl c" "codec_ok K ops"
  shows "\<exists>m. guarded K c i v h m (cache_run R K c ops s) \<and> (\<forall>op\<in>set ops. re_now (fst op) \<le> m) \<and> n \<le> m \<and>
     (m = n \<or> (\<exists>op\<in>set ops. m = re_now (fst op)))"
  using assms
proof (induction ops arbitrary: n s)
  case Nil
  then show ?case by auto
next
  case (Cons eop ops)
  obtain e op where eop: "eop = (e, op)" by (cases eop)
  have n: "n \<le> re_now e" "re_now e < h" using Cons.prems(2) Cons.prems(4) [of eop] by (auto simp: eop)
  have "guarded K c i v h (re_now e) (cache_step R K c eop s)"
    unfolding eop using Cons.prems n by (intro guarded_step) (auto simp: codec_ok_def eop)
  moreover have "sorted (re_now e # map (\<lambda>op. re_now (fst op)) ops)" using Cons.prems(2) by (auto simp: eop comp_def)
  moreover have "h \<le> re_now e + 1000 * min_ttl c" using Cons.prems(5) n(1) by linarith
  moreover have "codec_ok K ops" using Cons.prems(6) by (auto simp: codec_ok_def)
  ultimately obtain m where "guarded K c i v h m (cache_run R K c ops (cache_step R K c eop s))"
    "\<forall>op\<in>set ops. re_now (fst op) \<le> m" "re_now e \<le> m" "m = re_now e \<or> (\<exists>op\<in>set ops. m = re_now (fst op))"
    using Cons.IH [of "re_now e" "cache_step R K c eop s"] Cons.prems(3,4) by auto
  with n(1) show ?case by (intro exI [of _ m]) (auto simp: eop)
qed

lemma invalidation_guards:
  assumes on: "cache_enabled c" "re_fate e = RedisOk" and ttl: "0 < cache_tombstone_ttl c"
    and h: "h \<le> re_now e + 1000 * cache_tombstone_ttl c"
    and old: "\<And>u. cached_version R c (re_now e) i s = Some u \<Longrightarrow> u \<le> v"
  shows "guarded K c i v h (re_now e) (cache_invalidate_job R c e i v s)"
  using ttl
proof (cases rule: set_if_newer_cases [where c = c and t = "re_now e" and i = i and s = s and version = v and body = "[]"])
  case (refused u)
  with old [OF refused(1)] show ?thesis by simp
next
  case written
  have "entry_at_least K v (show_int v @ ''|'' @ [])"
    unfolding entry_at_least_def entry_version_written entry_body_written by blast
  then have "guarded K c i v h (re_now e)
      (rd_set_ex R (re_now e) (job_key c i) (show_int v @ ''|'' @ []) (cache_tombstone_ttl c) s)"
    using ttl h by (intro guarded_set) simp_all
  with written(2) on show ?thesis by (simp add: cache_invalidate_job_def cache_write_def cache_call_def)
qed

lemma guarded_read:
  assumes g: "guarded K c i v h n s" and n: "n \<le> re_now e" "re_now e < h"
  shows "\<exists>r. fst (cache_get_job R K c e i s) = Inr r \<and> (\<forall>j. r = Some j \<longrightarrow> v \<le> jo_version j)"
proof -
  obtain raw where raw: "rd_get R (re_now e) (job_key c i) s = Some raw" "entry_at_least K v raw"
    using guardedD [OF g n] by blast
  have "fst (cache_get_job R K c e i s) = parse_entry K None \<or> fst (cache_get_job R K c e i s) = parse_entry K (Some raw)"
    using raw(1) by (auto simp: cache_get_job_def cache_call_def redis_get_def Let_def split: redis_fate.splits)
  then show ?thesis
    using parse_entry_at_least [OF raw(2)] by (auto simp: parse_entry_def)
qed

end

section \<open>Properties\<close>

text \<open>Whatever is put and invalidated after an invalidation, in its lifetime no reader goes back behind it.\<close>

lemma reads_after_invalidation:
  assumes laws: "redis_laws R" and on: "cache_enabled c" "re_fate e = RedisOk" and ttl: "0 < min_ttl c"
    and current: "\<And>u. cached_version R c (re_now e) i s = Some u \<Longrightarrow> u \<le> v"
    and clock: "sorted (map re_now (e # map fst ops @ [e']))"
    and soon: "re_now e' < re_now e + 1000 * min_ttl c" and codec: "codec_ok K ops"
  shows "\<exists>r. fst (cache_get_job R K c e' i (cache_run R K c ops (cache_invalidate_job R c e i v s))) = Inr r \<and>
     (\<forall>j. r = Some j \<longrightarrow> v \<le> jo_version j)"
proof -
  let ?h = "re_now e + 1000 * min_ttl c"
  let ?s = "cache_invalidate_job R c e i v s"
  have tomb: "0 < cache_tombstone_ttl c" "min_ttl c \<le> cache_tombstone_ttl c" using ttl by (auto simp: min_ttl_def)
  have g: "redis_laws.guarded R K c i v ?h (re_now e) ?s"
    using tomb current by (intro redis_laws.invalidation_guards [OF laws on]) auto
  have times: "sorted (re_now e # map (\<lambda>op. re_now (fst op)) ops)" "\<And>op. op \<in> set ops \<Longrightarrow> re_now (fst op) \<le> re_now e'"
    "re_now e \<le> re_now e'"
    using clock by (auto simp: sorted_append comp_def)
  have before: "re_now (fst op) < ?h" if "op \<in> set ops" for op using times(2) [OF that] soon by linarith
  obtain m where "redis_laws.guarded R K c i v ?h m (cache_run R K c ops ?s)"
    "m = re_now e \<or> (\<exists>op\<in>set ops. m = re_now (fst op))"
    using redis_laws.guarded_run [OF laws g times(1) ttl before order_refl codec] by blast
  moreover from this(2) have "m \<le> re_now e'" using times by auto
  ultimately show ?thesis using redis_laws.guarded_read [OF laws _ _ soon] by blast
qed

text \<open>
  C26: the race of the module's comment is closed, in any number of steps: once a status change to
  version \<open>v\<close> has been invalidated, then for as long as the shortest of the three lifetimes, and
  whatever readers put and workers invalidate in between, in any order, with any version, and with any
  Redis failures, a read of the job's entry gives a miss or a job of version \<open>v\<close> or later.
\<close>

theorem no_stale_read_after_invalidation:
  assumes laws: "redis_laws R" and on: "cache_enabled c" "re_fate e = RedisOk" and ttl: "0 < min_ttl c"
    and current: "\<And>u. cached_version R c (re_now e) i s = Some u \<Longrightarrow> u \<le> v"
    and clock: "sorted (map re_now (e # map fst ops @ [e']))"
    and soon: "re_now e' < re_now e + 1000 * min_ttl c" and codec: "codec_ok K ops"
  shows "\<exists>r. fst (cache_get_job R K c e' i (cache_run R K c ops (cache_invalidate_job R c e i v s))) = Inr r \<and>
     (\<forall>j. r = Some j \<longrightarrow> v \<le> jo_version j)"
  by (rule reads_after_invalidation [OF assms])

definition demo_out :: job_out where
  "demo_out = job_out_of demo_job"

text \<open>A codec that is right for one job: its text is a single letter.\<close>

definition demo_codec :: job_codec where
  "demo_codec = \<lparr>jc_dump = (\<lambda>_. ''x''), jc_load = (\<lambda>_. Inr demo_out)\<rparr>"

lemma demo_reads_back: "reads_back demo_codec demo_out"
  by (simp add: reads_back_def demo_codec_def)

definition redis_at :: "int \<Rightarrow> redis_env" where
  "redis_at t = \<lparr>re_fate = RedisOk, re_now = t\<rparr>"

lemma redis_at_simps [simp]: "re_fate (redis_at t) = RedisOk" "re_now (redis_at t) = t"
  by (simp_all add: redis_at_def)

theorem no_stale_read_after_invalidation_witness:
  "\<exists>r. fst (cache_get_job mem_redis demo_codec default_settings (redis_at 2000) ''j1''
     (cache_run mem_redis demo_codec default_settings [(redis_at 1000, PutJob demo_out)]
       (cache_invalidate_job mem_redis default_settings (redis_at 0) ''j1'' 2 (\<lambda>_. None)))) = Inr r \<and>
     (\<forall>j. r = Some j \<longrightarrow> 2 \<le> jo_version j)"
proof (rule no_stale_read_after_invalidation [OF mem.redis_laws_axioms])
  show "codec_ok demo_codec [(redis_at 1000, PutJob demo_out)]"
    using demo_reads_back by (simp add: codec_ok_def strip_history_def demo_out_def job_out_of_def)
  fix u assume "cached_version mem_redis default_settings (re_now (redis_at 0)) ''j1'' (\<lambda>_. None) = Some u"
  then show "u \<le> 2" by (simp add: cached_version_def mem_eval mem_get_def mem_find_def)
qed (simp_all add: default_settings_def min_ttl_def)

context redis_laws
begin

lemma put_get:
  assumes on: "cache_enabled c" "re_fate e = RedisOk" "re_fate e' = RedisOk"
    and ttl: "0 < job_ttl c (jo_status j)" and K: "reads_back K (strip_history j)"
    and soon: "re_now e \<le> re_now e'" "re_now e' < re_now e + 1000 * job_ttl c (jo_status j)"
  shows "(\<forall>u. cached_version R c (re_now e) (jo_id j) s = Some u \<longrightarrow> u \<le> jo_version j) \<and>
       (\<exists>s'. cache_put_job R K c e j s = (True, s') \<and>
             cache_get_job R K c e' (jo_id j) s' = (Inr (Some (strip_history j)), s')) \<or>
     (\<exists>u. cached_version R c (re_now e) (jo_id j) s = Some u \<and> jo_version j < u) \<and>
       cache_put_job R K c e j s = (False, s)"
  using ttl
proof (cases rule: set_if_newer_cases [where c = c and t = "re_now e" and i = "jo_id j" and s = s
      and version = "jo_version j" and body = "jc_dump K (strip_history j)"])
  case (refused u)
  then show ?thesis
    using on by (auto simp: cache_put_job_def cache_write_def cache_call_def strip_history_def)
next
  case written
  let ?text = "show_int (jo_version j) @ ''|'' @ jc_dump K (strip_history j)"
  let ?s' = "rd_set_ex R (re_now e) (job_key c (jo_id j)) ?text (job_ttl c (jo_status j)) s"
  have put: "cache_put_job R K c e j s = (True, ?s')"
    using written(2) on by (simp add: cache_put_job_def cache_write_def cache_call_def strip_history_def)
  have "rd_get R (re_now e') (job_key c (jo_id j)) ?s' = Some ?text"
    using soon ttl by (simp add: get_set)
  moreover have "parse_entry K (Some ?text) = Inr (Some (strip_history j))"
    using K unfolding parse_entry_def option.case entry_body_written by (simp add: reads_back_def)
  ultimately have "cache_get_job R K c e' (jo_id j) ?s' = (Inr (Some (strip_history j)), ?s')"
    using on unfolding cache_get_job_def cache_call_def redis_get_def by (simp only: redis_fate.case if_False not_True_eq_False prod.case Let_def redis_reply.case)
  with put written(1) show ?thesis by blast
qed

end

text \<open>
  C39: a job put into the cache, unless the cache already holds a newer version, can be read back
  until its lifetime ends, without its attempt history; a tombstone of the same or an older version is
  replaced. When a newer version is cached the put changes nothing and says so.
\<close>

theorem cache_put_get:
  assumes laws: "redis_laws R" and on: "cache_enabled c" "re_fate e = RedisOk" "re_fate e' = RedisOk"
    and ttl: "0 < job_ttl c (jo_status j)" and K: "reads_back K (strip_history j)"
    and soon: "re_now e \<le> re_now e'" "re_now e' < re_now e + 1000 * job_ttl c (jo_status j)"
  shows "(\<forall>u. cached_version R c (re_now e) (jo_id j) s = Some u \<longrightarrow> u \<le> jo_version j) \<and>
       (\<exists>s'. cache_put_job R K c e j s = (True, s') \<and>
             cache_get_job R K c e' (jo_id j) s' = (Inr (Some (strip_history j)), s')) \<or>
     (\<exists>u. cached_version R c (re_now e) (jo_id j) s = Some u \<and> jo_version j < u) \<and>
       cache_put_job R K c e j s = (False, s)"
  by (rule redis_laws.put_get [OF laws on ttl K soon])

theorem cache_put_get_witness:
  "\<exists>s'. cache_put_job mem_redis demo_codec default_settings (redis_at 0) demo_out (\<lambda>_. None) = (True, s') \<and>
     cache_get_job mem_redis demo_codec default_settings (redis_at 9000) ''j1'' s' = (Inr (Some demo_out), s')"
proof -
  have out: "strip_history demo_out = demo_out" "jo_id demo_out = ''j1''" "jo_status demo_out = PENDING"
    by (simp_all add: strip_history_def demo_out_def) (simp_all add: job_out_of_def demo_defs)
  have none: "cached_version mem_redis default_settings 0 i (\<lambda>_. None) = None" for i
    by (simp add: cached_version_def mem_eval mem_get_def mem_find_def)
  have "0 < job_ttl default_settings PENDING" "cache_enabled default_settings"
    "9000 < 1000 * job_ttl default_settings PENDING"
    by (simp_all add: default_settings_def job_ttl_def is_terminal_def)
  then show ?thesis
    using cache_put_get [OF mem.redis_laws_axioms, of default_settings "redis_at 0" "redis_at 9000" demo_out demo_codec
        "\<lambda>_. None"] demo_reads_back
    by (simp add: out none)
qed

text \<open>
  An idempotency entry reads back as the job and fingerprint that were stored, for its lifetime
  and no longer, and storing one key leaves every other key's entry as it was.
\<close>

theorem idempotency_entry_roundtrip:
  assumes laws: "redis_laws R" and on: "cache_enabled c" "re_fate e = RedisOk" "re_fate e' = RedisOk"
    and ttl: "0 < cache_idempotency_ttl c" and i: "parse_uuid i = Some i" "CHR ''|'' \<notin> set i"
    and time: "re_now e \<le> re_now e'"
  shows "fst (cache_get_idempotency R parse_uuid c e' k' (cache_put_idempotency R c e k i h s)) =
     (if k' = k then Inr (if re_now e' < re_now e + 1000 * cache_idempotency_ttl c then Some (i, h) else None)
      else fst (cache_get_idempotency R parse_uuid c e' k' s))"
proof -
  have put: "cache_put_idempotency R c e k i h s =
      rd_set_ex R (re_now e) (idem_key c k) (i @ ''|'' @ h) (cache_idempotency_ttl c) s"
    using on ttl by (simp add: cache_put_idempotency_def cache_call_def redis_set_def)
  have get: "fst (cache_get_idempotency R parse_uuid c e' k' s') =
      parse_idem_entry parse_uuid (rd_get R (re_now e') (idem_key c k') s')" for s'
    using on by (simp add: cache_get_idempotency_def cache_call_def redis_get_def Let_def)
  have "parse_idem_entry parse_uuid (Some (i @ ''|'' @ h)) = Inr (Some (i, h))"
    using i(1) unfolding parse_idem_entry_def option.case bar_split [OF i(2)] by simp
  then show ?thesis
    using ttl time unfolding get put redis_laws.get_set [OF laws ttl time]
    by (simp add: idem_key_def parse_idem_entry_def)
qed

theorem idempotency_entry_roundtrip_witness:
  "fst (cache_get_idempotency mem_redis Some default_settings (redis_at 5) ''k1''
     (cache_put_idempotency mem_redis default_settings (redis_at 0) ''k1'' ''j1'' ''h1'' (\<lambda>_. None))) =
   Inr (Some (''j1'', ''h1''))"
  using idempotency_entry_roundtrip [OF mem.redis_laws_axioms, of default_settings "redis_at 0" "redis_at 5" Some "''j1''"
      "''k1''" "''k1''" "''h1''" "\<lambda>_. None"]
  by (simp add: default_settings_def)

end
