(* ===== verification/Cache_Entries.thy ===== *)
theory Cache_Entries
  imports Job_Cache
begin

text \<open>
  A way to state what a Redis store may hold: \<open>entries R P n s\<close> says that every key that can be read
  at time \<open>n\<close> or later holds a text that \<open>P\<close> allows for that key. The operations of the caches and of
  the rate limiter keep such a statement as long as \<open>P\<close> allows what they write.
\<close>

definition entries :: "'r redis_cmds \<Rightarrow> (string \<Rightarrow> string \<Rightarrow> bool) \<Rightarrow> int \<Rightarrow> 'r \<Rightarrow> bool" where
  "entries R P n s \<longleftrightarrow> (\<forall>m\<ge>n. \<forall>k t. rd_get R m k s = Some t \<longrightarrow> P k t)"

lemma entriesI: "(\<And>m k t. n \<le> m \<Longrightarrow> rd_get R m k s = Some t \<Longrightarrow> P k t) \<Longrightarrow> entries R P n s"
  by (simp add: entries_def)

lemma entriesD: "entries R P n s \<Longrightarrow> n \<le> m \<Longrightarrow> rd_get R m k s = Some t \<Longrightarrow> P k t"
  by (simp add: entries_def)

lemma entries_later: "entries R P n s \<Longrightarrow> n \<le> n' \<Longrightarrow> entries R P n' s"
  unfolding entries_def by (meson order_trans)

lemma entries_mono: "entries R P n s \<Longrightarrow> (\<And>k t. P k t \<Longrightarrow> Q k t) \<Longrightarrow> entries R Q n s"
  by (simp add: entries_def)

text \<open>A change that only loses entries.\<close>

definition forgets :: "'r redis_cmds \<Rightarrow> 'r \<Rightarrow> 'r \<Rightarrow> bool" where
  "forgets R s s' \<longleftrightarrow> (\<forall>m k t. rd_get R m k s' = Some t \<longrightarrow> rd_get R m k s = Some t)"

lemma entries_forgets: "entries R P n s \<Longrightarrow> forgets R s s' \<Longrightarrow> entries R P n s'"
  by (simp add: entries_def forgets_def)

lemma entries_reads [simp]:
  "snd (cache_get_job R K c e i s) = s" "snd (cache_get_idempotency R pu c e k s) = s"
  by (simp_all add: cache_get_job_def cache_get_idempotency_def cache_call_def redis_get_def Let_def split_beta
      split: redis_fate.splits)

context redis_laws
begin

lemma entries_set:
  assumes "entries R P n s" "n \<le> t" "0 < ttl" "P key text"
  shows "entries R P t (rd_set_ex R t key text ttl s)"
proof (rule entriesI)
  fix m k u assume m: "t \<le> m" and u: "rd_get R m k (rd_set_ex R t key text ttl s) = Some u"
  show "P k u"
  proof (cases "k = key")
    case True
    with u assms(3,4) m show ?thesis by (simp add: get_set split: if_splits)
  next
    case False
    with u assms(3) m have "rd_get R m k s = Some u" by (simp add: get_set)
    with m assms(2) show ?thesis by (intro entriesD [OF assms(1), of m]) simp_all
  qed
qed

lemma entries_redis_set:
  "entries R P n s \<Longrightarrow> n \<le> t \<Longrightarrow> P key text \<Longrightarrow> entries R P t (snd (redis_set R t key text ttl s))"
  by (auto simp: redis_set_def entries_set entries_later)

lemma entries_del:
  assumes "entries R P n s" shows "entries R P n (rd_del R k s)"
proof (rule entriesI)
  fix m k' u assume m: "n \<le> m" and u: "rd_get R m k' (rd_del R k s) = Some u"
  with entriesD [OF assms] show "P k' u" by (simp add: get_del split: if_splits)
qed

lemma entries_zsets:
  assumes "entries R P t s"
  shows "entries R P t (rd_zremrangebyscore R t k b s)" "entries R P t (rd_zadd R t k x m s)"
    "entries R P t (rd_zrem R t k m s)"
  using assms by (auto simp: entries_def get_zremrangebyscore get_zadd get_zrem)

lemma entries_pexpire:
  assumes "entries R P t s" "\<And>u. P k u" shows "entries R P t (rd_pexpire R t k w s)"
proof (rule entriesI)
  fix m k' u assume m: "t \<le> m" and u: "rd_get R m k' (rd_pexpire R t k w s) = Some u"
  show "P k' u"
  proof (cases "k' = k")
    case False
    with u m have "rd_get R m k' s = Some u" by (simp add: get_pexpire)
    with entriesD [OF assms(1) m] show ?thesis .
  qed (use assms(2) in simp)
qed

section \<open>The rate limiter\<close>

lemma entries_acquire_script:
  assumes "entries R P t s" "\<And>u. P key u"
  shows "entries R P t (snd (acquire_script R t key window limit job s))"
  using assms by (auto simp: acquire_script_def Let_def entries_zsets entries_pexpire split: option.splits prod.splits)

lemma entries_acquire:
  assumes s: "entries R P n (w_redis w)" and n: "n \<le> re_now (le_redis e)" and P: "\<And>r u. P (rl_key c r) u"
  shows "entries R P (re_now (le_redis e)) (w_redis (snd (rl_acquire (build_rate_limiter R c) e j w)))"
proof -
  note s' = entries_later [OF s n]
  let ?fn = "\<lambda>s. some_reply (acquire_script R (re_now (le_redis e)) (rl_key c (j_recipient j)) (window_ms c)
                    (rate_limit_per_hour c) (j_id j) s)"
  have "snd (?fn (w_redis w)) = snd (acquire_script R (re_now (le_redis e)) (rl_key c (j_recipient j)) (window_ms c)
                    (rate_limit_per_hour c) (j_id j) (w_redis w))"
    by (simp add: some_reply_def split: prod.splits redis_reply.splits)
  then have "entries R P (re_now (le_redis e)) (snd (cache_call True (re_fate (le_redis e)) ?fn None (w_redis w)))"
    using s' P by (intro cache_call_keeps [where P = "entries R P (re_now (le_redis e))"]) (simp_all only: entries_acquire_script)
  then have "entries R P (re_now (le_redis e)) (w_redis (snd (redis_acquire R c e j w)))"
    by (auto simp: redis_acquire_def postgres_acquire_def split: prod.splits option.splits)
  with s' show ?thesis
    by (simp add: build_rate_limiter_def redis_limiter_def postgres_limiter_def postgres_acquire_def)
qed

lemma entries_release:
  assumes s: "entries R P n (w_redis w)" and n: "n \<le> re_now (le_redis e)"
  shows "entries R P (re_now (le_redis e)) (w_redis (rl_release (build_rate_limiter R c) e j w))"
proof -
  note s' = entries_later [OF s n]
  have "entries R P (re_now (le_redis e)) (snd (cache_call True (re_fate (le_redis e))
      (\<lambda>s. (Reply (), rd_zrem R (re_now (le_redis e)) (rl_key c (j_recipient j)) (j_id j) s)) () (w_redis w)))"
    by (rule cache_call_keeps [where P = "entries R P (re_now (le_redis e))"]) (simp_all add: s' entries_zsets)
  then have "entries R P (re_now (le_redis e)) (w_redis (redis_release R c e j w))"
    by (simp add: redis_release_def)
  with s' show ?thesis
    by (simp add: build_rate_limiter_def redis_limiter_def postgres_limiter_def postgres_release_def)
qed

section \<open>The job cache\<close>

lemma entries_write:
  assumes s: "entries R P n s" and n: "n \<le> re_now e" and P: "P (job_key c i) (show_int v @ ''|'' @ body)"
  shows "entries R P (re_now e) (snd (cache_write R c e i v body ttl s))"
proof -
  note s' = entries_later [OF s n]
  have "snd (set_if_newer R (re_now e) (job_key c i) v body ttl s) \<in>
      {s, snd (redis_set R (re_now e) (job_key c i) (show_int v @ ''|'' @ body) ttl s)}"
    by (auto simp: set_if_newer_def split: prod.splits redis_reply.splits)
  then have "entries R P (re_now e) (snd (set_if_newer R (re_now e) (job_key c i) v body ttl s))"
    using s' entries_redis_set [OF s n P, where ttl = ttl] by auto
  with s' show ?thesis
    by (simp add: cache_write_def Let_def split_beta cache_call_keeps [where P = "entries R P (re_now e)"])
qed

lemma entries_put_job:
  assumes "entries R P n s" "n \<le> re_now e"
    "P (job_key c (jo_id j)) (show_int (jo_version j) @ ''|'' @ jc_dump K (j\<lparr>jo_attempt_history := None\<rparr>))"
  shows "entries R P (re_now e) (snd (cache_put_job R K c e j s))"
  unfolding cache_put_job_def by (rule entries_write [OF assms])

lemma entries_invalidate:
  assumes "entries R P n s" "n \<le> re_now e" "P (job_key c i) (show_int v @ ''|'')"
  shows "entries R P (re_now e) (cache_invalidate_job R c e i v s)"
  unfolding cache_invalidate_job_def using entries_write [OF assms(1,2), of c i v "[]"] assms(3) by simp

lemma entries_put_idempotency:
  assumes s: "entries R P n s" and n: "n \<le> re_now e" and P: "P (idem_key c k) (i @ ''|'' @ h)"
  shows "entries R P (re_now e) (cache_put_idempotency R c e k i h s)"
  unfolding cache_put_idempotency_def
  by (rule cache_call_keeps [where P = "entries R P (re_now e)"]) (rule entries_later [OF s n] entries_redis_set [OF s n P])+

end

lemma redis_key_kinds [simp]: "idem_key c k \<noteq> job_key c i" "job_key c i \<noteq> idem_key c k"
  using cache_keys_differ(1) by (simp_all add: idem_key_def job_key_def) metis

lemma redis_keys_inj [simp]: "idem_key c k = idem_key c k' \<longleftrightarrow> k = k'" "job_key c i = job_key c i' \<longleftrightarrow> i = i'"
  by (simp_all add: idem_key_def job_key_def)

lemma rl_key_kinds [simp]: "rl_key c r \<noteq> job_key c i" "rl_key c r \<noteq> idem_key c k"
  using cache_keys_differ(2,3) by (simp_all add: idem_key_def job_key_def rl_key_def) metis+

end
