(* ===== verification/Services.thy ===== *)
theory Services
  imports Cache_Entries
begin

text \<open>
  The service layer: \<open>services/scheduler.py\<close> (scheduling and lookup over database and cache),
  \<open>services/dead_letters.py\<close>, \<open>services/metrics.py\<close> and \<open>cache/metrics_cache.py\<close>. A service call
  runs through several transactions and Redis calls; the environment gives the fate of each.
\<close>

section \<open>Running on the world\<close>

record service_env =
  sv_clock :: time                       \<comment> \<open>\<open>datetime.now(UTC)\<close> of the API process\<close>
  sv_redis :: "nat \<Rightarrow> redis_env"         \<comment> \<open>one per Redis call, by its place in the code\<close>
  sv_fate :: tx_fate
  sv_env :: txenv
  sv_read_ok :: bool                     \<comment> \<open>whether \<open>engine.connect()\<close> and the reads succeed\<close>

definition on_redis :: "('r \<Rightarrow> 'a \<times> 'r) \<Rightarrow> 'r world \<Rightarrow> 'a \<times> 'r world" where
  "on_redis f w = (let (x, s') = f (w_redis w) in (x, w\<lparr>w_redis := s'\<rparr>))"

lemma on_redis_simps [simp]:
  "fst (on_redis f w) = fst (f (w_redis w))"
  "w_db (snd (on_redis f w)) = w_db w"
  "w_redis (snd (on_redis f w)) = snd (f (w_redis w))"
  by (simp_all add: on_redis_def split_beta)

section \<open>\<open>JobService\<close>\<close>

definition send_at_grace :: real where
  "send_at_grace = 5"

definition service_get ::
  "'r redis_cmds \<Rightarrow> job_codec \<Rightarrow> settings \<Rightarrow> service_env \<Rightarrow> nat \<Rightarrow> uuid \<Rightarrow> bool \<Rightarrow> 'r world \<Rightarrow>
   job_out option result \<times> 'r world"
where
  "service_get R K c e n i include_attempts w =
     (case (if include_attempts then (Inr None, w) else on_redis (cache_get_job R K c (sv_redis e n) i) w) of
        (Inl x, w1) \<Rightarrow> (Inl x, w1)
      | (Inr (Some out), w1) \<Rightarrow> (Inr (Some out), w1)
      | (Inr None, w1) \<Rightarrow>
          if \<not> sv_read_ok e then (Inl OperationalError, w1)
          else case get_job (w_db w1) i of
                 None \<Rightarrow> (Inr None, w1)
               | Some j \<Rightarrow>
                   (Inr (Some (if include_attempts
                      then (job_out_of j)\<lparr>jo_attempt_history := Some (map attempt_out_of (get_job_attempts (w_db w1) i))\<rparr>
                      else job_out_of j)),
                    snd (on_redis (cache_put_job R K c (sv_redis e (n + 1)) (job_out_of j)) w1)))"

definition schedule_new_job :: "settings \<Rightarrow> string \<Rightarrow> schedule_request \<Rightarrow> new_job" where
  "schedule_new_job c h q =
     \<lparr> n_recipient = q_recipient q, n_channel = q_channel q, n_payload = q_payload q, n_priority = q_priority q,
       n_max_attempts = (case q_max_attempts q of None \<Rightarrow> cfg_max_attempts c
                         | Some n \<Rightarrow> if n = 0 then cfg_max_attempts c else n),
       n_request_hash = h, n_idempotency_key = q_idempotency_key q, n_send_at = q_send_at q,
       n_delay_seconds = q_delay_seconds q, n_callback_url = q_callback_url q \<rparr>"

text \<open>The fast path: \<open>None\<close> when it does not answer.\<close>

definition schedule_cached ::
  "'r redis_cmds \<Rightarrow> job_codec \<Rightarrow> (string \<Rightarrow> uuid option) \<Rightarrow> settings \<Rightarrow> service_env \<Rightarrow> string \<Rightarrow> string option \<Rightarrow>
   'r world \<Rightarrow> job_out option result \<times> 'r world"
where
  "schedule_cached R K parse_uuid c e h key w =
     (case key of
        None \<Rightarrow> (Inr None, w)
      | Some k \<Rightarrow>
          (case on_redis (cache_get_idempotency R parse_uuid c (sv_redis e 0) k) w of
             (Inl x, w1) \<Rightarrow> (Inl x, w1)
           | (Inr None, w1) \<Rightarrow> (Inr None, w1)
           | (Inr (Some (i, cached_hash)), w1) \<Rightarrow>
               if cached_hash \<noteq> h then (Inl (IdempotencyConflict i), w1)
               else service_get R K c e 1 i False w1))"

definition schedule_insert ::
  "'r redis_cmds \<Rightarrow> job_codec \<Rightarrow> settings \<Rightarrow> service_env \<Rightarrow> string \<Rightarrow> schedule_request \<Rightarrow> 'r world \<Rightarrow>
   (job_out \<times> bool) result \<times> 'r world"
where
  "schedule_insert R K c e h q w =
     (case in_tx (sv_fate e) (create_job (sv_env e) (schedule_new_job c h q)) w of
        (Inl x, w1) \<Rightarrow> (Inl x, w1)
      | (Inr (j, created), w1) \<Rightarrow>
          if \<not> created \<and> j_request_hash j \<noteq> h then (Inl (IdempotencyConflict (j_id j)), w1)
          else
            let w2 = (case q_idempotency_key q of
                        None \<Rightarrow> w1
                      | Some k \<Rightarrow>
                          w1\<lparr>w_redis := cache_put_idempotency R c (sv_redis e 3) k (j_id j) (j_request_hash j) (w_redis w1)\<rparr>);
                w3 = snd (on_redis (cache_put_job R K c (sv_redis e 4) (job_out_of j)) w2)
            in (Inr (job_out_of j, created), w3))"

definition schedule ::
  "'r redis_cmds \<Rightarrow> job_codec \<Rightarrow> (json \<Rightarrow> string) \<Rightarrow> (string \<Rightarrow> uuid option) \<Rightarrow> settings \<Rightarrow> service_env \<Rightarrow>
   schedule_request \<Rightarrow> 'r world \<Rightarrow> (job_out \<times> bool) result \<times> 'r world"
where
  "schedule R K digest parse_uuid c e q w =
     (if (case q_send_at q of None \<Rightarrow> False | Some t \<Rightarrow> t < sv_clock e - send_at_grace)
      then (Inl (InvalidSchedule ''send_at is in the past''), w)
      else
        let h = request_hash digest q
        in case schedule_cached R K parse_uuid c e h (q_idempotency_key q) w of
             (Inl x, w1) \<Rightarrow> (Inl x, w1)
           | (Inr (Some existing), w1) \<Rightarrow> (Inr (existing, False), w1)
           | (Inr None, w1) \<Rightarrow> schedule_insert R K c e h q w1)"

section \<open>\<open>DeadLetterService\<close>\<close>

definition dead_letters_list :: "service_env \<Rightarrow> int \<Rightarrow> int \<Rightarrow> 'r world \<Rightarrow> dead_letter_report list result" where
  "dead_letters_list e n offset w =
     (if sv_read_ok e then list_dead_letters (sv_env e) n offset (w_db w) else Inl OperationalError)"

definition dead_letters_requeue ::
  "'r redis_cmds \<Rightarrow> settings \<Rightarrow> service_env \<Rightarrow> uuid \<Rightarrow> int \<Rightarrow> 'r world \<Rightarrow> unit result \<times> 'r world"
where
  "dead_letters_requeue R c e i extra w =
     (case in_tx (sv_fate e) (requeue_dead_letter (sv_env e) i extra) w of
        (Inl x, w1) \<Rightarrow> (Inl x, w1)
      | (Inr None, w1) \<Rightarrow> (Inl (NotDeadLettered i), w1)
      | (Inr (Some t), w1) \<Rightarrow>
          (Inr (), w1\<lparr>w_redis := cache_invalidate_job R c (sv_redis e 0) (t_job_id t) (t_version t) (w_redis w1)\<rparr>))"

section \<open>\<open>MetricsService\<close> and \<open>MetricsCache\<close>\<close>

definition compute_metrics :: "service_env \<Rightarrow> 'r world \<Rightarrow> dict result" where
  "compute_metrics e w =
     (if \<not> sv_read_ok e then Inl OperationalError
      else let n = job_counts (sv_env e) (w_db w); count = (\<lambda>k. JInt (int k)) in
        Inr [(''pending'', count (c_pending n)),
             (''pending_due'', count (c_pending_due n)),
             (''scheduled'', count (c_scheduled n)),
             (''failed'', count (c_retrying n)),
             (''processing'', count (c_processing n)),
             (''sent'', count (c_sent n)),
             (''failed_attempts_total'', count (c_failed_attempts n)),
             (''dead_lettered'', count (c_dead_lettered n)),
             (''webhooks_pending'', count (c_webhooks_pending n)),
             (''generated_at'', JIso (sv_clock e))])"

record dict_codec =
  dc_dump :: "dict \<Rightarrow> string"
  dc_load :: "string \<Rightarrow> dict result"

definition lock_ttl_seconds :: int where
  "lock_ttl_seconds = 5"

definition metrics_key :: "settings \<Rightarrow> string" where
  "metrics_key c = cache_key (redis_key_prefix c) [''metrics'', ''v1'']"

definition metrics_lock_key :: "settings \<Rightarrow> string" where
  "metrics_lock_key c = cache_key (redis_key_prefix c) [''metrics'', ''v1'', ''lock'']"

definition metrics_get ::
  "'r redis_cmds \<Rightarrow> dict_codec \<Rightarrow> settings \<Rightarrow> redis_env \<Rightarrow> 'r \<Rightarrow> dict option result \<times> 'r"
where
  "metrics_get R D c e s =
     (let (raw, s') = cache_call (cache_enabled c) (re_fate e) (redis_get R (re_now e) (metrics_key c)) None s
      in (case raw of
            None \<Rightarrow> Inr None
          | Some t \<Rightarrow> if t = [] then Inr None else bind_result (dc_load D t) (\<lambda>d. Inr (Some d)), s'))"

text \<open>\<open>SET key 1 NX EX ttl\<close> replies \<open>True\<close>, or nil when the key exists.\<close>

definition redis_set_nx :: "'r redis_cmds \<Rightarrow> int \<Rightarrow> string \<Rightarrow> string \<Rightarrow> int \<Rightarrow> 'r \<Rightarrow> bool option redis_reply \<times> 'r" where
  "redis_set_nx R t k v ex s =
     (if rd_get R t k s \<noteq> None then (Reply None, s) else redis_set R t k v ex s)"

text \<open>The three writes of \<open>get_or_compute\<close>: the lock is taken, the metrics are stored, the lock is dropped.\<close>

definition take_metrics_lock :: "'r redis_cmds \<Rightarrow> settings \<Rightarrow> redis_env \<Rightarrow> 'r \<Rightarrow> bool option \<times> 'r" where
  "take_metrics_lock R c e s =
     cache_call (cache_enabled c) (re_fate e)
       (redis_set_nx R (re_now e) (metrics_lock_key c) ''1'' lock_ttl_seconds) None s"

definition put_metrics :: "'r redis_cmds \<Rightarrow> settings \<Rightarrow> redis_env \<Rightarrow> string \<Rightarrow> 'r \<Rightarrow> 'r" where
  "put_metrics R c e t s =
     snd (cache_call (cache_enabled c) (re_fate e)
       (redis_set R (re_now e) (metrics_key c) t (cache_metrics_ttl c)) None s)"

definition drop_metrics_lock :: "'r redis_cmds \<Rightarrow> settings \<Rightarrow> redis_env \<Rightarrow> 'r \<Rightarrow> 'r" where
  "drop_metrics_lock R c e s =
     snd (cache_call (cache_enabled c) (re_fate e) (\<lambda>s. (Reply (), rd_del R (metrics_lock_key c) s)) () s)"

text \<open>The body after both reads missed: compute, store, and unlock if the lock was taken.\<close>

definition rebuild_metrics ::
  "'r redis_cmds \<Rightarrow> dict_codec \<Rightarrow> settings \<Rightarrow> service_env \<Rightarrow> bool \<Rightarrow> dict result \<Rightarrow> 'r \<Rightarrow> (dict \<times> bool) result \<times> 'r"
where
  "rebuild_metrics R D c e got_lock computed s =
     (case computed of
        Inl x \<Rightarrow> (Inl x, s)
      | Inr m \<Rightarrow>
          let s1 = snd (cache_call (cache_enabled c) (re_fate (sv_redis e 3))
                     (redis_set R (re_now (sv_redis e 3)) (metrics_key c) (dc_dump D m) (cache_metrics_ttl c)) None s);
              s2 = (if got_lock
                    then snd (cache_call (cache_enabled c) (re_fate (sv_redis e 4))
                      (\<lambda>s. (Reply (), rd_del R (metrics_lock_key c) s)) () s1)
                    else s1)
          in (Inr (m, False), s2))"

definition get_or_compute ::
  "'r redis_cmds \<Rightarrow> dict_codec \<Rightarrow> settings \<Rightarrow> service_env \<Rightarrow> dict result \<Rightarrow> 'r \<Rightarrow> (dict \<times> bool) result \<times> 'r"
where
  "get_or_compute R D c e computed s =
     (case metrics_get R D c (sv_redis e 0) s of
        (Inl x, s1) \<Rightarrow> (Inl x, s1)
      | (Inr (Some m), s1) \<Rightarrow> (Inr (m, True), s1)
      | (Inr None, s1) \<Rightarrow>
          let (lock, s2) = cache_call (cache_enabled c) (re_fate (sv_redis e 1))
                (redis_set_nx R (re_now (sv_redis e 1)) (metrics_lock_key c) ''1'' lock_ttl_seconds) None s1;
              got_lock = (lock = Some True)
          in if \<not> got_lock \<and> cache_enabled c
             then (case metrics_get R D c (sv_redis e 2) s2 of
                     (Inl x, s3) \<Rightarrow> (Inl x, s3)
                   | (Inr (Some m), s3) \<Rightarrow> (Inr (m, True), s3)
                   | (Inr None, s3) \<Rightarrow> rebuild_metrics R D c e got_lock computed s3)
             else rebuild_metrics R D c e got_lock computed s2)"

definition metrics_snapshot ::
  "'r redis_cmds \<Rightarrow> dict_codec \<Rightarrow> settings \<Rightarrow> service_env \<Rightarrow> 'r world \<Rightarrow> dict result \<times> 'r world"
where
  "metrics_snapshot R D c e w =
     (case on_redis (get_or_compute R D c e (compute_metrics e w)) w of
        (Inl x, w1) \<Rightarrow> (Inl x, w1)
      | (Inr (m, from_cache), w1) \<Rightarrow> (Inr (dict_merge m [(''cached'', JBool from_cache)]), w1))"

end
