(* ===== verification/Services_Properties.thy ===== *)
theory Services_Properties
  imports Services
begin

text \<open>
  What the services guarantee: Redis never decides what a request does. As long as the cache only
  holds what the code put there (\<open>coherent\<close>), scheduling gives the answer of the database whatever
  Redis does, and scheduling keeps the cache so.
\<close>

section \<open>A coherent cache\<close>

text \<open>
  From time \<open>n\<close> on, every idempotency entry names a row with that key, and every job entry is a
  tombstone or decodes to a job with that id. The database can only be ahead of the cache.
\<close>

definition coherent :: "'r redis_cmds \<Rightarrow> job_codec \<Rightarrow> settings \<Rightarrow> int \<Rightarrow> 'r world \<Rightarrow> bool" where
  "coherent R K c n w \<longleftrightarrow>
     (\<forall>m\<ge>n. \<forall>k t. rd_get R m (idem_key c k) (w_redis w) = Some t \<longrightarrow>
        (\<exists>j\<in>set (jobs (w_db w)). j_idempotency_key j = Some k \<and> t = j_id j @ ''|'' @ j_request_hash j)) \<and>
     (\<forall>m\<ge>n. \<forall>i t. rd_get R m (job_key c i) (w_redis w) = Some t \<longrightarrow>
        after_bar t = [] \<or> (\<exists>out. jc_load K (after_bar t) = Inr out \<and> jo_id out = i))"

definition codec_keeps_id :: "job_codec \<Rightarrow> bool" where
  "codec_keeps_id K \<longleftrightarrow> (\<forall>j. \<exists>out. jc_load K (jc_dump K j) = Inr out \<and> jo_id out = jo_id j)"

definition ids_parse :: "(string \<Rightarrow> uuid option) \<Rightarrow> db \<Rightarrow> bool" where
  "ids_parse parse_uuid s \<longleftrightarrow>
     (\<forall>j\<in>set (jobs s). parse_uuid (j_id j) = Some (j_id j) \<and> CHR ''|'' \<notin> set (j_id j))"

lemma coherentD:
  assumes "coherent R K c n w" "n \<le> m"
  shows "rd_get R m (idem_key c k) (w_redis w) = Some t \<Longrightarrow>
      \<exists>j\<in>set (jobs (w_db w)). j_idempotency_key j = Some k \<and> t = j_id j @ ''|'' @ j_request_hash j"
    "rd_get R m (job_key c i) (w_redis w) = Some t \<Longrightarrow>
      after_bar t = [] \<or> (\<exists>out. jc_load K (after_bar t) = Inr out \<and> jo_id out = i)"
  using assms by (auto simp: coherent_def)

lemma coherent_later: "coherent R K c n w \<Longrightarrow> n \<le> n' \<Longrightarrow> coherent R K c n' w"
  unfolding coherent_def by (meson order_trans)

lemma coherent_rows:
  "coherent R K c n w \<Longrightarrow> set (jobs (w_db w)) \<subseteq> set (jobs (w_db w')) \<Longrightarrow> w_redis w' = w_redis w \<Longrightarrow>
     coherent R K c n w'"
  by (simp add: coherent_def) blast

text \<open>The same as a statement about entries.\<close>

definition coherent_entry :: "job_codec \<Rightarrow> settings \<Rightarrow> db \<Rightarrow> string \<Rightarrow> string \<Rightarrow> bool" where
  "coherent_entry K c s k t \<longleftrightarrow>
     (\<forall>key. k = idem_key c key \<longrightarrow> (\<exists>j\<in>set (jobs s). j_idempotency_key j = Some key \<and> t = j_id j @ ''|'' @ j_request_hash j)) \<and>
     (\<forall>i. k = job_key c i \<longrightarrow> after_bar t = [] \<or> (\<exists>out. jc_load K (after_bar t) = Inr out \<and> jo_id out = i))"

lemma coherent_entries: "coherent R K c n w \<longleftrightarrow> entries R (coherent_entry K c (w_db w)) n (w_redis w)"
  unfolding coherent_def entries_def coherent_entry_def by blast

section \<open>What the services write to the cache\<close>

text \<open>
  The services write an entry only about a row of the database: its key, or its view. So they keep
  every statement \<open>P\<close> about entries that allows these two and that more rows do not make false.
\<close>

definition cached :: "'r redis_cmds \<Rightarrow> (db \<Rightarrow> string \<Rightarrow> string \<Rightarrow> bool) \<Rightarrow> int \<Rightarrow> 'r world \<Rightarrow> bool" where
  "cached R P n w \<longleftrightarrow> entries R (P (w_db w)) n (w_redis w)"

lemma cached_later: "cached R P n w \<Longrightarrow> n \<le> n' \<Longrightarrow> cached R P n' w"
  by (simp add: cached_def entries_later)

lemma job_out_of_no_history [simp]: "(job_out_of j)\<lparr>jo_attempt_history := None\<rparr> = job_out_of j"
  by (simp add: job_out_of_def)

lemma job_out_of_head [simp]: "jo_id (job_out_of j) = j_id j" "jo_version (job_out_of j) = j_version j"
    "jo_status (job_out_of j) = j_status j"
  by (simp_all add: job_out_of_def)

lemma create_job_result:
  assumes "create_job env n s = Inr ((j, b), s')"
  shows "j \<in> set (jobs s') \<and> set (jobs s) \<subseteq> set (jobs s') \<and> j_idempotency_key j = n_idempotency_key n"
  using assms
  by (auto simp: create_job_def insert_job_def get_job_by_idempotency_key_def bind_result_Inr_iff
      split: if_splits option.splits dest!: first_SomeD)

locale row_entries = redis_laws R for R :: "'r redis_cmds" +
  fixes K :: job_codec and c :: settings and P :: "db \<Rightarrow> string \<Rightarrow> string \<Rightarrow> bool"
  assumes more_rows: "P s k t \<Longrightarrow> set (jobs s) \<subseteq> set (jobs s') \<Longrightarrow> P s' k t"
    and key_entry: "j \<in> set (jobs s) \<Longrightarrow> j_idempotency_key j = Some k \<Longrightarrow>
        P s (idem_key c k) (j_id j @ ''|'' @ j_request_hash j)"
    and view_entry: "j \<in> set (jobs s) \<Longrightarrow>
        P s (job_key c (j_id j)) (show_int (j_version j) @ ''|'' @ jc_dump K (job_out_of j))"
begin

lemma cached_rows:
  "cached R P n w \<Longrightarrow> set (jobs (w_db w)) \<subseteq> set (jobs (w_db w')) \<Longrightarrow> w_redis w' = w_redis w \<Longrightarrow> cached R P n w'"
  unfolding cached_def by (auto intro: entries_mono more_rows)

lemma cached_put_job:
  assumes "cached R P n w" "n \<le> re_now e" "j \<in> set (jobs (w_db w))"
  shows "cached R P (re_now e) (snd (on_redis (cache_put_job R K c e (job_out_of j)) w))"
  using entries_put_job [OF assms(1) [unfolded cached_def] assms(2), where j = "job_out_of j" and c = c and K = K]
    view_entry [OF assms(3)]
  by (simp add: cached_def)

lemma cached_put_idempotency:
  assumes "cached R P n w" "n \<le> re_now e" "j \<in> set (jobs (w_db w))" "j_idempotency_key j = Some k"
  shows "cached R P (re_now e) (w\<lparr>w_redis := cache_put_idempotency R c e k (j_id j) (j_request_hash j) (w_redis w)\<rparr>)"
  using entries_put_idempotency [OF assms(1) [unfolded cached_def] assms(2), of c k] key_entry [OF assms(3,4)]
  by (simp add: cached_def)

lemma cached_service_get:
  assumes w: "cached R P n w" and n: "n \<le> re_now (sv_redis e (b + 1))"
  shows "cached R P (re_now (sv_redis e (b + 1))) (snd (service_get R K c e b i inc w))"
proof -
  have "snd (if inc then (Inr None, w) else on_redis (cache_get_job R K c (sv_redis e b) i) w) = w"
    by (simp add: on_redis_def split_beta)
  then obtain r where g: "(if inc then (Inr None, w) else on_redis (cache_get_job R K c (sv_redis e b) i) w) = (r, w)"
    by (metis prod.collapse)
  have "cached R P (re_now (sv_redis e (b + 1)))
      (snd (on_redis (cache_put_job R K c (sv_redis e (b + 1)) (job_out_of j)) w))" if "get_job (w_db w) i = Some j" for j
    using that by (intro cached_put_job [OF w n]) (auto simp: get_job_def dest!: first_SomeD)
  moreover have "cached R P (re_now (sv_redis e (b + 1))) w" by (rule cached_later [OF w n])
  ultimately show ?thesis
    unfolding service_get_def g by (auto split: sum.splits option.splits)
qed

lemma cached_schedule_insert:
  assumes w: "cached R P n w" and n: "n \<le> re_now (sv_redis e 3)" "re_now (sv_redis e 3) \<le> re_now (sv_redis e 4)"
  shows "cached R P (re_now (sv_redis e 4)) (snd (schedule_insert R K c e h q w))"
proof -
  let ?create = "create_job (sv_env e) (schedule_new_job c h q)" and ?T = "re_now (sv_redis e 4)"
  have T: "n \<le> ?T" using n by simp
  obtain r w1 where tx: "in_tx (sv_fate e) ?create w = (r, w1)" by (cases "in_tx (sv_fate e) ?create w")
  have red: "w_redis w1 = w_redis w" and db: "w_db w1 = snd (begin_tx (sv_fate e) ?create (w_db w))"
    and r: "r = fst (begin_tx (sv_fate e) ?create (w_db w))"
    using in_tx_simps [of "sv_fate e" ?create w] by (simp_all add: tx)
  have "set (jobs (w_db w)) \<subseteq> set (jobs (snd (begin_tx (sv_fate e) ?create (w_db w))))"
    by (rule begin_tx_keeps [where P = "\<lambda>s. set (jobs (w_db w)) \<subseteq> set (jobs s)"]) (auto dest: create_job_result)
  then have co: "cached R P n w1" using cached_rows [OF w _ red] by (simp add: db)
  show ?thesis
  proof (cases r)
    case (Inl x)
    with co T show ?thesis by (simp add: schedule_insert_def tx cached_later)
  next
    case (Inr p)
    obtain j b where p: "p = (j, b)" by (cases p)
    have "begin_tx (sv_fate e) ?create (w_db w) = (Inr (j, b), w_db w1)"
      using r db Inr p by (metis prod.collapse)
    from create_job_result [OF begin_tx_InrD [OF this]]
    have j: "j \<in> set (jobs (w_db w1))" "j_idempotency_key j = q_idempotency_key q"
      by (simp_all add: schedule_new_job_def)
    let ?w2 = "case q_idempotency_key q of None \<Rightarrow> w1 | Some k \<Rightarrow>
      w1\<lparr>w_redis := cache_put_idempotency R c (sv_redis e 3) k (j_id j) (j_request_hash j) (w_redis w1)\<rparr>"
    have "cached R P (re_now (sv_redis e 3)) ?w2"
      using cached_put_idempotency [OF co n(1) j(1)] cached_later [OF co n(1)] j(2) by (simp split: option.splits)
    from cached_put_job [OF this n(2)] j(1)
    have "cached R P ?T (snd (on_redis (cache_put_job R K c (sv_redis e 4) (job_out_of j)) ?w2))"
      by (simp split: option.splits)
    moreover have "cached R P ?T w1" using co T by (rule cached_later)
    ultimately show ?thesis by (simp add: schedule_insert_def tx Inr p Let_def)
  qed
qed

lemma cached_schedule:
  assumes w: "cached R P n w" and clock: "n \<le> re_now (sv_redis e 0)" "mono (\<lambda>k. re_now (sv_redis e k))"
  shows "cached R P (re_now (sv_redis e 4)) (snd (schedule R K digest parse_uuid c e q w))"
proof -
  let ?T = "re_now (sv_redis e 4)" and ?insert = "schedule_insert R K c e (request_hash digest q) q"
  have t: "n \<le> re_now (sv_redis e k)" for k using clock monoD [OF clock(2), of 0 k] by simp
  have step: "re_now (sv_redis e j) \<le> re_now (sv_redis e k)" if "j \<le> k" for j k
    using monoD [OF clock(2) that] .
  have keep: "cached R P ?T w" by (rule cached_later [OF w t])
  have insert: "cached R P ?T (snd (?insert w))" by (rule cached_schedule_insert [OF w t step]) simp
  have get2: "cached R P (re_now (sv_redis e 2)) (snd (service_get R K c e 1 i False w))" for i
    using cached_service_get [OF w t, where b = 1] unfolding one_add_one .
  have get: "cached R P ?T (snd (service_get R K c e 1 i False w))" for i
    by (rule cached_later [OF get2 step]) simp
  have get_insert: "cached R P ?T (snd (?insert (snd (service_get R K c e 1 i False w))))" for i
    by (rule cached_schedule_insert [OF get2 step step]) simp_all
  show ?thesis
  proof (cases "q_idempotency_key q")
    case None
    with keep insert show ?thesis by (simp add: schedule_def schedule_cached_def Let_def)
  next
    case (Some k)
    have "snd (on_redis (cache_get_idempotency R parse_uuid c (sv_redis e 0) k) w) = w"
      by (simp add: on_redis_def split_beta)
    then obtain r where g: "on_redis (cache_get_idempotency R parse_uuid c (sv_redis e 0) k) w = (r, w)"
      by (cases "on_redis (cache_get_idempotency R parse_uuid c (sv_redis e 0) k) w") auto
    have snd_get: "cached R P ?T w2" "cached R P ?T (snd (?insert w2))"
      if "service_get R K c e 1 i False w = (r2, w2)" for i r2 w2
      using get [of i] get_insert [of i] by (simp_all only: that snd_conv)
    show ?thesis
      using keep insert snd_get [unfolded One_nat_def]
      by (auto simp: schedule_def schedule_cached_def Some g Let_def split: sum.splits option.splits prod.splits)
  qed
qed

end

lemma coherent_row_entries:
  assumes "redis_laws R" "codec_keeps_id K"
  shows "row_entries R K c (coherent_entry K c)"
proof (rule row_entries.intro [OF assms(1) row_entries_axioms.intro])
  fix j s
  obtain x where "jc_load K (jc_dump K (job_out_of j)) = Inr x" "jo_id x = j_id j"
    using assms(2) unfolding codec_keeps_id_def by (metis job_out_of_head(1))
  then show "coherent_entry K c s (job_key c (j_id j)) (show_int (j_version j) @ ''|'' @ jc_dump K (job_out_of j))"
    by (simp add: coherent_entry_def entry_body_written del: append.simps)
qed (force simp: coherent_entry_def)+

section \<open>Scheduling\<close>

lemma get_job_Some:
  "distinct (job_ids s) \<Longrightarrow> j \<in> set (jobs s) \<Longrightarrow> get_job s (j_id j) = Some j"
  by (simp add: get_job_def filter_key_unique job_ids_def)

text \<open>Reading a job that exists gives a view of it or a database failure, and changes no table.\<close>

lemma service_get_existing:
  assumes co: "coherent R K c n w" "n \<le> re_now (sv_redis e b)"
    and j: "distinct (job_ids (w_db w))" "j \<in> set (jobs (w_db w))" "j_id j = i"
  shows "w_db (snd (service_get R K c e b i False w)) = w_db w \<and>
     (fst (service_get R K c e b i False w) = Inl OperationalError \<and> \<not> sv_read_ok e \<or>
      (\<exists>out. fst (service_get R K c e b i False w) = Inr (Some out) \<and> jo_id out = i))"
proof -
  let ?raw = "fst (cache_call (cache_enabled c) (re_fate (sv_redis e b))
    (redis_get R (re_now (sv_redis e b)) (job_key c i)) None (w_redis w))"
  have raw: "?raw = None \<or> ?raw = rd_get R (re_now (sv_redis e b)) (job_key c i) (w_redis w)"
    by (simp add: cache_call_def redis_get_def split: redis_fate.splits)
  have fst_get: "fst (cache_get_job R K c (sv_redis e b) i (w_redis w)) = parse_entry K ?raw"
    by (simp add: cache_get_job_def Let_def split_beta)
  have parse: "parse_entry K ?raw = Inr None \<or> (\<exists>out. parse_entry K ?raw = Inr (Some out) \<and> jo_id out = i)"
  proof (cases ?raw)
    case None
    show ?thesis unfolding None by (simp add: parse_entry_def)
  next
    case (Some t)
    with raw have "rd_get R (re_now (sv_redis e b)) (job_key c i) (w_redis w) = Some t" by simp
    from coherentD(2) [OF co this] show ?thesis unfolding Some by (auto simp: parse_entry_def)
  qed
  obtain r w1 where g: "on_redis (cache_get_job R K c (sv_redis e b) i) w = (r, w1)"
    by (cases "on_redis (cache_get_job R K c (sv_redis e b) i) w")
  then have r: "r = parse_entry K ?raw" and w1: "w_db w1 = w_db w"
    using fst_get on_redis_simps [of "cache_get_job R K c (sv_redis e b) i" w] by auto
  show ?thesis
    using parse get_job_Some [OF j(1,2)] j(3)
    by (auto simp: service_get_def g r w1)
qed

text \<open>What the idempotency entry of an existing key reads as: nothing, or the row's id and fingerprint.\<close>

lemma read_idempotency_coherent:
  assumes inv: "db_inv {} (w_db w)" and co: "coherent R K c n w" "n \<le> re_now e"
    and ids: "ids_parse parse_uuid (w_db w)" and j: "j \<in> set (jobs (w_db w))" "j_idempotency_key j = Some k"
  shows "cache_get_idempotency R parse_uuid c e k (w_redis w) \<in>
     {(Inr None, w_redis w), (Inr (Some (j_id j, j_request_hash j)), w_redis w)}"
proof -
  let ?t = "j_id j @ ''|'' @ j_request_hash j"
  have hit: "parse_idem_entry parse_uuid (Some ?t) = Inr (Some (j_id j, j_request_hash j))"
    using ids j(1) by (auto simp: parse_idem_entry_def ids_parse_def bar_split simp del: append.simps)
  have "rd_get R (re_now e) (idem_key c k) (w_redis w) \<in> {None, Some ?t}"
  proof (cases "rd_get R (re_now e) (idem_key c k) (w_redis w)")
    case (Some t)
    with coherentD(1) [OF co Some] idempotency_key_unique [OF db_invD(2) [OF inv]] j show ?thesis by blast
  qed simp
  then have "fst (cache_get_idempotency R parse_uuid c e k (w_redis w)) \<in>
      {parse_idem_entry parse_uuid None, parse_idem_entry parse_uuid (Some ?t)}"
    by (auto simp: cache_get_idempotency_def Let_def split_beta cache_call_def redis_get_def split: redis_fate.splits)
  moreover have "parse_idem_entry parse_uuid None = Inr None" by (simp add: parse_idem_entry_def)
  ultimately show ?thesis
    unfolding hit using entries_reads(2) [of R parse_uuid c e k "w_redis w"]
    by (cases "cache_get_idempotency R parse_uuid c e k (w_redis w)") auto
qed

text \<open>
  A request can fail for the database only: its transaction does not commit or its acknowledgement is
  lost, or its reads fail.
\<close>

definition db_fails :: "service_env \<Rightarrow> bool" where
  "db_fails e \<longleftrightarrow> sv_fate e \<noteq> Commits \<or> \<not> sv_read_ok e"

text \<open>The answer to a repeat of the key of row \<open>j\<close>, in a world with the database \<open>s\<close>.\<close>

definition replay_answer :: "job \<Rightarrow> string \<Rightarrow> service_env \<Rightarrow> db \<Rightarrow> (job_out \<times> bool) result \<times> 'r world \<Rightarrow> bool" where
  "replay_answer j h e s p \<longleftrightarrow> w_db (snd p) = s \<and>
     (fst p = Inl OperationalError \<and> db_fails e \<or>
      (if j_request_hash j = h then \<exists>out. fst p = Inr (out, False) \<and> jo_id out = j_id j
       else fst p = Inl (IdempotencyConflict (j_id j))))"

lemma schedule_insert_replay:
  assumes inv: "db_inv {} (w_db w)" and j: "j \<in> set (jobs (w_db w))" "j_idempotency_key j = Some k"
    and q: "q_idempotency_key q = Some k" and attempts: "1 \<le> n_max_attempts (schedule_new_job c h q)"
    and new: "gen_job_id (sv_env e) \<notin> set (job_ids (w_db w))"
  shows "replay_answer j h e (w_db w) (schedule_insert R K c e h q w)"
proof -
  have "create_job (sv_env e) (schedule_new_job c h q) (w_db w) = Inr ((j, False), w_db w)"
    using attempts new
  proof (cases rule: create_job_cases)
    case created
    then show ?thesis using j q by (force simp: schedule_new_job_def)
  next
    case (replayed j')
    then show ?thesis
      using q j idempotency_key_unique [OF db_invD(2) [OF inv], of j' j k] by (simp add: schedule_new_job_def)
  qed
  then have "in_tx (sv_fate e) (create_job (sv_env e) (schedule_new_job c h q)) w =
      (case sv_fate e of Commits \<Rightarrow> (Inr (j, False), w) | _ \<Rightarrow> (Inl OperationalError, w))"
    by (simp add: in_tx_def begin_tx_def split: tx_fate.splits)
  then show ?thesis
    by (cases "sv_fate e") (auto simp: schedule_insert_def replay_answer_def db_fails_def Let_def split: option.splits)
qed

text \<open>
  A repeat of a key is decided by the database and never by Redis. If a row with the request's
  key exists, then whatever is cached and whichever Redis calls fail, scheduling creates nothing and
  changes no table, and it answers with that job, or with a conflict naming that job when the
  fingerprints differ, or with a database failure.
\<close>

theorem schedule_replay:
  assumes inv: "db_inv {} (w_db w)" and co: "coherent R K c n w" "\<And>k. n \<le> re_now (sv_redis e k)"
    and ids: "ids_parse parse_uuid (w_db w)"
    and j: "j \<in> set (jobs (w_db w))" "j_idempotency_key j = Some k" and q: "q_idempotency_key q = Some k"
    and attempts: "1 \<le> n_max_attempts (schedule_new_job c h q)" and new: "gen_job_id (sv_env e) \<notin> set (job_ids (w_db w))"
    and now: "\<And>t. q_send_at q = Some t \<Longrightarrow> sv_clock e - send_at_grace \<le> t"
    and h: "h = request_hash digest q"
  shows "w_db (snd (schedule R K digest parse_uuid c e q w)) = w_db w \<and>
     (fst (schedule R K digest parse_uuid c e q w) = Inl OperationalError \<and> db_fails e \<or>
      (if j_request_hash j = h
       then \<exists>out. fst (schedule R K digest parse_uuid c e q w) = Inr (out, False) \<and> jo_id out = j_id j
       else fst (schedule R K digest parse_uuid c e q w) = Inl (IdempotencyConflict (j_id j))))"
proof -
  have past: "\<not> (case q_send_at q of None \<Rightarrow> False | Some t \<Rightarrow> t < sv_clock e - send_at_grace)"
    using now by (force split: option.splits)
  obtain r w1 where g: "on_redis (cache_get_idempotency R parse_uuid c (sv_redis e 0) k) w = (r, w1)"
    by (cases "on_redis (cache_get_idempotency R parse_uuid c (sv_redis e 0) k) w")
  have w1: "w1 = w" and r: "r = Inr None \<or> r = Inr (Some (j_id j, j_request_hash j))"
    using g read_idempotency_coherent [OF inv co(1) co(2) [of 0] ids j] by (auto simp: on_redis_def)
  obtain r2 w2 where s: "service_get R K c e 1 (j_id j) False w = (r2, w2)"
    by (cases "service_get R K c e 1 (j_id j) False w")
  have "w_db w2 = w_db w \<and> (r2 = Inl OperationalError \<and> db_fails e \<or> (\<exists>out. r2 = Inr (Some out) \<and> jo_id out = j_id j))"
    using service_get_existing [OF co(1) co(2) [of 1] db_invD(1) [OF inv] j(1) refl] by (auto simp only: s fst_conv snd_conv db_fails_def)
  moreover have "replay_answer j h e (w_db w) (schedule_insert R K c e h q w)"
    by (rule schedule_insert_replay [OF inv j q attempts new])
  ultimately have "replay_answer j h e (w_db w) (schedule R K digest parse_uuid c e q w)"
    using r
    by (auto simp: schedule_def past schedule_cached_def q g [unfolded w1] s [unfolded One_nat_def] Let_def
        replay_answer_def simp flip: h)
  then show ?thesis by (simp only: replay_answer_def)
qed

text \<open>A request whose key is new passes the fast path by and reaches the insert.\<close>

lemma schedule_misses:
  assumes co: "coherent R K c n w" "n \<le> re_now (sv_redis e 0)"
    and key: "q_idempotency_key q = None \<or> q_idempotency_key q \<notin> set (map j_idempotency_key (jobs (w_db w)))"
    and now: "\<And>t. q_send_at q = Some t \<Longrightarrow> sv_clock e - send_at_grace \<le> t"
  shows "schedule R K digest parse_uuid c e q w = schedule_insert R K c e (request_hash digest q) q w"
proof -
  have past: "\<not> (case q_send_at q of None \<Rightarrow> False | Some t \<Rightarrow> t < sv_clock e - send_at_grace)"
    using now by (force split: option.splits)
  have "schedule_cached R K parse_uuid c e h (q_idempotency_key q) w = (Inr None, w)" for h
  proof (cases "q_idempotency_key q")
    case None
    then show ?thesis by (simp add: schedule_cached_def)
  next
    case (Some k)
    have "rd_get R (re_now (sv_redis e 0)) (idem_key c k) (w_redis w) = None"
    proof (cases "rd_get R (re_now (sv_redis e 0)) (idem_key c k) (w_redis w)")
      case (Some t)
      from coherentD(1) [OF co Some] key \<open>q_idempotency_key q = Some k\<close> show ?thesis by (force simp: image_iff)
    qed
    then have "cache_get_idempotency R parse_uuid c (sv_redis e 0) k (w_redis w) = (Inr None, w_redis w)"
      by (simp add: cache_get_idempotency_def cache_call_def redis_get_def parse_idem_entry_def Let_def
          split: redis_fate.splits)
    with Some show ?thesis by (simp add: schedule_cached_def on_redis_def)
  qed
  with past show ?thesis by (simp add: schedule_def Let_def)
qed

text \<open>Its insert adds one row, and reports it unless the transaction aborts or its answer is lost.\<close>

lemma schedule_insert_new:
  assumes key: "q_idempotency_key q = None \<or> q_idempotency_key q \<notin> set (map j_idempotency_key (jobs (w_db w)))"
    and attempts: "1 \<le> n_max_attempts (schedule_new_job c h q)" and new: "gen_job_id (sv_env e) \<notin> set (job_ids (w_db w))"
  defines "r \<equiv> new_row (sv_env e) (schedule_new_job c h q)"
  shows "fst (schedule_insert R K c e h q w) = (if sv_fate e = Commits then Inr (job_out_of r, True) else Inl OperationalError) \<and>
     w_db (snd (schedule_insert R K c e h q w)) =
       (if sv_fate e = Aborts then w_db w else (w_db w)\<lparr>jobs := jobs (w_db w) @ [r]\<rparr>)"
proof -
  have "create_job (sv_env e) (schedule_new_job c h q) (w_db w) =
      Inr ((r, True), (w_db w)\<lparr>jobs := jobs (w_db w) @ [r]\<rparr>)"
    using attempts new
  proof (cases rule: create_job_cases)
    case created
    then show ?thesis by (simp add: r_def)
  next
    case (replayed j)
    with key show ?thesis by (force simp: schedule_new_job_def)
  qed
  then show ?thesis
    by (cases "sv_fate e") (simp_all add: schedule_insert_def in_tx_def begin_tx_def Let_def split: option.splits)
qed

text \<open>
  Scheduling keeps the cache coherent, whatever its outcome: after any call, with Redis calls
  answered at non-decreasing times, each lost or failed in any way, the cache still only names rows
  of the database under their own keys.
\<close>

theorem schedule_keeps_cache_coherent:
  assumes laws: "redis_laws R" and K: "codec_keeps_id K" and w: "coherent R K c n w"
    and clock: "n \<le> re_now (sv_redis e 0)" "mono (\<lambda>k. re_now (sv_redis e k))"
  shows "coherent R K c (re_now (sv_redis e 4)) (snd (schedule R K digest parse_uuid c e q w))"
  using row_entries.cached_schedule [OF coherent_row_entries [OF laws K], where n = n and w = w] w clock
  by (simp add: cached_def coherent_entries)

section \<open>A world for the witnesses\<close>

definition demo_sv :: service_env where
  "demo_sv =
     \<lparr> sv_clock = 100, sv_redis = (\<lambda>k. redis_at (int k)), sv_fate = Commits, sv_env = later 200, sv_read_ok = True \<rparr>"

definition demo_world :: "redis_store world" where
  "demo_world = \<lparr>w_db = demo_db, w_redis = (\<lambda>_. None)\<rparr>"

lemma demo_coherent: "coherent mem_redis K c 0 demo_world"
  by (simp add: coherent_def demo_world_def mem_eval mem_get_def mem_find_def)

lemma demo_ids_parse: "ids_parse Some demo_db"
  by (simp add: ids_parse_def)

text \<open>A codec that keeps the id of every job.\<close>

definition id_codec :: job_codec where
  "id_codec = \<lparr>jc_dump = (\<lambda>j. CHR ''x'' # jo_id j), jc_load = (\<lambda>t. Inr (demo_out\<lparr>jo_id := drop 1 t\<rparr>))\<rparr>"

lemma id_codec_ok: "codec_keeps_id id_codec"
  by (simp add: codec_keeps_id_def id_codec_def)

interpretation mem_rows: row_entries mem_redis id_codec c "coherent_entry id_codec c" for c
  by (rule coherent_row_entries [OF mem.redis_laws_axioms id_codec_ok])

theorem schedule_keeps_cache_coherent_witness:
  "coherent mem_redis id_codec default_settings 4
     (snd (schedule mem_redis id_codec demo_digest Some default_settings demo_sv demo_request demo_world))"
  using schedule_keeps_cache_coherent [OF mem.redis_laws_axioms id_codec_ok demo_coherent, of demo_sv]
  by (simp add: demo_sv_def mono_def)

end
