(* ===== verification/Senders.thy ===== *)
theory Senders
  imports Services_Reports
begin

text \<open>
  \<open>senders/base.py\<close> and \<open>senders/mock.py\<close>: the protocol \<open>Sender\<close> as a locale, the mock provider
  that deduplicates on the job's id in its own table and its own transaction, and the timeout that
  the worker puts around a send.
\<close>

section \<open>The mock provider\<close>

record send_result =
  sr_provider_message_id :: string
  sr_deduplicated :: bool

text \<open>
  One call: the sample of the failure switch, the provider's transaction, whether the call ends
  within the worker's timeout, and, if not, whether it was cut before that transaction committed.
\<close>

record send_env =
  se_sample :: real
  se_fate :: tx_fate
  se_env :: txenv
  se_timely :: bool
  se_cut :: bool

definition provider_keys :: "db \<Rightarrow> string list" where
  "provider_keys s = map p_idempotency_key (mock_provider_log s)"

definition message_id :: "int \<Rightarrow> string" where
  "message_id n = ''mock-'' @ show_int n"

text \<open>\<open>_RECORD\<close>: \<open>INSERT .. ON CONFLICT (provider_idempotency_key) DO UPDATE .. RETURNING\<close>.\<close>

definition record_send :: "txenv \<Rightarrow> job \<Rightarrow> db \<Rightarrow> (send_result \<times> db) result" where
  "record_send env j s =
     (let hit = (\<lambda>p. p_idempotency_key p = j_id j);
          bump = (\<lambda>p. p\<lparr>p_duplicate_requests := p_duplicate_requests p + 1\<rparr>)
      in case first (returning hit bump (mock_provider_log s)) of
           Some p \<Rightarrow>
             Inr (\<lparr>sr_provider_message_id = message_id (p_id p), sr_deduplicated = (0 < p_duplicate_requests p)\<rparr>,
                  s\<lparr>mock_provider_log := update_where hit bump (mock_provider_log s)\<rparr>)
         | None \<Rightarrow>
             if gen_serial env \<in> set (map p_id (mock_provider_log s))
             then Inl (IntegrityError ''mock_provider_log_pkey'')
             else Inr (\<lparr>sr_provider_message_id = message_id (gen_serial env), sr_deduplicated = False\<rparr>,
                  s\<lparr>mock_provider_log := mock_provider_log s @
                    [\<lparr> p_id = gen_serial env, p_idempotency_key = j_id j, p_job_id = j_id j,
                       p_channel = j_channel j, p_recipient = j_recipient j, p_received_at = now env,
                       p_duplicate_requests = 0 \<rparr>]\<rparr>))"

definition mock_send :: "real \<Rightarrow> send_env \<Rightarrow> job \<Rightarrow> db \<Rightarrow> send_result result \<times> db" where
  "mock_send failure e j s =
     (let simulate = map_of (j_payload j) ''simulate'' in
      if simulate = Some (JStr ''poison'') then (Inl (PyValueError ''unparseable payload''), s)
      else if simulate = Some (JStr ''permanent_failure'')
      then (Inl (PermanentDeliveryError (''recipient '' @ j_recipient j @ '' rejected by provider'')), s)
      else if se_sample e < failure then (Inl (DeliveryError ''simulated provider failure (503)''), s)
      else begin_tx (se_fate e) (record_send (se_env e) j) s)"

text \<open>\<open>asyncio.wait_for(sender.send(job), timeout)\<close>.\<close>

definition timed_send ::
  "(send_env \<Rightarrow> job \<Rightarrow> db \<Rightarrow> send_result result \<times> db) \<Rightarrow> send_env \<Rightarrow> job \<Rightarrow> db \<Rightarrow> send_result result \<times> db"
where
  "timed_send send e j s =
     (if se_timely e then send e j s
      else (Inl (OtherError ''TimeoutError'' ''''), if se_cut e then s else snd (send e j s)))"

section \<open>The protocol\<close>

text \<open>
  What the worker relies on: a send touches only the provider's log, there it only adds the job's
  own key and only once, a send that returns has the key in the log, and a send that the provider
  rejects leaves nothing behind.
\<close>

locale sender_contract =
  fixes send :: "send_env \<Rightarrow> job \<Rightarrow> db \<Rightarrow> send_result result \<times> db"
  assumes send_frame: "\<exists>p. snd (send e j s) = s\<lparr>mock_provider_log := p\<rparr>"
    and send_keys: "provider_keys (snd (send e j s)) = provider_keys s \<or>
      j_id j \<notin> set (provider_keys s) \<and> provider_keys (snd (send e j s)) = provider_keys s @ [j_id j]"
    and send_accepted: "fst (send e j s) = Inr r \<Longrightarrow> j_id j \<in> set (provider_keys (snd (send e j s)))"
    and send_rejected: "fst (send e j s) = Inl (DeliveryError m) \<or> fst (send e j s) = Inl (PermanentDeliveryError m) \<Longrightarrow>
      snd (send e j s) = s"
begin

lemma send_inv: "db_inv {} s \<Longrightarrow> db_inv {} (snd (send e j s))"
  using send_frame [of e j s] by auto

lemma send_same:
  "jobs (snd (send e j s)) = jobs s" "webhook_outbox (snd (send e j s)) = webhook_outbox s"
  "deliveries (snd (send e j s)) = deliveries s"
  using send_frame [of e j s] by auto

lemma send_distinct: "distinct (provider_keys s) \<Longrightarrow> distinct (provider_keys (snd (send e j s)))"
  using send_keys [of e j s] by auto

lemma send_key_set:
  "set (provider_keys s) \<subseteq> set (provider_keys (snd (send e j s))) \<and>
   set (provider_keys (snd (send e j s))) \<subseteq> insert (j_id j) (set (provider_keys s))"
  using send_keys [of e j s] by auto

text \<open>A send under a timeout satisfies the same contract.\<close>

lemma timed_contract: "sender_contract (timed_send send)"
proof
  fix e j r m and s :: db
  have "\<exists>p. s = s\<lparr>mock_provider_log := p\<rparr>" by (rule exI [of _ "mock_provider_log s"]) simp
  then show "\<exists>p. snd (timed_send send e j s) = s\<lparr>mock_provider_log := p\<rparr>"
    using send_frame [of e j s] by (simp add: timed_send_def)
  show "provider_keys (snd (timed_send send e j s)) = provider_keys s \<or>
      j_id j \<notin> set (provider_keys s) \<and> provider_keys (snd (timed_send send e j s)) = provider_keys s @ [j_id j]"
    using send_keys [of e j s] by (simp add: timed_send_def)
  show "fst (timed_send send e j s) = Inr r \<Longrightarrow> j_id j \<in> set (provider_keys (snd (timed_send send e j s)))"
    using send_accepted [of e j s] by (simp add: timed_send_def split: if_splits)
  show "fst (timed_send send e j s) = Inl (DeliveryError m) \<or> fst (timed_send send e j s) = Inl (PermanentDeliveryError m) \<Longrightarrow>
      snd (timed_send send e j s) = s"
    using send_rejected [of e j s m] by (auto simp: timed_send_def split: if_splits)
qed

lemmas timed_inv = sender_contract.send_inv [OF timed_contract]
  and timed_same = sender_contract.send_same [OF timed_contract]
  and timed_frame = sender_contract.send_frame [OF timed_contract]
  and timed_distinct = sender_contract.send_distinct [OF timed_contract]
  and timed_key_set = sender_contract.send_key_set [OF timed_contract]
  and timed_accepted = sender_contract.send_accepted [OF timed_contract]
  and timed_rejected = sender_contract.send_rejected [OF timed_contract]

end

section \<open>The mock provider keeps it\<close>

lemma record_send_cases:
  assumes "record_send env j s = Inr (r, s')"
  obtains (resend) "j_id j \<in> set (provider_keys s)" "provider_keys s' = provider_keys s"
      "s' = s\<lparr>mock_provider_log := update_where (\<lambda>p. p_idempotency_key p = j_id j)
         (\<lambda>p. p\<lparr>p_duplicate_requests := p_duplicate_requests p + 1\<rparr>) (mock_provider_log s)\<rparr>"
  | (first_send) "j_id j \<notin> set (provider_keys s)" "provider_keys s' = provider_keys s @ [j_id j]"
      "\<not> sr_deduplicated r" "\<exists>p. s' = s\<lparr>mock_provider_log := p\<rparr>"
proof (cases "j_id j \<in> set (provider_keys s)")
  case True
  then have "returning (\<lambda>p. p_idempotency_key p = j_id j) f (mock_provider_log s) \<noteq> []" for f :: "provider_row \<Rightarrow> provider_row"
    by (auto simp: provider_keys_def returning_def filter_empty_conv)
  then obtain q qs where "returning (\<lambda>p. p_idempotency_key p = j_id j)
      (\<lambda>p. p\<lparr>p_duplicate_requests := p_duplicate_requests p + 1\<rparr>) (mock_provider_log s) = q # qs"
    by (meson neq_Nil_conv)
  with assms have s': "s' = s\<lparr>mock_provider_log := update_where (\<lambda>p. p_idempotency_key p = j_id j)
         (\<lambda>p. p\<lparr>p_duplicate_requests := p_duplicate_requests p + 1\<rparr>) (mock_provider_log s)\<rparr>"
    by (simp add: record_send_def)
  then have "provider_keys s' = provider_keys s" by (simp add: provider_keys_def map_update_where_same)
  with True s' show thesis by (intro resend)
next
  case False
  then have none: "returning (\<lambda>p. p_idempotency_key p = j_id j) f (mock_provider_log s) = []" for f :: "provider_row \<Rightarrow> provider_row"
    by (force simp: provider_keys_def returning_def filter_empty_conv)
  show thesis
    using assms False by (intro first_send) (auto simp: record_send_def none provider_keys_def split: if_splits)
qed

interpretation mock: sender_contract "mock_send failure" for failure
proof
  fix j r m and s :: db and e :: send_env
  let ?t = "snd (begin_tx (se_fate e) (record_send (se_env e) j) s)"
  have "(\<exists>p. ?t = s\<lparr>mock_provider_log := p\<rparr>) \<and>
      (provider_keys ?t = provider_keys s \<or> j_id j \<notin> set (provider_keys s) \<and> provider_keys ?t = provider_keys s @ [j_id j])"
  proof (rule begin_tx_keeps [where P = "\<lambda>t. (\<exists>p. t = s\<lparr>mock_provider_log := p\<rparr>) \<and>
      (provider_keys t = provider_keys s \<or> j_id j \<notin> set (provider_keys s) \<and> provider_keys t = provider_keys s @ [j_id j])"])
    show "(\<exists>p. s = s\<lparr>mock_provider_log := p\<rparr>) \<and>
      (provider_keys s = provider_keys s \<or> j_id j \<notin> set (provider_keys s) \<and> provider_keys s = provider_keys s @ [j_id j])"
      by (rule conjI, rule exI [of _ "mock_provider_log s"]) simp_all
  next
    fix x t
    assume "record_send (se_env e) j s = Inr (x, t)"
    then show "(\<exists>p. t = s\<lparr>mock_provider_log := p\<rparr>) \<and>
      (provider_keys t = provider_keys s \<or> j_id j \<notin> set (provider_keys s) \<and> provider_keys t = provider_keys s @ [j_id j])"
      by (cases rule: record_send_cases) blast+
  qed
  moreover have "\<exists>p. s = s\<lparr>mock_provider_log := p\<rparr>" by (rule exI [of _ "mock_provider_log s"]) simp
  ultimately show "\<exists>p. snd (mock_send failure e j s) = s\<lparr>mock_provider_log := p\<rparr>"
    and "provider_keys (snd (mock_send failure e j s)) = provider_keys s \<or>
      j_id j \<notin> set (provider_keys s) \<and> provider_keys (snd (mock_send failure e j s)) = provider_keys s @ [j_id j]"
    by (simp_all add: mock_send_def Let_def)
  show "j_id j \<in> set (provider_keys (snd (mock_send failure e j s)))" if ok: "fst (mock_send failure e j s) = Inr r"
  proof -
    from ok have eq: "mock_send failure e j s = begin_tx (se_fate e) (record_send (se_env e) j) s"
      by (auto simp: mock_send_def Let_def split: if_splits)
    with ok have "begin_tx (se_fate e) (record_send (se_env e) j) s = (Inr r, snd (mock_send failure e j s))"
      by (simp add: prod_eq_iff)
    from begin_tx_InrD [OF this] show ?thesis by (cases rule: record_send_cases) simp_all
  qed
  show "fst (mock_send failure e j s) = Inl (DeliveryError m) \<or> fst (mock_send failure e j s) = Inl (PermanentDeliveryError m) \<Longrightarrow>
      snd (mock_send failure e j s) = s"
    by (cases "record_send (se_env e) j s"; cases "se_fate e")
      (auto simp: mock_send_def Let_def begin_tx_def record_send_def split: if_splits option.splits)
qed

interpretation timed_mock: sender_contract "timed_send (mock_send failure)" for failure
  by (rule mock.timed_contract)

text \<open>The row of a job in the provider's log, once it is there.\<close>

lemma mock_send_InrD: "mock_send f e j s = (Inr r, s') \<Longrightarrow> record_send (se_env e) j s = Inr (r, s')"
  by (auto simp: mock_send_def Let_def split: if_splits dest: begin_tx_InrD)

lemma record_send_known:
  assumes "filter (\<lambda>p. p_idempotency_key p = j_id j) (mock_provider_log s) = [p]"
  shows "record_send env j s =
      Inr (\<lparr>sr_provider_message_id = message_id (p_id p), sr_deduplicated = (0 < p_duplicate_requests p + 1)\<rparr>,
        s\<lparr>mock_provider_log := update_where (\<lambda>p. p_idempotency_key p = j_id j)
             (\<lambda>p. p\<lparr>p_duplicate_requests := p_duplicate_requests p + 1\<rparr>) (mock_provider_log s)\<rparr>)"
    and "filter (\<lambda>p. p_idempotency_key p = j_id j) (update_where (\<lambda>p. p_idempotency_key p = j_id j)
             (\<lambda>p. p\<lparr>p_duplicate_requests := p_duplicate_requests p + 1\<rparr>) (mock_provider_log s)) =
           [p\<lparr>p_duplicate_requests := p_duplicate_requests p + 1\<rparr>]"
proof -
  have key: "p_idempotency_key p = j_id j" using filter_eq_ConsD [OF assms] by auto
  with assms show "record_send env j s =
      Inr (\<lparr>sr_provider_message_id = message_id (p_id p), sr_deduplicated = (0 < p_duplicate_requests p + 1)\<rparr>,
        s\<lparr>mock_provider_log := update_where (\<lambda>p. p_idempotency_key p = j_id j)
             (\<lambda>p. p\<lparr>p_duplicate_requests := p_duplicate_requests p + 1\<rparr>) (mock_provider_log s)\<rparr>)"
    by (simp add: record_send_def returning_def)
  show "filter (\<lambda>p. p_idempotency_key p = j_id j) (update_where (\<lambda>p. p_idempotency_key p = j_id j)
             (\<lambda>p. p\<lparr>p_duplicate_requests := p_duplicate_requests p + 1\<rparr>) (mock_provider_log s)) =
           [p\<lparr>p_duplicate_requests := p_duplicate_requests p + 1\<rparr>]"
    by (subst filter_update_where_same) (simp_all add: assms, simp add: update_where_def key)
qed

lemma record_send_row:
  assumes keys: "distinct (provider_keys s)" and sent: "record_send env j s = Inr (r, s1)"
    and old: "\<And>p. p \<in> set (mock_provider_log s) \<Longrightarrow> 0 \<le> p_duplicate_requests p"
  shows "\<exists>p. filter (\<lambda>p. p_idempotency_key p = j_id j) (mock_provider_log s1) = [p] \<and>
    message_id (p_id p) = sr_provider_message_id r \<and> 0 \<le> p_duplicate_requests p"
proof (cases "j_id j \<in> set (provider_keys s)")
  case True
  then obtain p where p: "p \<in> set (mock_provider_log s)" "j_id j = p_idempotency_key p"
    by (auto simp: provider_keys_def)
  have one: "filter (\<lambda>q. p_idempotency_key q = j_id j) (mock_provider_log s) = [p]"
    unfolding p(2) by (rule filter_key_unique [OF keys [unfolded provider_keys_def] p(1)])
  from sent record_send_known [OF one] old [OF p(1)] show ?thesis by auto
next
  case False
  then have "filter (\<lambda>p. p_idempotency_key p = j_id j) (mock_provider_log s) = []"
    by (force simp: provider_keys_def filter_empty_conv)
  with sent show ?thesis by (auto simp: record_send_def returning_def split: if_splits)
qed

text \<open>
  The provider delivers a job once. After a send of a job that the provider accepted, every
  further send of that job that it accepts returns the same message id, is flagged as a duplicate,
  adds no row to the provider's log and counts one more duplicate request in the job's row.
\<close>

theorem resend_is_absorbed:
  assumes keys: "distinct (provider_keys s)" and same: "j_id j' = j_id j"
    and sent: "mock_send f e j s = (Inr r, s1)" and again: "mock_send f' e' j' s1 = (Inr r', s2)"
    and old: "\<And>p. p \<in> set (mock_provider_log s) \<Longrightarrow> 0 \<le> p_duplicate_requests p"
  shows "sr_provider_message_id r' = sr_provider_message_id r \<and> sr_deduplicated r' \<and>
     provider_keys s2 = provider_keys s1 \<and>
     (\<exists>p. filter (\<lambda>p. p_idempotency_key p = j_id j) (mock_provider_log s1) = [p] \<and>
        filter (\<lambda>p. p_idempotency_key p = j_id j) (mock_provider_log s2) =
          [p\<lparr>p_duplicate_requests := p_duplicate_requests p + 1\<rparr>])"
proof -
  obtain p where p: "filter (\<lambda>p. p_idempotency_key p = j_id j) (mock_provider_log s1) = [p]"
      "message_id (p_id p) = sr_provider_message_id r" "0 \<le> p_duplicate_requests p"
    using record_send_row [OF keys mock_send_InrD [OF sent] old] by blast
  have p': "filter (\<lambda>p. p_idempotency_key p = j_id j') (mock_provider_log s1) = [p]" using p(1) same by simp
  show ?thesis
    using mock_send_InrD [OF again] record_send_known [OF p'] p
    by (auto simp: same provider_keys_def map_update_where_same)
qed

definition demo_send :: send_env where
  "demo_send = \<lparr>se_sample = 1 / 2, se_fate = Commits, se_env = demo_env, se_timely = True, se_cut = False\<rparr>"

theorem resend_is_absorbed_witness:
  "\<exists>r s1 r' s2. mock_send (1 / 10) demo_send demo_claimed demo_db_claimed = (Inr r, s1) \<and>
     mock_send (1 / 10) demo_send demo_claimed s1 = (Inr r', s2) \<and> sr_deduplicated r' \<and> length (provider_keys s2) = 1"
proof -
  obtain r s1 where first: "mock_send (1 / 10) demo_send demo_claimed demo_db_claimed = (Inr r, s1)"
    and one: "provider_keys s1 = [''j1'']"
    by (simp add: mock_send_def record_send_def demo_send_def begin_tx_def returning_def provider_keys_def demo_defs)
  obtain r' s2 where second: "mock_send (1 / 10) demo_send demo_claimed s1 = (Inr r', s2)"
    using one by (cases "mock_provider_log s1")
      (auto simp: mock_send_def record_send_def demo_send_def begin_tx_def returning_def provider_keys_def demo_defs)
  have "provider_keys demo_db_claimed = []" "mock_provider_log demo_db_claimed = []"
    by (simp_all add: provider_keys_def demo_db_claimed_def empty_db_def)
  with resend_is_absorbed [OF _ refl first second] first second one show ?thesis by fastforce
qed

end
