(* ===== verification/Worker.thy ===== *)
theory Worker
  imports Senders
begin

text \<open>
  The worker process: \<open>worker/loop.py\<close>, \<open>worker/reaper.py\<close> and \<open>worker/common.py\<close>. The coroutine
  \<open>_process\<close>/\<open>_deliver\<close> of one claimed job is a \<open>flight\<close>: a state machine that does the code between
  two suspension points in one step, so that the flights of a batch, other workers, the reaper and
  the API can interleave with it at exactly the points where the code awaits. Each step has its own
  environment \<open>worker_env\<close>. The rate limiter and the sender are the two protocols the worker takes.
\<close>

section \<open>Flights\<close>

text \<open>What the code knows after the \<open>try\<close> around the send.\<close>

record send_report =
  sp_error :: "string option"
  sp_permanent :: bool
  sp_refund_slot :: bool
  sp_message_id :: "string option"

datatype after_release = AfterReturn | AfterRecord transition bool

datatype phase =
    Acquiring
  | Returning real bool        \<comment> \<open>\<open>delay_seconds\<close>; whether for lack of lease budget\<close>
  | Sending
  | Finalizing send_report
  | Releasing after_release
  | Done

text \<open>
  \<open>fl_stats\<close> are the keys the coroutine added to \<open>Worker.stats\<close>, \<open>fl_tasks\<close> the invalidations it
  handed to the \<open>CacheInvalidator\<close> that have not run yet.
\<close>

record flight =
  fl_job :: job
  fl_deadline :: time
  fl_worker :: string
  fl_phase :: phase
  fl_stats :: "string list"
  fl_tasks :: "(uuid \<times> int) list"

record worker_env =
  we_clock :: time             \<comment> \<open>\<open>time.monotonic()\<close>\<close>
  we_limit :: limiter_env
  we_send :: send_env
  we_fate :: tx_fate
  we_env :: txenv
  we_sample :: real            \<comment> \<open>the sample of the backoff jitter\<close>

definition start_flight :: "string \<Rightarrow> time \<Rightarrow> job \<Rightarrow> flight" where
  "start_flight worker deadline j =
     \<lparr> fl_job = j, fl_deadline = deadline, fl_worker = worker, fl_phase = Acquiring, fl_stats = [], fl_tasks = [] \<rparr>"

definition count_stat :: "string \<Rightarrow> flight \<Rightarrow> flight" where
  "count_stat key f = f\<lparr>fl_stats := fl_stats f @ [key]\<rparr>"

text \<open>\<open>CacheInvalidator.invalidate\<close>; a process without a cache has no \<open>JobCache\<close> there.\<close>

definition invalidate_later :: "settings \<Rightarrow> transition \<Rightarrow> flight \<Rightarrow> flight" where
  "invalidate_later c t f =
     (if cache_enabled c then f\<lparr>fl_tasks := fl_tasks f @ [(t_job_id t, t_version t)]\<rparr> else f)"

text \<open>The \<open>except Exception\<close> of \<open>_process\<close>.\<close>

definition abandon :: "flight \<Rightarrow> flight" where
  "abandon f = count_stat ''errors'' (f\<lparr>fl_phase := Done\<rparr>)"

definition claim_token_of :: "job \<Rightarrow> uuid" where
  "claim_token_of j = coalesce (j_claim_token j) ''''"

section \<open>The phases of \<open>_deliver\<close>\<close>

definition has_budget :: "settings \<Rightarrow> time \<Rightarrow> time \<Rightarrow> bool" where
  "has_budget c deadline clock \<longleftrightarrow> \<not> deadline - clock < send_budget_seconds c"

definition acquire_phase ::
  "settings \<Rightarrow> 'r rate_limiter \<Rightarrow> worker_env \<Rightarrow> flight \<Rightarrow> 'r world \<Rightarrow> flight \<times> 'r world"
where
  "acquire_phase c L e f w =
     (if j_claim_token (fl_job f) = None then (abandon f, w)
      else case rl_acquire L (we_limit e) (fl_job f) w of
             (Inl x, w1) \<Rightarrow> (abandon f, w1)
           | (Inr (Some retry_after), w1) \<Rightarrow> (f\<lparr>fl_phase := Returning retry_after False\<rparr>, w1)
           | (Inr None, w1) \<Rightarrow>
               (f\<lparr>fl_phase := (if has_budget c (fl_deadline f) (we_clock e) then Sending else Returning 0 True)\<rparr>, w1))"

definition return_phase ::
  "settings \<Rightarrow> worker_env \<Rightarrow> real \<Rightarrow> bool \<Rightarrow> flight \<Rightarrow> 'r world \<Rightarrow> flight \<times> 'r world"
where
  "return_phase c e delay no_budget f w =
     (case in_tx (we_fate e)
             (return_to_queue (we_env e) (j_id (fl_job f)) (claim_token_of (fl_job f)) delay) w of
        (Inl x, w1) \<Rightarrow> (abandon f, w1)
      | (Inr None, w1) \<Rightarrow>
          (count_stat (if no_budget then ''lease_budget_exceeded'' else ''rate_limited'') (f\<lparr>fl_phase := Done\<rparr>), w1)
      | (Inr (Some t), w1) \<Rightarrow>
          (let f1 = invalidate_later c t f
           in (if no_budget then f1\<lparr>fl_phase := Releasing AfterReturn\<rparr>
               else count_stat ''rate_limited'' (f1\<lparr>fl_phase := Done\<rparr>)), w1))"

text \<open>
  \<open>f"{type(exc).__name__}: {exc}"\<close>; for the exceptions of libraries the text is the parameter \<open>lib\<close>.
\<close>

definition exn_text :: "(exn \<Rightarrow> string) \<Rightarrow> exn \<Rightarrow> string" where
  "exn_text lib x =
     (case x of
        PyValueError m \<Rightarrow> ''ValueError: '' @ m
      | OtherError cls m \<Rightarrow> cls @ '': '' @ m
      | _ \<Rightarrow> lib x)"

definition report_of :: "(exn \<Rightarrow> string) \<Rightarrow> send_result result \<Rightarrow> send_report" where
  "report_of lib r =
     (case r of
        Inr x \<Rightarrow> \<lparr>sp_error = None, sp_permanent = False, sp_refund_slot = False,
                   sp_message_id = Some (sr_provider_message_id x)\<rparr>
      | Inl (PermanentDeliveryError m) \<Rightarrow>
          \<lparr>sp_error = Some (''PermanentDeliveryError: '' @ m), sp_permanent = True, sp_refund_slot = True,
           sp_message_id = None\<rparr>
      | Inl (DeliveryError m) \<Rightarrow>
          \<lparr>sp_error = Some (''DeliveryError: '' @ m), sp_permanent = False, sp_refund_slot = True,
           sp_message_id = None\<rparr>
      | Inl x \<Rightarrow>
          \<lparr>sp_error = Some (exn_text lib x), sp_permanent = False, sp_refund_slot = False, sp_message_id = None\<rparr>)"

type_synonym sender = "send_env \<Rightarrow> job \<Rightarrow> db \<Rightarrow> send_result result \<times> db"

definition send_phase ::
  "sender \<Rightarrow> (exn \<Rightarrow> string) \<Rightarrow> worker_env \<Rightarrow> flight \<Rightarrow> 'r world \<Rightarrow> flight \<times> 'r world"
where
  "send_phase send lib e f w =
     (let (r, s') = timed_send send (we_send e) (fl_job f) (w_db w);
          f1 = f\<lparr>fl_phase := Finalizing (report_of lib r)\<rparr>
      in (case r of Inr x \<Rightarrow> if sr_deduplicated x then count_stat ''provider_deduplicated'' f1 else f1
                  | Inl x \<Rightarrow> f1,
          w\<lparr>w_db := s'\<rparr>))"

text \<open>The block of the finalizing transaction.\<close>

definition record_result ::
  "settings \<Rightarrow> worker_env \<Rightarrow> string \<Rightarrow> job \<Rightarrow> send_report \<Rightarrow> db \<Rightarrow> (transition option \<times> db) result"
where
  "record_result c e worker j rp s =
     (case sp_error rp of
        None \<Rightarrow>
          mark_sent (we_env e) (j_id j) (claim_token_of j) worker (sp_message_id rp) (default_callback_url c) s
      | Some err \<Rightarrow>
          bind_result (backoff_delay (j_attempts j) (backoff_base_seconds c) (backoff_cap_seconds c) (we_sample e))
            (\<lambda>delay. mark_failed (we_env e) (j_id j) (claim_token_of j) worker err delay (sp_permanent rp)
                       (default_callback_url c) s))"

definition record_outcome :: "settings \<Rightarrow> transition \<Rightarrow> bool \<Rightarrow> flight \<Rightarrow> flight" where
  "record_outcome c t failed f =
     (let f1 = count_stat (status_value (t_status t)) (f\<lparr>fl_phase := Done\<rparr>);
          f2 = (if failed then count_stat ''failed_attempts'' f1 else f1)
      in invalidate_later c t f2)"

definition finalize_phase ::
  "settings \<Rightarrow> worker_env \<Rightarrow> send_report \<Rightarrow> flight \<Rightarrow> 'r world \<Rightarrow> flight \<times> 'r world"
where
  "finalize_phase c e rp f w =
     (case in_tx (we_fate e)
             (record_result c e (str_or (j_locked_by (fl_job f)) (fl_worker f)) (fl_job f) rp) w of
        (Inl x, w1) \<Rightarrow> (abandon f, w1)
      | (Inr None, w1) \<Rightarrow> (count_stat ''lease_lost'' (f\<lparr>fl_phase := Done\<rparr>), w1)
      | (Inr (Some t), w1) \<Rightarrow>
          (if sp_refund_slot rp then f\<lparr>fl_phase := Releasing (AfterRecord t (sp_error rp \<noteq> None))\<rparr>
           else record_outcome c t (sp_error rp \<noteq> None) f, w1))"

definition release_phase ::
  "settings \<Rightarrow> 'r rate_limiter \<Rightarrow> worker_env \<Rightarrow> after_release \<Rightarrow> flight \<Rightarrow> 'r world \<Rightarrow> flight \<times> 'r world"
where
  "release_phase c L e after f w =
     (case after of
        AfterReturn \<Rightarrow> count_stat ''lease_budget_exceeded'' (f\<lparr>fl_phase := Done\<rparr>)
      | AfterRecord t failed \<Rightarrow> record_outcome c t failed f,
      rl_release L (we_limit e) (fl_job f) w)"

definition deliver_step ::
  "settings \<Rightarrow> 'r rate_limiter \<Rightarrow> sender \<Rightarrow> (exn \<Rightarrow> string) \<Rightarrow> worker_env \<Rightarrow> flight \<Rightarrow> 'r world \<Rightarrow> flight \<times> 'r world"
where
  "deliver_step c L send lib e f w =
     (case fl_phase f of
        Acquiring \<Rightarrow> acquire_phase c L e f w
      | Returning delay no_budget \<Rightarrow> return_phase c e delay no_budget f w
      | Sending \<Rightarrow> send_phase send lib e f w
      | Finalizing rp \<Rightarrow> finalize_phase c e rp f w
      | Releasing after \<Rightarrow> release_phase c L e after f w
      | Done \<Rightarrow> (f, w))"

section \<open>One flight from start to end\<close>

text \<open>
  Step \<open>n\<close> of the flight runs in the environment \<open>es n\<close> after other processes have changed the world
  by \<open>oth n\<close>. Four steps are the longest path: acquire, send, record, release.
\<close>

fun run_flight ::
  "settings \<Rightarrow> 'r rate_limiter \<Rightarrow> sender \<Rightarrow> (exn \<Rightarrow> string) \<Rightarrow> (nat \<Rightarrow> worker_env) \<Rightarrow> (nat \<Rightarrow> 'r world \<Rightarrow> 'r world) \<Rightarrow>
   nat \<Rightarrow> nat \<Rightarrow> flight \<Rightarrow> 'r world \<Rightarrow> flight \<times> 'r world"
where
  "run_flight c L send lib es oth 0 n f w = (f, w)"
| "run_flight c L send lib es oth (Suc fuel) n f w =
     (if fl_phase f = Done then (f, w)
      else let (f1, w1) = deliver_step c L send lib (es n) f (oth n w)
           in run_flight c L send lib es oth fuel (Suc n) f1 w1)"

definition deliver_fuel :: nat where
  "deliver_fuel = 4"

definition process ::
  "settings \<Rightarrow> 'r rate_limiter \<Rightarrow> sender \<Rightarrow> (exn \<Rightarrow> string) \<Rightarrow> (nat \<Rightarrow> worker_env) \<Rightarrow> (nat \<Rightarrow> 'r world \<Rightarrow> 'r world) \<Rightarrow>
   flight \<Rightarrow> 'r world \<Rightarrow> flight \<times> 'r world"
where
  "process c L send lib es oth f w = run_flight c L send lib es oth deliver_fuel 0 f w"

section \<open>Batches\<close>

text \<open>
  \<open>run_batch\<close>: the deadline counts from a clock reading taken before the claim; then the flights of
  the batch run concurrently, here in the order of a schedule of flight numbers.
\<close>

definition claim_batch ::
  "settings \<Rightarrow> string \<Rightarrow> string option \<Rightarrow> time \<Rightarrow> tx_fate \<Rightarrow> txenv \<Rightarrow> 'r world \<Rightarrow> flight list result \<times> 'r world"
where
  "claim_batch c worker loop_id clock fate env w =
     (case in_tx fate (claim_due_jobs env (str_or loop_id worker) (batch_size c) (lease_seconds c)) w of
        (Inl x, w1) \<Rightarrow> (Inl x, w1)
      | (Inr js, w1) \<Rightarrow> (Inr (map (start_flight worker (clock + lease_seconds c)) js), w1))"

fun run_flights ::
  "settings \<Rightarrow> 'r rate_limiter \<Rightarrow> sender \<Rightarrow> (exn \<Rightarrow> string) \<Rightarrow> (nat \<times> worker_env) list \<Rightarrow> flight list \<Rightarrow> 'r world \<Rightarrow>
   flight list \<times> 'r world"
where
  "run_flights c L send lib [] fs w = (fs, w)"
| "run_flights c L send lib ((i, e) # sched) fs w =
     (if i < length fs
      then let (f', w') = deliver_step c L send lib e (fs ! i) w
           in run_flights c L send lib sched (fs[i := f']) w'
      else run_flights c L send lib sched fs w)"

definition run_batch ::
  "settings \<Rightarrow> 'r rate_limiter \<Rightarrow> sender \<Rightarrow> (exn \<Rightarrow> string) \<Rightarrow> string \<Rightarrow> string option \<Rightarrow> time \<Rightarrow> tx_fate \<Rightarrow> txenv \<Rightarrow>
   (nat \<times> worker_env) list \<Rightarrow> 'r world \<Rightarrow> nat result \<times> flight list \<times> 'r world"
where
  "run_batch c L send lib worker loop_id clock fate env sched w =
     (case claim_batch c worker loop_id clock fate env w of
        (Inl x, w1) \<Rightarrow> (Inl x, [], w1)
      | (Inr fs, w1) \<Rightarrow> (Inr (length fs), run_flights c L send lib sched fs w1))"

section \<open>Invalidations and the reaper\<close>

text \<open>One background invalidation of the \<open>CacheInvalidator\<close> runs.\<close>

definition run_task :: "'r redis_cmds \<Rightarrow> settings \<Rightarrow> redis_env \<Rightarrow> uuid \<times> int \<Rightarrow> 'r \<Rightarrow> 'r" where
  "run_task R c e task s = (case task of (i, v) \<Rightarrow> cache_invalidate_job R c e i v s)"

definition reaper_block :: "settings \<Rightarrow> txenv \<Rightarrow> db \<Rightarrow> (transition list \<times> db) result" where
  "reaper_block c env s =
     bind_result (reap_expired_leases env (reaper_batch_size c) (default_callback_url c) s) (\<lambda>(reaped, s1).
     bind_result (delete_old_rate_limit_buckets env (rate_limit_window_seconds c) s1) (\<lambda>(n, s2).
       Inr (reaped, s2)))"

text \<open>The reaper's invalidations are handed to the same \<open>CacheInvalidator\<close>.\<close>

definition reaper_run_once ::
  "settings \<Rightarrow> tx_fate \<Rightarrow> txenv \<Rightarrow> 'r world \<Rightarrow> (transition list \<times> (uuid \<times> int) list) result \<times> 'r world"
where
  "reaper_run_once c fate env w =
     (case in_tx fate (reaper_block c env) w of
        (Inl x, w1) \<Rightarrow> (Inl x, w1)
      | (Inr reaped, w1) \<Rightarrow>
          (Inr (reaped, if cache_enabled c then map (\<lambda>t. (t_job_id t, t_version t)) reaped else []), w1))"

end
