(* ===== verification/Worker_Delivery.thy ===== *)
theory Worker_Delivery
  imports Worker_Properties
begin

text \<open>
  Deliveries from end to end: what an undisturbed flight leaves in the database, the cache queue and
  the limiter, for each answer of the provider; a job put back unsent; and the timing argument that
  keeps a send inside the lease of its claim.
\<close>

section \<open>Recording a result while owning the job\<close>

definition recorded_row :: "txenv \<Rightarrow> send_report \<Rightarrow> real \<Rightarrow> job \<Rightarrow> job" where
  "recorded_row env rp delay j =
     (case sp_error rp of None \<Rightarrow> sent_row env j | Some err \<Rightarrow> failed_row env err delay (sp_permanent rp) j)"

lemma recorded_row_simps [simp]:
  "j_id (recorded_row env rp d j) = j_id j" "j_version (recorded_row env rp d j) = j_version j + 1"
  by (simp_all add: recorded_row_def split: option.split)

lemma record_result_owned:
  assumes inv: "db_inv {} s" and fresh: "fresh_ids (we_env e) s" and j: "j \<in> set (jobs s)" "owns i tok j"
    and delay: "backoff_delay (j_attempts j) (backoff_base_seconds c) (backoff_cap_seconds c) (we_sample e) = Inr d"
  shows "\<exists>s'. record_result c e wk j rp s = Inr (Some (job_transition (recorded_row (we_env e) rp d j)), s') \<and>
     db_inv {} s' \<and> get_job s' i = Some (recorded_row (we_env e) rp d j) \<and> provider_keys s' = provider_keys s"
proof -
  have ids: "j_id j = i" "claim_token_of j = tok" using j(2) by (simp_all add: owns_def claim_token_of_def)
  let ?row = "recorded_row (we_env e) rp d j"
  have found: "get_job s' i = Some ?row" if "db_inv {} s'" "?row \<in> set (jobs s')" for s'
    using get_job_Some [OF db_invD(1) [OF that(1)] that(2)] ids by simp
  show ?thesis
  proof (cases "sp_error rp")
    case None
    let ?s' = "sent_closing (we_env e) wk (sp_message_id rp) (default_callback_url c) (sent_row (we_env e) j)
        (s\<lparr>jobs := update_where (owns i tok) (sent_row (we_env e)) (jobs s)\<rparr>)"
    have "provider_keys ?s' = provider_keys s" by (simp add: provider_keys_def sent_closing_def)
    moreover have "?row \<in> set (jobs ?s')"
      using j None by (force simp: recorded_row_def sent_closing_def)
    moreover note mark_sent_owned [OF inv fresh j, where w = wk and msg = "sp_message_id rp" and url = "default_callback_url c"]
    ultimately show ?thesis using None found [of ?s'] by (simp add: record_result_def ids recorded_row_def)
  next
    case (Some err)
    let ?s' = "failure_closing (we_env e) (Some wk) OutFailed err (failure_reason (sp_permanent rp))
        (default_callback_url c) (failed_row (we_env e) err d (sp_permanent rp) j)
        (s\<lparr>jobs := update_where (owns i tok) (failed_row (we_env e) err d (sp_permanent rp)) (jobs s)\<rparr>)"
    have "provider_keys ?s' = provider_keys s" by (simp add: provider_keys_def failure_closing_def)
    moreover have "?row \<in> set (jobs ?s')"
      using j Some by (force simp: recorded_row_def failure_closing_def)
    moreover note mark_failed_owned [OF inv fresh j, where w = wk and err = err and p = "sp_permanent rp"
      and url = "default_callback_url c" and d = d]
    ultimately show ?thesis using Some found [of ?s'] by (simp add: record_result_def ids recorded_row_def delay)
  qed
qed

section \<open>An undisturbed delivery\<close>

definition undisturbed :: "nat \<Rightarrow> 'r world \<Rightarrow> 'r world" where
  "undisturbed n w = w"

definition outcome_stats :: "send_result result \<Rightarrow> send_report \<Rightarrow> job_status \<Rightarrow> string list" where
  "outcome_stats r rp st =
     (case r of Inr x \<Rightarrow> if sr_deduplicated x then [''provider_deduplicated''] else [] | Inl x \<Rightarrow> []) @
     status_value st # (if sp_error rp = None then [] else [''failed_attempts''])"

context worker_parts
begin

lemma delivery_alone:
  fixes lib :: "exn \<Rightarrow> string" and d :: real
  assumes inv: "db_inv {} (w_db w)" and j: "j \<in> set (jobs (w_db w))" "owns i tok j"
    and admitted: "rl_acquire L (we_limit (es 0)) j w = (Inr None, w1)"
    and budget: "has_budget c deadline (we_clock (es 0))"
    and sent: "timed_send send (we_send (es 1)) j (w_db w1) = (r, s2)"
    and commit: "we_fate (es 2) = Commits" "fresh_ids (we_env (es 2)) s2"
    and delay: "backoff_delay (j_attempts j) (backoff_base_seconds c) (backoff_cap_seconds c) (we_sample (es 2)) = Inr d"
  defines "rp \<equiv> report_of lib r"
  defines "row \<equiv> recorded_row (we_env (es 2)) rp d j"
  shows "\<exists>f' w'. process c L send lib es undisturbed (start_flight worker deadline j) w = (f', w') \<and>
     get_job (w_db w') i = Some row \<and> fl_phase f' = Done \<and> fl_stats f' = outcome_stats r rp (j_status row) \<and>
     fl_tasks f' = (if cache_enabled c then [(i, j_version j + 1)] else []) \<and>
     provider_keys (w_db w') = provider_keys s2 \<and> db_inv {} (w_db w') \<and>
     (\<exists>w3. w_redis w3 = w_redis w1 \<and> w' = (if sp_refund_slot rp then rl_release L (we_limit (es 3)) j w3 else w3))"
proof -
  have ids: "j_id j = i" "claim_token_of j = tok" "j_claim_token j = Some tok"
    using j(2) by (simp_all add: owns_def claim_token_of_def)
  obtain b where b: "w_db w1 = (w_db w)\<lparr>rate_limit_buckets := b\<rparr>"
    using acquire_frame [of "we_limit (es 0)" j w] admitted by auto
  have s2: "s2 = snd (timed_send send (we_send (es 1)) j (w_db w1))" using sent by simp
  have inv2: "db_inv {} s2" unfolding s2 by (rule timed_inv) (simp add: b inv)
  have j2: "j \<in> set (jobs s2)" by (simp add: s2 timed_same b j)
  obtain f2 where f2_eq: "f2 = fst (send_phase send lib (es 1) ((start_flight worker deadline j)\<lparr>fl_phase := Sending\<rparr>) w1)"
    by simp
  let ?w2 = "w1\<lparr>w_db := s2\<rparr>" and ?wk = "str_or (j_locked_by j) worker"
  obtain s3 where s3: "record_result c (es 2) ?wk j rp s2 = Inr (Some (job_transition row), s3)"
    "db_inv {} s3" "get_job s3 i = Some row" "provider_keys s3 = provider_keys s2"
    using record_result_owned [OF inv2 commit(2) j2 j(2) delay, of ?wk rp] unfolding row_def by blast
  let ?w3 = "?w2\<lparr>w_db := s3\<rparr>"
  have one: "deliver_step c L send lib (es 0) (start_flight worker deadline j) w =
      ((start_flight worker deadline j)\<lparr>fl_phase := Sending\<rparr>, w1)"
    by (simp add: deliver_step_def acquire_phase_def start_flight_def ids admitted budget)
  have two: "deliver_step c L send lib (es 1) ((start_flight worker deadline j)\<lparr>fl_phase := Sending\<rparr>) w1 = (f2, ?w2)"
    by (simp add: deliver_step_def send_phase_def start_flight_def sent Let_def f2_eq del: One_nat_def)
  have f2: "fl_phase f2 = Finalizing rp" "fl_job f2 = j" "fl_tasks f2 = []" "fl_worker f2 = worker"
    "fl_stats f2 = (case r of Inr x \<Rightarrow> if sr_deduplicated x then [''provider_deduplicated''] else [] | Inl x \<Rightarrow> [])"
    by (simp_all add: send_phase_def start_flight_def sent rp_def count_stat_def Let_def f2_eq split: sum.split del: One_nat_def)
  have in_tx: "in_tx (we_fate (es 2)) (record_result c (es 2) ?wk j rp) ?w2 = (Inr (Some (job_transition row)), ?w3)"
    by (simp add: in_tx_def begin_tx_def commit(1) s3(1))
  let ?err = "sp_error rp \<noteq> None" and ?t = "job_transition row"
  have three: "deliver_step c L send lib (es 2) f2 ?w2 =
      (if sp_refund_slot rp then f2\<lparr>fl_phase := Releasing (AfterRecord ?t ?err)\<rparr> else record_outcome c ?t ?err f2, ?w3)"
    by (simp add: deliver_step_def f2(1) finalize_phase_def f2(2,4) in_tx)
  let ?f3 = "record_outcome c ?t ?err f2"
  have four: "deliver_step c L send lib (es 3) (f2\<lparr>fl_phase := Releasing (AfterRecord ?t ?err)\<rparr>) ?w3 =
      (record_outcome c ?t ?err (f2\<lparr>fl_phase := Releasing (AfterRecord ?t ?err)\<rparr>), rl_release L (we_limit (es 3)) j ?w3)"
    by (simp add: deliver_step_def release_phase_def f2(2))
  have same: "record_outcome c ?t ?err (f2\<lparr>fl_phase := Releasing (AfterRecord ?t ?err)\<rparr>) = ?f3"
    by (simp add: record_outcome_def)
  have phase: "fl_phase (start_flight worker deadline j) \<noteq> Done" by (simp add: start_flight_def)
  have run: "process c L send lib es undisturbed (start_flight worker deadline j) w =
      (?f3, if sp_refund_slot rp then rl_release L (we_limit (es 3)) j ?w3 else ?w3)"
    using one two three four same f2(1) phase
    by (simp add: process_def deliver_fuel_def eval_nat_numeral undisturbed_def)
  show ?thesis
    unfolding run using s3(2-4) release_frame [of "we_limit (es 3)" j ?w3]
    by (auto simp: record_outcome_def invalidate_later_def count_stat_def outcome_stats_def f2(3,5) job_transition_def row_def ids
        intro!: exI [of _ ?w3])
qed


lemma unsent_alone:
  assumes inv: "db_inv {} s" and claim: "claim_due_jobs env wk n l s = Inr (cs, w_db w)" and k: "k \<in> set cs"
    and refused: "rl_acquire L (we_limit (es 0)) k w = (Inr (if late then None else Some d), w1)"
    and budget: "late \<Longrightarrow> d = 0 \<and> \<not> has_budget c deadline (we_clock (es 0))"
    and commit: "we_fate (es 1) = Commits"
  shows "\<exists>f' w' j r. process c L send lib es undisturbed (start_flight worker deadline k) w = (f', w') \<and>
     fl_phase f' = Done \<and> j \<in> set (jobs s) \<and> k = claim_row env wk l j \<and> get_job (w_db w') (j_id j) = Some r \<and>
     j_status r = PENDING \<and> j_run_at r = now (we_env (es 1)) + d \<and> j_attempts r = j_attempts j \<and>
     j_max_attempts r = j_max_attempts j \<and> j_last_error r = j_last_error j \<and>
     job_attempts (w_db w') = job_attempts s \<and> mock_provider_log (w_db w') = mock_provider_log s \<and>
     fl_stats f' = [if late then ''lease_budget_exceeded'' else ''rate_limited''] \<and>
     (\<exists>w2. w_redis w2 = w_redis w1 \<and> w' = (if late then rl_release L (we_limit (es 2)) k w2 else w2))"
proof -
  obtain due where due: "select_due env n s = Inr due" and cs: "set cs = claim_row env wk l ` set due"
    and w: "w_db w = s\<lparr>jobs := update_where (\<lambda>j. j_id j \<in> set (map j_id due)) (claim_row env wk l) (jobs s)\<rparr>"
    using claim_due_jobsE [OF claim db_invD(1) [OF inv]] by metis
  from k cs obtain j where jd: "j \<in> set due" and kj: "k = claim_row env wk l j" by auto
  have j: "j \<in> set (jobs s)" using select_dueD [OF due jd] by simp
  have inv1: "db_inv {} (w_db w)" by (rule claim_due_jobs_keeps [OF inv claim])
  have kin: "k \<in> set (jobs (w_db w))" using j jd by (force simp: w kj)
  let ?tok = "gen_token env (j_id j)" and ?i = "j_id j"
  have k_eq: "j_id k = ?i" "claim_token_of k = ?tok" "j_claim_token k = Some ?tok" "owns ?i ?tok k"
    by (simp_all add: kj claim_token_of_def owns_def)
  obtain b where b: "w_db w1 = (w_db w)\<lparr>rate_limit_buckets := b\<rparr>"
    using acquire_frame [of "we_limit (es 0)" k w] refused by auto
  have inv2: "db_inv {} (w_db w1)" and kin2: "k \<in> set (jobs (w_db w1))" by (simp_all add: b inv1 kin)
  let ?e = "we_env (es 1)"
  let ?row = "returned_row ?e d k"
  let ?s2 = "(w_db w1)\<lparr>jobs := update_where (owns ?i ?tok) (returned_row ?e d) (jobs (w_db w1))\<rparr>"
  let ?w2 = "w1\<lparr>w_db := ?s2\<rparr>" and ?f = "start_flight worker deadline k" and ?t = "job_transition ?row"
  have tx: "in_tx (we_fate (es 1)) (return_to_queue ?e ?i ?tok d) w1 = (Inr (Some ?t), ?w2)"
    using return_to_queue_owned [OF db_invD(1) [OF inv2] kin2 k_eq(4), of ?e d]
    by (simp add: in_tx_def begin_tx_def commit del: One_nat_def)
  have one: "deliver_step c L send lib (es 0) ?f w = (?f\<lparr>fl_phase := Returning d late\<rparr>, w1)"
    using refused budget
    by (cases late) (simp_all add: deliver_step_def acquire_phase_def start_flight_def k_eq)
  obtain f2 where two: "deliver_step c L send lib (es 1) (?f\<lparr>fl_phase := Returning d late\<rparr>) w1 = (f2, ?w2)"
    and f2: "fl_phase f2 = (if late then Releasing AfterReturn else Done)" "fl_job f2 = k"
      "fl_stats f2 = (if late then [] else [''rate_limited''])"
    using tx by (cases late) (simp_all add: deliver_step_def return_phase_def start_flight_def k_eq invalidate_later_def count_stat_def)
  let ?w3 = "if late then rl_release L (we_limit (es 2)) k ?w2 else ?w2"
  have three: "late \<Longrightarrow> deliver_step c L send lib (es 2) f2 ?w2 =
      (count_stat ''lease_budget_exceeded'' (f2\<lparr>fl_phase := Done\<rparr>), rl_release L (we_limit (es 2)) k ?w2)"
    by (simp add: deliver_step_def release_phase_def f2)
  have phase: "fl_phase ?f \<noteq> Done" by (simp add: start_flight_def)
  obtain f' where run: "process c L send lib es undisturbed ?f w = (f', ?w3)" and f': "fl_phase f' = Done"
      "fl_stats f' = [if late then ''lease_budget_exceeded'' else ''rate_limited'']"
    using one two three f2 phase
    by (cases late) (auto simp: process_def deliver_fuel_def eval_nat_numeral undisturbed_def count_stat_def)
  have w3: "w_db ?w3 = ?s2" by (simp add: release_frame)
  have got: "get_job (w_db ?w3) ?i = Some ?row"
    unfolding w3
    using get_job_Some [OF db_invD(1) [OF returned_row_keeps [OF inv2]], of ?row ?i ?tok ?e d] kin2 k_eq(4) k_eq(1) by auto
  have same: "job_attempts (w_db ?w3) = job_attempts s" "mock_provider_log (w_db ?w3) = mock_provider_log s"
    unfolding w3 by (simp_all add: b w)
  have row: "j_status ?row = PENDING" "j_run_at ?row = now ?e + d" "j_attempts ?row = j_attempts j"
    "j_max_attempts ?row = j_max_attempts j" "j_last_error ?row = j_last_error j"
    by (simp_all add: kj returned_row_def claim_row_def)
  have redis: "\<exists>w2. w_redis w2 = w_redis w1 \<and> ?w3 = (if late then rl_release L (we_limit (es 2)) k w2 else w2)"
    by (rule exI [of _ ?w2], rule conjI, simp, rule refl)
  show ?thesis
    by (rule exI [of _ f'], rule exI [of _ ?w3], rule exI [of _ j], rule exI [of _ ?row])
      (intro conjI run f'(1) j kj got row same f'(2) redis)
qed

end

text \<open>
  C20: an undisturbed delivery records exactly what the provider answered. An accepted send makes the
  job \<open>sent\<close>; any other answer makes it pending again after the backoff delay or dead-letters it
  (\<open>failed_row\<close>); the slot of the rate limit is handed back exactly when the provider said that it
  rejected the message; the cache is told to forget every version up to the new one; and the
  counters name the outcome. It holds for every limiter and sender that keep their protocols.
\<close>

theorem delivery_records_the_answer:
  fixes d :: real and lib :: "exn \<Rightarrow> string"
  assumes parts: "limiter_contract L c" "sender_contract send"
    and inv: "db_inv {} (w_db w)" and j: "j \<in> set (jobs (w_db w))" "owns i tok j"
    and admitted: "rl_acquire L (we_limit (es 0)) j w = (Inr None, w1)"
    and budget: "has_budget c deadline (we_clock (es 0))"
    and sent: "timed_send send (we_send (es 1)) j (w_db w1) = (r, s2)"
    and commit: "we_fate (es 2) = Commits" "fresh_ids (we_env (es 2)) s2"
    and delay: "backoff_delay (j_attempts j) (backoff_base_seconds c) (backoff_cap_seconds c) (we_sample (es 2)) = Inr d"
  shows "\<exists>f' w'. process c L send lib es undisturbed (start_flight worker deadline j) w = (f', w') \<and>
     get_job (w_db w') i = Some (recorded_row (we_env (es 2)) (report_of lib r) d j) \<and> fl_phase f' = Done \<and>
     fl_stats f' = outcome_stats r (report_of lib r) (j_status (recorded_row (we_env (es 2)) (report_of lib r) d j)) \<and>
     fl_tasks f' = (if cache_enabled c then [(i, j_version j + 1)] else []) \<and>
     provider_keys (w_db w') = provider_keys s2 \<and> db_inv {} (w_db w') \<and>
     (\<exists>w3. w_redis w3 = w_redis w1 \<and>
        w' = (if \<exists>m. r = Inl (DeliveryError m) \<or> r = Inl (PermanentDeliveryError m)
              then rl_release L (we_limit (es 3)) j w3 else w3))"
proof -
  have refund: "sp_refund_slot (report_of lib r) = (\<exists>m. r = Inl (DeliveryError m) \<or> r = Inl (PermanentDeliveryError m))"
    by (auto simp: report_of_def split: sum.split exn.split)
  show ?thesis
    using worker_parts.delivery_alone [OF worker_parts.intro [OF parts] inv j admitted budget sent commit delay, of lib worker]
    unfolding refund .
qed

definition demo_config :: settings where
  "demo_config = default_settings\<lparr>cfg_rate_limit_backend := BackendPostgres\<rparr>"

definition demo_limit_env :: limiter_env where
  "demo_limit_env = \<lparr>le_redis = redis_at 10, le_fate = Commits, le_env = later 101\<rparr>"

definition demo_worker_env :: worker_env where
  "demo_worker_env =
     \<lparr> we_clock = 1, we_limit = demo_limit_env, we_send = demo_send, we_fate = Commits, we_env = later 101,
       we_sample = 1 / 2 \<rparr>"

definition demo_claimed_world :: "redis_store world" where
  "demo_claimed_world = \<lparr>w_db = demo_db_claimed, w_redis = (\<lambda>_. None)\<rparr>"

definition demo_admitted_world :: "redis_store world" where
  "demo_admitted_world = demo_claimed_world\<lparr>w_db := demo_db_claimed\<lparr>rate_limit_buckets :=
     [\<lparr>b_recipient = ''ada@example.com'', b_window_start = 0, b_count = 1\<rparr>]\<rparr>\<rparr>"

lemma demo_config_limiter: "build_rate_limiter mem_redis demo_config = postgres_limiter demo_config"
  by (simp add: build_rate_limiter_def demo_config_def)

lemma demo_admits:
  "rl_acquire (build_rate_limiter mem_redis demo_config) demo_limit_env demo_claimed demo_claimed_world =
     (Inr None, demo_admitted_world)"
proof -
  have "\<lfloor>101 / 3600 :: real\<rfloor> = 0" by (simp add: floor_eq_iff)
  then show ?thesis
    unfolding demo_config_limiter postgres_limiter_def
    by (simp add: postgres_acquire_def in_tx_def begin_tx_def try_acquire_rate_limit_def demo_limit_env_def
        demo_claimed_world_def demo_admitted_world_def demo_db_claimed_def empty_db_def demo_config_def
        default_settings_def window_start_at_def)
      (simp add: demo_defs)
qed

theorem delivery_records_the_answer_witness:
  "\<exists>f' w' r. process demo_config (build_rate_limiter mem_redis demo_config) (mock_send (1 / 10)) (\<lambda>_. [])
       (\<lambda>_. demo_worker_env) undisturbed (start_flight ''w'' 30 demo_claimed) demo_claimed_world = (f', w') \<and>
     get_job (w_db w') ''j1'' = Some r \<and> j_status r = SENT \<and> provider_keys (w_db w') = [''j1'']"
proof -
  obtain r s2 where sent: "timed_send (mock_send (1 / 10)) demo_send demo_claimed (w_db demo_admitted_world) = (Inr r, s2)"
    and s2: "provider_keys s2 = [''j1'']" "webhook_outbox s2 = []" "job_ids s2 = [''j1'']"
    by (simp add: timed_send_def mock_send_def record_send_def demo_send_def begin_tx_def returning_def provider_keys_def
        demo_admitted_world_def demo_claimed_world_def job_ids_def Let_def)
      (simp add: demo_defs begin_tx_def record_send_def returning_def)
  have fresh: "fresh_ids (later 101) s2" by (rule demo_fresh) (simp_all add: s2)
  have parts: "limiter_contract (build_rate_limiter mem_redis demo_config) demo_config" "sender_contract (mock_send (1 / 10))"
    by (rule build_limiter_contract, rule mock.sender_contract_axioms)
  have delay: "backoff_delay (j_attempts demo_claimed) (backoff_base_seconds demo_config) (backoff_cap_seconds demo_config)
      (1 / 2) = Inr (3 / 2)"
    by (simp add: backoff_delay_def backoff_ceiling_def uniform_def float_max_exp_def demo_config_def default_settings_def Let_def)
      (simp add: demo_defs)
  have env: "we_limit demo_worker_env = demo_limit_env" "we_send demo_worker_env = demo_send"
    "we_fate demo_worker_env = Commits" "we_env demo_worker_env = later 101" "we_sample demo_worker_env = 1 / 2"
    "we_clock demo_worker_env = 1"
    by (simp_all add: demo_worker_env_def)
  have "has_budget demo_config 30 1"
    by (simp add: has_budget_def send_budget_seconds_def demo_config_def default_settings_def)
  with delivery_records_the_answer [OF parts, where w = demo_claimed_world and j = demo_claimed and i = "''j1''" and tok = "''tj1''"
      and es = "\<lambda>_. demo_worker_env" and deadline = 30 and lib = "\<lambda>_. []" and worker = "''w''", unfolded env,
      OF _ _ demo_owned demo_admits _ sent _ fresh delay]
  obtain f' w' where "process demo_config (build_rate_limiter mem_redis demo_config) (mock_send (1 / 10)) (\<lambda>_. [])
       (\<lambda>_. demo_worker_env) undisturbed (start_flight ''w'' 30 demo_claimed) demo_claimed_world = (f', w')"
    "get_job (w_db w') ''j1'' = Some (recorded_row (later 101) (report_of (\<lambda>_. []) (Inr r)) (3 / 2) demo_claimed)"
    "provider_keys (w_db w') = provider_keys s2"
    by (auto simp: demo_claimed_world_def demo_db_claimed_inv)
  then show ?thesis by (auto simp: s2 recorded_row_def report_of_def)
qed

text \<open>
  C21: a job put back unsent has used nothing. When the limiter says to wait, or too little of the
  lease is left to send, the claimed job is pending again with the attempt count, the error and the
  attempts it had before the claim, is due after the wait, nothing was recorded or sent; and in the
  second case its slot is handed back.
\<close>

theorem unsent_job_uses_no_attempt:
  assumes parts: "limiter_contract L c" "sender_contract send"
    and inv: "db_inv {} s" and claim: "claim_due_jobs env wk n l s = Inr (cs, w_db w)" and k: "k \<in> set cs"
    and refused: "rl_acquire L (we_limit (es 0)) k w = (Inr (if late then None else Some d), w1)"
    and budget: "late \<Longrightarrow> d = 0 \<and> \<not> has_budget c deadline (we_clock (es 0))"
    and commit: "we_fate (es 1) = Commits"
  shows "\<exists>f' w' j r. process c L send lib es undisturbed (start_flight worker deadline k) w = (f', w') \<and>
     fl_phase f' = Done \<and> j \<in> set (jobs s) \<and> k = claim_row env wk l j \<and> get_job (w_db w') (j_id j) = Some r \<and>
     j_status r = PENDING \<and> j_run_at r = now (we_env (es 1)) + d \<and> j_attempts r = j_attempts j \<and>
     j_max_attempts r = j_max_attempts j \<and> j_last_error r = j_last_error j \<and>
     job_attempts (w_db w') = job_attempts s \<and> mock_provider_log (w_db w') = mock_provider_log s \<and>
     fl_stats f' = [if late then ''lease_budget_exceeded'' else ''rate_limited''] \<and>
     (\<exists>w2. w_redis w2 = w_redis w1 \<and> w' = (if late then rl_release L (we_limit (es 2)) k w2 else w2))"
  by (rule worker_parts.unsent_alone [OF worker_parts.intro [OF parts] inv claim k refused budget commit])

theorem unsent_job_uses_no_attempt_witness:
  "\<exists>f' w' r. process demo_config (build_rate_limiter mem_redis demo_config) (mock_send (1 / 10)) (\<lambda>_. [])
       (\<lambda>_. demo_worker_env) undisturbed (start_flight ''w'' 20 demo_claimed) demo_claimed_world = (f', w') \<and>
     get_job (w_db w') ''j1'' = Some r \<and> j_attempts r = 0 \<and> fl_stats f' = [''lease_budget_exceeded'']"
proof -
  have parts: "limiter_contract (build_rate_limiter mem_redis demo_config) demo_config" "sender_contract (mock_send (1 / 10))"
    by (rule build_limiter_contract, rule mock.sender_contract_axioms)
  have env: "we_limit demo_worker_env = demo_limit_env" "we_fate demo_worker_env = Commits" "we_clock demo_worker_env = 1"
    by (simp_all add: demo_worker_env_def)
  have claim: "claim_due_jobs demo_env ''w'' 10 30 demo_db = Inr ([demo_claimed], w_db demo_claimed_world)"
    by (simp add: demo_claim demo_claimed_world_def)
  have late: "\<not> has_budget demo_config 20 1"
    by (simp add: has_budget_def send_budget_seconds_def demo_config_def default_settings_def)
  have refused: "rl_acquire (build_rate_limiter mem_redis demo_config) demo_limit_env demo_claimed demo_claimed_world =
     (Inr (if True then None else Some 0), demo_admitted_world)"
    by (simp add: demo_admits)
  obtain f' w' j r where "process demo_config (build_rate_limiter mem_redis demo_config) (mock_send (1 / 10)) (\<lambda>_. [])
       (\<lambda>_. demo_worker_env) undisturbed (start_flight ''w'' 20 demo_claimed) demo_claimed_world = (f', w')"
      "j \<in> set (jobs demo_db)" "get_job (w_db w') (j_id j) = Some r" "j_attempts r = j_attempts j"
      "fl_stats f' = [''lease_budget_exceeded'']"
    using unsent_job_uses_no_attempt [OF parts demo_db_inv claim, where k = demo_claimed and es = "\<lambda>_. demo_worker_env"
      and deadline = 20 and lib = "\<lambda>_. []" and worker = "''w''" and late = True and d = 0, unfolded env, OF _ refused]
      late by auto
  moreover from this(2) have "j = demo_job" by simp
  moreover have "j_attempts demo_job = 0" by (simp add: demo_job_def)
  ultimately show ?thesis by auto
qed

section \<open>A send stays inside its lease\<close>

lemma claim_batchE:
  assumes "claim_batch c worker loop_id clock fate env w = (Inr fs, w')" "f \<in> set fs" "distinct (job_ids (w_db w))"
  obtains d where "fl_job f = claim_row env (str_or loop_id worker) (lease_seconds c) d" "d \<in> set (jobs (w_db w))"
    "fl_deadline f = clock + lease_seconds c" "fl_phase f = Acquiring"
proof -
  from assms(1) obtain js where js: "in_tx fate (claim_due_jobs env (str_or loop_id worker) (batch_size c) (lease_seconds c)) w = (Inr js, w')"
    and fs: "fs = map (start_flight worker (clock + lease_seconds c)) js"
    by (auto simp: claim_batch_def split: prod.splits sum.splits)
  have "fst (begin_tx fate (claim_due_jobs env (str_or loop_id worker) (batch_size c) (lease_seconds c)) (w_db w)) = Inr js"
    using arg_cong [OF js, of fst] by simp
  then obtain s' where claim: "claim_due_jobs env (str_or loop_id worker) (batch_size c) (lease_seconds c) (w_db w) = Inr (js, s')"
    using begin_tx_fst_Inr by metis
  obtain due where due: "select_due env (batch_size c) (w_db w) = Inr due"
    and set: "set js = claim_row env (str_or loop_id worker) (lease_seconds c) ` set due"
    using claim_due_jobsE [OF claim assms(3)] by metis
  from assms(2) fs obtain k where k: "k \<in> set js" "f = start_flight worker (clock + lease_seconds c) k" by auto
  from k(1) set obtain d where d: "d \<in> set due" "k = claim_row env (str_or loop_id worker) (lease_seconds c) d" by auto
  show thesis
    using that [of d] d k(2) select_dueD [OF due d(1)] by (simp add: start_flight_def)
qed

lemma acquire_phase_SendingD:
  "acquire_phase c L e f w = (f', w') \<Longrightarrow> fl_phase f' = Sending \<Longrightarrow> fl_phase f \<noteq> Sending \<Longrightarrow>
     has_budget c (fl_deadline f) (we_clock e) \<and> fl_job f' = fl_job f"
  by (auto simp: acquire_phase_def split: if_splits sum.splits option.splits prod.splits)

lemma live_lease_survives_reaping:
  assumes inv: "db_inv {} s" and fresh: "fresh_ids env s" and k: "k \<in> set (jobs s)" "\<not> lease_expired env k"
    and reap: "reap_expired_leases env n url s = Inr (ts, s')"
  shows "k \<in> set (jobs s') \<and> db_inv {} s'"
proof -
  obtain expired where expired: "select_expired env n s = Inr expired"
    using reap by (auto simp: reap_expired_leases_def bind_result_Inr_iff)
  note eq = reap_expired_leases_eq [OF inv fresh expired, of url]
  have sub: "set expired \<subseteq> set (jobs s)" and "k \<notin> set expired" using select_expiredD [OF expired] k(2) by auto
  then have "j_id k \<notin> set (map j_id expired)"
    using selected_row [OF db_invD(1) [OF inv, unfolded job_ids_def] k(1) sub] by simp
  then have "k \<in> set (jobs (reap_update env expired s))" using k(1) by (force simp: reap_update_def)
  moreover have "s' = fold (reap_close env url) (reaped_pairs env expired s) (reap_update env expired s)"
    using eq(1) reap by simp
  ultimately show ?thesis using eq(2) by (simp add: fold_reap_close(2))
qed

text \<open>
  C19: a send never outlives its claim. Take a job claimed in a batch whose clock was read before the
  database's \<open>now()\<close> of the claim, whatever the offset between the two clocks. If the budget check
  lets the send start, then no reaper pass takes the job back until the send timeout, the wait for a
  connection and the margin have passed, so the worker still owns the row and recording the result
  succeeds. A claimed job that is not delayed always passes that check, for any settings the
  validator accepts.
\<close>

theorem send_never_outlives_claim:
  fixes offset :: real
  assumes claim: "claim_batch c worker loop_id clock fate cenv w0 = (Inr fs, w)" "f \<in> set fs" "db_inv {} (w_db w0)"
    and clocks: "clock + offset \<le> now cenv"
    and sending: "acquire_phase c L e f w2 = (f', w3)" "fl_phase f' = Sending"
    and in_time: "now renv \<le> we_clock e + offset + send_timeout_seconds c + db_pool_timeout c + lease_safety_margin_seconds c"
    and held: "fl_job f \<in> set (jobs s)" "db_inv {} s" "fresh_ids renv s"
    and reap: "reap_expired_leases renv n url s = Inr (ts, s')"
    and fresh: "fresh_ids env s'"
  shows "(\<exists>t s''. mark_sent env (j_id (fl_job f)) (claim_token_of (fl_job f)) wk msg url' s' = Inr (Some t, s'') \<and>
            t_status t = SENT) \<and>
     fl_job f' = fl_job f \<and> (load_settings c = Inr c \<longrightarrow> has_budget c (fl_deadline f) clock)"
proof -
  let ?k = "fl_job f"
  obtain d where d: "?k = claim_row cenv (str_or loop_id worker) (lease_seconds c) d"
    "fl_deadline f = clock + lease_seconds c" "fl_phase f = Acquiring"
    using claim_batchE [OF claim(1,2) db_invD(1) [OF claim(3)]] by metis
  have budget: "has_budget c (fl_deadline f) (we_clock e)" and same: "fl_job f' = ?k"
    using acquire_phase_SendingD [OF sending] d(3) by simp_all
  have "now renv \<le> now cenv + lease_seconds c"
    using budget in_time clocks d(2) by (simp add: has_budget_def send_budget_seconds_def)
  then have "\<not> lease_expired renv ?k" by (simp add: lease_expired_def d(1))
  then have k: "?k \<in> set (jobs s')" "db_inv {} s'"
    using live_lease_survives_reaping [OF held(2,3,1) _ reap] by simp_all
  have own: "owns (j_id ?k) (claim_token_of ?k) ?k" by (simp add: d(1) owns_def claim_token_of_def)
  have "\<exists>t s''. mark_sent env (j_id ?k) (claim_token_of ?k) wk msg url' s' = Inr (Some t, s'') \<and> t_status t = SENT"
    using mark_sent_owned(1) [OF k(2) fresh k(1) own, of wk msg url'] by (simp add: job_transition_def)
  moreover have "load_settings c = Inr c \<longrightarrow> has_budget c (fl_deadline f) clock"
    by (simp add: load_settings_Inr_iff has_budget_def d(2))
  ultimately show ?thesis using same by simp
qed

theorem send_never_outlives_claim_witness:
  "\<exists>t s''. mark_sent (later 121) ''j1'' ''tj1'' ''w'' None ''u'' demo_db_claimed = Inr (Some t, s'') \<and> t_status t = SENT"
proof -
  let ?w0 = "demo_claimed_world\<lparr>w_db := demo_db\<rparr>" and ?f = "start_flight ''w'' 30 demo_claimed"
  have claim: "claim_batch demo_config ''w'' None 0 Commits demo_env ?w0 = (Inr [?f], demo_claimed_world)"
    using demo_claim
    by (simp add: claim_batch_def in_tx_def begin_tx_def str_or_def demo_config_def default_settings_def demo_claimed_world_def)
  have sending: "acquire_phase demo_config (build_rate_limiter mem_redis demo_config) demo_worker_env ?f demo_claimed_world =
      (?f\<lparr>fl_phase := Sending\<rparr>, demo_admitted_world)"
  proof -
    have "has_budget demo_config 30 1"
      by (simp add: has_budget_def send_budget_seconds_def demo_config_def default_settings_def)
    moreover have "j_claim_token demo_claimed = Some ''tj1''" using demo_owned by (simp add: owns_def)
    ultimately show ?thesis using demo_admits by (simp add: acquire_phase_def start_flight_def demo_worker_env_def)
  qed
  have none: "select_expired (later 120) 10 demo_db_claimed = Inr []"
    by (simp add: select_expired_def sql_select_def sql_limit_def lease_expired_def) (simp add: demo_defs)
  have reap: "reap_expired_leases (later 120) 10 ''u'' demo_db_claimed = Inr ([], demo_db_claimed)"
    by (simp add: reap_expired_leases_def none returning_def update_where_def)
  have job: "fl_job ?f = demo_claimed" "claim_token_of demo_claimed = ''tj1''" "fl_phase (?f\<lparr>fl_phase := Sending\<rparr>) = Sending"
    using demo_owned by (simp_all add: start_flight_def claim_token_of_def owns_def)
  have times: "(0::real) + 100 \<le> now demo_env" "now (later 120) \<le> we_clock demo_worker_env + 100 + send_timeout_seconds demo_config +
      db_pool_timeout demo_config + lease_safety_margin_seconds demo_config"
    by (simp_all add: demo_env_def demo_worker_env_def demo_config_def default_settings_def)
  have held: "demo_claimed \<in> set (jobs demo_db_claimed)" "?f \<in> set [?f]" "db_inv {} (w_db ?w0)" by (simp_all add: demo_db_inv)
  show ?thesis
    using send_never_outlives_claim [OF claim held(2,3) times(1) sending job(3) times(2) _ demo_db_claimed_inv demo_fresh_later(2)
        reap demo_fresh_later(2), of 121 "''w''" None "''u''"]
    unfolding job demo_ids by (simp add: held)
qed

theorem batch_always_ends_witness:
  "\<exists>fs w'. run_batch demo_config (build_rate_limiter mem_redis demo_config) (mock_send (1 / 10)) (\<lambda>_. []) ''w'' None 0 Commits
       demo_env (replicate 4 (0, demo_worker_env)) (demo_claimed_world\<lparr>w_db := demo_db\<rparr>) = (Inr 1, fs, w') \<and>
     length fs = 1 \<and> (\<forall>f\<in>set fs. fl_phase f = Done)"
proof -
  let ?run = "run_batch demo_config (build_rate_limiter mem_redis demo_config) (mock_send (1 / 10)) (\<lambda>_. []) ''w'' None 0 Commits
       demo_env (replicate 4 (0, demo_worker_env)) (demo_claimed_world\<lparr>w_db := demo_db\<rparr>)"
  have "fst ?run = Inr 1"
    using demo_claim
    by (simp add: run_batch_def claim_batch_def in_tx_def begin_tx_def str_or_def demo_config_def default_settings_def)
  then obtain fs w' where run: "?run = (Inr 1, fs, w')" by (metis prod.collapse)
  have "length fs = 1 \<and> (\<forall>f\<in>set fs. fl_phase f = Done)"
    by (rule batch_always_ends [OF run]) (simp add: deliver_fuel_def)
  with run show ?thesis by blast
qed

section \<open>A refund after an earlier delivery\<close>

text \<open>
  The refund rule looks at the last attempt only. When an earlier attempt reached the provider but ran
  into the timeout, and a retry within the window is rejected, the slot of the delivered message is
  handed back.
\<close>

theorem refund_forgets_timed_out_delivery:
  assumes delivered: "mock_send f e j s = (Inr r, s1)" and timeout: "\<not> se_timely e" "\<not> se_cut e"
    and rejected: "timed_send (mock_send f) e' j s1 = (Inl (DeliveryError m), s2)"
  shows "timed_send (mock_send f) e j s = (Inl (OtherError ''TimeoutError'' ''''), s1) \<and>
     j_id j \<in> set (provider_keys s2) \<and> sp_refund_slot (report_of lib (Inl (DeliveryError m)))"
proof -
  have "s2 = s1" using mock.timed_rejected [where failure = f and e = e' and j = j and s = s1 and m = m] rejected by simp
  moreover have "j_id j \<in> set (provider_keys s1)"
    using mock.send_accepted [where failure = f and e = e and j = j and s = s] delivered by simp
  ultimately show ?thesis using delivered timeout by (simp add: timed_send_def report_of_def)
qed

end
