(* ===== verification/Api_Routes.thy ===== *)
theory Api_Routes
  imports Worker_Delivery
begin

text \<open>
  The HTTP routes of \<open>api/routes\<close>: validation of parameters, the call of the service, and the status
  code. What FastAPI rejects before the handler runs is a \<open>422\<close>; an exception that no handler catches
  is a \<open>500\<close>, here \<open>ServerError\<close>.
\<close>

datatype 'a reply = Answer int 'a | Rejected int string | ServerError exn

definition validation_error :: "'a reply" where
  "validation_error = Rejected 422 ''validation error''"

section \<open>Jobs\<close>

text \<open>
  \<open>schedule_job\<close>: the header is checked for its length only, and then replaces the field of the body
  (assigning to the model does not validate again).
\<close>

definition merge_key :: "string option \<Rightarrow> schedule_request \<Rightarrow> schedule_request option" where
  "merge_key header q =
     (case header of
        None \<Rightarrow> Some q
      | Some k \<Rightarrow>
          if q_idempotency_key q \<notin> {None, Some k} then None else Some (q\<lparr>q_idempotency_key := Some k\<rparr>))"

definition schedule_reply :: "(job_out \<times> bool) result \<Rightarrow> job_out reply" where
  "schedule_reply r =
     (case r of
        Inr (out, created) \<Rightarrow> Answer (if created then 201 else 200) out
      | Inl (InvalidSchedule m) \<Rightarrow> Rejected 422 m
      | Inl (IdempotencyConflict i) \<Rightarrow>
          Rejected 409 (''idempotency key already used for a different request (job '' @ i @ '')'')
      | Inl x \<Rightarrow> ServerError x)"

definition schedule_job ::
  "'r redis_cmds \<Rightarrow> job_codec \<Rightarrow> (json \<Rightarrow> string) \<Rightarrow> (string \<Rightarrow> uuid option) \<Rightarrow> (string \<Rightarrow> string option) \<Rightarrow>
   settings \<Rightarrow> service_env \<Rightarrow> string option \<Rightarrow> raw_request \<Rightarrow> 'r world \<Rightarrow> job_out reply \<times> 'r world"
where
  "schedule_job R K digest parse_uuid parse_url c e header body w =
     (case parse_request parse_url body of
        Inl x \<Rightarrow> (validation_error, w)
      | Inr q \<Rightarrow>
          if \<not> opt_all (length_in 0 255) header then (validation_error, w)
          else case merge_key header q of
                 None \<Rightarrow> (Rejected 422 ''Idempotency-Key header and body idempotency_key differ'', w)
               | Some q' \<Rightarrow>
                   let (r, w1) = schedule R K digest parse_uuid c e q' w in (schedule_reply r, w1))"

definition get_job_route ::
  "'r redis_cmds \<Rightarrow> job_codec \<Rightarrow> (string \<Rightarrow> uuid option) \<Rightarrow> settings \<Rightarrow> service_env \<Rightarrow> string \<Rightarrow> bool \<Rightarrow> 'r world \<Rightarrow>
   job_out reply \<times> 'r world"
where
  "get_job_route R K parse_uuid c e job_id include_attempts w =
     (case parse_uuid job_id of
        None \<Rightarrow> (validation_error, w)
      | Some i \<Rightarrow>
          (case service_get R K c e 0 i include_attempts w of
             (Inl x, w1) \<Rightarrow> (ServerError x, w1)
           | (Inr None, w1) \<Rightarrow> (Rejected 404 ''job not found'', w1)
           | (Inr (Some out), w1) \<Rightarrow> (Answer 200 out, w1)))"

section \<open>Dead letters\<close>

definition int_in :: "int \<Rightarrow> int \<Rightarrow> int \<Rightarrow> bool" where
  "int_in lo hi n \<longleftrightarrow> lo \<le> n \<and> n \<le> hi"

definition list_dead_letters_route ::
  "service_env \<Rightarrow> int \<Rightarrow> int \<Rightarrow> 'r world \<Rightarrow> dead_letter_report list reply"
where
  "list_dead_letters_route e n offset w =
     (if \<not> int_in 1 500 n \<or> offset < 0 then validation_error
      else case dead_letters_list e n offset w of Inl x \<Rightarrow> ServerError x | Inr rows \<Rightarrow> Answer 200 rows)"

definition requeue_route ::
  "'r redis_cmds \<Rightarrow> (string \<Rightarrow> uuid option) \<Rightarrow> settings \<Rightarrow> service_env \<Rightarrow> string \<Rightarrow> int option \<Rightarrow> 'r world \<Rightarrow>
   dict reply \<times> 'r world"
where
  "requeue_route R parse_uuid c e job_id extra w =
     (case parse_uuid job_id of
        None \<Rightarrow> (validation_error, w)
      | Some i \<Rightarrow>
          if \<not> opt_all (int_in 1 20) extra then (validation_error, w)
          else case dead_letters_requeue R c e i (coalesce extra (cfg_max_attempts c)) w of
                 (Inl (NotDeadLettered j), w1) \<Rightarrow> (Rejected 404 ''job is not in the dead letter queue'', w1)
               | (Inl x, w1) \<Rightarrow> (ServerError x, w1)
               | (Inr u, w1) \<Rightarrow> (Answer 202 [(''status'', JStr ''requeued''), (''job_id'', JStr i)], w1))"

section \<open>Metrics, health and the mock receiver\<close>

definition metrics_route ::
  "'r redis_cmds \<Rightarrow> dict_codec \<Rightarrow> settings \<Rightarrow> service_env \<Rightarrow> 'r world \<Rightarrow> dict reply \<times> 'r world"
where
  "metrics_route R D c e w =
     (case metrics_snapshot R D c e w of (Inl x, w1) \<Rightarrow> (ServerError x, w1) | (Inr m, w1) \<Rightarrow> (Answer 200 m, w1))"

definition healthz :: "settings \<Rightarrow> service_env \<Rightarrow> 'r world \<Rightarrow> dict reply \<times> 'r world" where
  "healthz c e w =
     (if \<not> sv_read_ok e then (ServerError OperationalError, w)
      else
        let (state, w1) =
              (if \<not> cache_enabled c then (''disabled'', w)
               else let (ok, w') = on_redis (ping (cache_enabled c) (re_fate (sv_redis e 0))) w
                    in (if ok then ''ok'' else ''unavailable'', w'))
        in (Answer 200 [(''status'', JStr ''ok''), (''postgres'', JStr ''ok''), (''redis'', JStr state)], w1))"

text \<open>\<open>random.random()\<close> is the argument \<open>u\<close>.\<close>

definition receive_webhook ::
  "(string \<Rightarrow> uuid option) \<Rightarrow> settings \<Rightarrow> service_env \<Rightarrow> real \<Rightarrow> dict \<Rightarrow> 'r world \<Rightarrow> dict reply \<times> 'r world"
where
  "receive_webhook parse_uuid c e u payload w =
     (if u < mock_webhook_failure_rate c then (Rejected 503 ''simulated receiver outage'', w)
      else if \<not> {''event_id'', ''job_id'', ''event''} \<subseteq> set (map fst payload)
      then (Rejected 422 ''not a Notify Queue event'', w)
      else case in_tx (sv_fate e) (record_receipt parse_uuid (sv_env e) payload) w of
             (Inl x, w1) \<Rightarrow> (ServerError x, w1)
           | (Inr first_time, w1) \<Rightarrow>
               (Answer 200 [(''received'', JBool True), (''duplicate'', JBool (\<not> first_time))], w1))"

definition list_webhooks ::
  "(string \<Rightarrow> uuid option) \<Rightarrow> service_env \<Rightarrow> string option \<Rightarrow> int \<Rightarrow> 'r world \<Rightarrow>
   (uuid \<times> uuid \<times> string \<times> dict \<times> time) list reply"
where
  "list_webhooks parse_uuid e job_id n w =
     (case (case job_id of None \<Rightarrow> Some None | Some t \<Rightarrow> map_option Some (parse_uuid t)) of
        None \<Rightarrow> validation_error
      | Some i \<Rightarrow>
          if \<not> int_in 1 500 n then validation_error
          else if \<not> sv_read_ok e then ServerError OperationalError
          else case list_receipts i n (w_db w) of Inl x \<Rightarrow> ServerError x | Inr rows \<Rightarrow> Answer 200 rows)"

section \<open>What scheduling does to the database\<close>

text \<open>Reads and cache writes leave the tables alone.\<close>

lemma service_get_db: "w_db (snd (service_get R K c e n i inc w)) = w_db w"
  by (cases "if inc then (Inr None, w) else on_redis (cache_get_job R K c (sv_redis e n) i) w")
    (auto simp: service_get_def on_redis_def Let_def split: sum.splits option.splits prod.splits if_splits)

lemma schedule_cached_db: "w_db (snd (schedule_cached R K pu c e h k w)) = w_db w"
  by (auto simp: schedule_cached_def on_redis_def Let_def service_get_db split: sum.splits option.splits prod.splits)

lemma create_job_db:
  assumes "create_job env n s = Inr ((j, b), s')"
  shows "if b then s' = s\<lparr>jobs := jobs s @ [j]\<rparr> else s' = s"
  using assms
  by (auto simp: create_job_def insert_job_def get_job_by_idempotency_key_def bind_result_Inr_iff
      split: if_splits option.splits)

text \<open>What a result of the service and what an answer of the route say about the tables.\<close>

definition added_job :: "'r world \<Rightarrow> 'r world \<Rightarrow> job \<Rightarrow> bool" where
  "added_job w w' = (\<lambda>j. w_db w' = (w_db w)\<lparr>jobs := jobs (w_db w) @ [j]\<rparr>)"

definition result_told :: "'r world \<Rightarrow> (job_out \<times> bool) result \<times> 'r world \<Rightarrow> bool" where
  "result_told w p \<longleftrightarrow>
     (case p of
        (Inr (out, created), w') \<Rightarrow>
          if created then \<exists>j. added_job w w' j \<and> out = job_out_of j else w_db w' = w_db w
      | (Inl x, w') \<Rightarrow> w_db w' = w_db w \<or> x = OperationalError \<and> (\<exists>j. added_job w w' j))"

definition answer_told :: "'r world \<Rightarrow> job_out reply \<times> 'r world \<Rightarrow> bool" where
  "answer_told w p \<longleftrightarrow>
     (case p of
        (Answer code out, w') \<Rightarrow>
          code = 201 \<and> (\<exists>j. added_job w w' j \<and> out = job_out_of j) \<or> code = 200 \<and> w_db w' = w_db w
      | (Rejected code m, w') \<Rightarrow> (code = 409 \<or> code = 422) \<and> w_db w' = w_db w
      | (ServerError x, w') \<Rightarrow> w_db w' = w_db w \<or> x = OperationalError \<and> (\<exists>j. added_job w w' j))"

lemma told_reply: "result_told w (r, w') \<Longrightarrow> answer_told w (schedule_reply r, w')"
  by (auto simp: result_told_def answer_told_def schedule_reply_def split: sum.splits exn.splits if_splits)

lemma result_told_cong:
  assumes "w_db w1 = w_db w"
  shows "result_told w1 p = result_told w p"
  unfolding result_told_def added_job_def assms ..

lemma schedule_insert_told: "result_told w (schedule_insert R K c e h q w)"
proof -
  let ?block = "create_job (sv_env e) (schedule_new_job c h q)"
  obtain r s' where tx: "begin_tx (sv_fate e) ?block (w_db w) = (r, s')"
    by (cases "begin_tx (sv_fate e) ?block (w_db w)")
  show ?thesis
  proof (cases r)
    case (Inl x)
    have "s' = w_db w \<or> x = OperationalError \<and> (\<exists>j. s' = (w_db w)\<lparr>jobs := jobs (w_db w) @ [j]\<rparr>)"
    proof (cases rule: begin_tx_cases [of "sv_fate e" ?block "w_db w"])
      case kept
      with tx show ?thesis by simp
    next
      case (committed y t)
      obtain j b where y: "y = (j, b)" by (cases y)
      from create_job_db [OF committed(1) [unfolded y]] committed(2,3) tx Inl show ?thesis by (auto split: if_splits)
    qed
    then show ?thesis using tx Inl by (simp add: schedule_insert_def in_tx_def result_told_def added_job_def)
  next
    case (Inr y)
    obtain j b where y: "y = (j, b)" by (cases y)
    have "if b then s' = (w_db w)\<lparr>jobs := jobs (w_db w) @ [j]\<rparr> else s' = w_db w"
      using create_job_db begin_tx_InrD [OF tx [unfolded Inr y]] by blast
    then show ?thesis
      using tx Inr y by (cases b; cases "q_idempotency_key q")
        (auto simp: schedule_insert_def in_tx_def Let_def result_told_def added_job_def)
  qed
qed

lemma schedule_told: "result_told w (schedule R K digest parse_uuid c e q w)"
proof -
  obtain a w1 where a: "schedule_cached R K parse_uuid c e (request_hash digest q) (q_idempotency_key q) w = (a, w1)"
    by (cases "schedule_cached R K parse_uuid c e (request_hash digest q) (q_idempotency_key q) w")
  have same: "w_db w1 = w_db w"
    using schedule_cached_db [of R K parse_uuid c e "request_hash digest q" "q_idempotency_key q" w] a by simp
  have "result_told w (schedule_insert R K c e (request_hash digest q) q w1)"
    using schedule_insert_told [of w1] by (simp only: result_told_cong [OF same])
  with same show ?thesis
    by (auto simp: schedule_def Let_def a result_told_def [of w "(Inl x, w')" for x w']
        result_told_def [of w "(Inr p, w')" for p w'] split: sum.splits option.splits)
qed

text \<open>
  C28: the status code tells what happened. \<open>201\<close>: exactly one job was added, and it is the one in the
  answer; \<open>200\<close>, \<open>409\<close> and \<open>422\<close>: no table changed; and no other code is answered. A server error
  leaves the tables as they were, or, when the acknowledgement of the commit was lost, adds the one
  job that a retry with the same key will find.
\<close>

theorem schedule_status_codes:
  "case schedule_job R K digest parse_uuid parse_url c e header body w of
     (Answer code out, w') \<Rightarrow>
       code = 201 \<and> (\<exists>j. w_db w' = (w_db w)\<lparr>jobs := jobs (w_db w) @ [j]\<rparr> \<and> out = job_out_of j) \<or>
       code = 200 \<and> w_db w' = w_db w
   | (Rejected code m, w') \<Rightarrow> (code = 409 \<or> code = 422) \<and> w_db w' = w_db w
   | (ServerError x, w') \<Rightarrow>
       w_db w' = w_db w \<or> x = OperationalError \<and> (\<exists>j. w_db w' = (w_db w)\<lparr>jobs := jobs (w_db w) @ [j]\<rparr>)"
proof -
  have scheduled: "answer_told w (let (r, w1) = schedule R K digest parse_uuid c e q w in (schedule_reply r, w1))" for q
    using schedule_told [of w R K digest parse_uuid c e q]
    by (cases "schedule R K digest parse_uuid c e q w") (simp add: told_reply)
  have refused: "answer_told w (Rejected 422 m, w)" for m by (simp add: answer_told_def)
  have "answer_told w (schedule_job R K digest parse_uuid parse_url c e header body w)"
    unfolding schedule_job_def validation_error_def
    by (auto simp only: scheduled refused split: sum.split option.split if_split)
  then show ?thesis unfolding answer_told_def added_job_def .
qed

text \<open>
  The header is not held to the body's rule: an empty \<open>Idempotency-Key\<close> header is a key like any
  other, so two clients that send it share one job, although the empty key is refused in the body.
\<close>

theorem empty_header_key_is_accepted:
  assumes "parse_request parse_url body = Inr q" "q_idempotency_key q = None"
  shows "merge_key (Some []) q = Some (q\<lparr>q_idempotency_key := Some []\<rparr>) \<and>
     (\<exists>x. parse_request parse_url (body\<lparr>w_idempotency_key := Some []\<rparr>) = Inl x)"
proof -
  have "parse_request parse_url (body\<lparr>w_idempotency_key := Some []\<rparr>) \<noteq> Inr q'" for q'
    by (auto simp: parse_request_def bind_result_Inr_iff opt_all_def length_in_def)
  then have "\<exists>x. parse_request parse_url (body\<lparr>w_idempotency_key := Some []\<rparr>) = Inl x"
    by (cases "parse_request parse_url (body\<lparr>w_idempotency_key := Some []\<rparr>)") auto
  with assms(2) show ?thesis by (simp add: merge_key_def)
qed

end
