(* ===== verification/Queue_System.thy ===== *)
theory Queue_System
  imports Api_Routes
begin

text \<open>
  The whole system: one database and one Redis shared by any number of API and worker processes, as
  \<open>api/main.py\<close> and \<open>worker/main.py\<close> wire them. A step is one request, one step of a delivery, one
  pass of the reaper or of the dispatcher, a crash, or a change of Redis; everything interleaves.
\<close>

section \<open>Deployments and states\<close>

text \<open>The library functions and the settings that every process of a deployment shares.\<close>

record 'r deployment =
  dp_redis :: "'r redis_cmds"
  dp_fault :: "'r \<Rightarrow> 'r \<Rightarrow> bool"      \<comment> \<open>what can happen to the Redis store by itself\<close>
  dp_codec :: job_codec
  dp_metrics_codec :: dict_codec
  dp_digest :: "json \<Rightarrow> string"
  dp_parse_uuid :: "string \<Rightarrow> uuid option"
  dp_parse_url :: "string \<Rightarrow> string option"
  dp_exn_text :: "exn \<Rightarrow> string"
  dp_settings :: settings

text \<open>
  \<open>sy_now\<close> is the clock of the Redis server in milliseconds; \<open>sy_tasks\<close> are the invalidations that
  the \<open>CacheInvalidator\<close>s of all processes hold; \<open>sy_readers\<close> are rows that some request has read
  from the tables and may still write to the cache; \<open>sy_events\<close> are the webhook events that the
  dispatchers have claimed and not dispatched yet.
\<close>

record 'r system =
  sy_world :: "'r world"
  sy_flights :: "flight multiset"
  sy_now :: int
  sy_tasks :: "(uuid \<times> int) multiset"
  sy_readers :: "job list"
  sy_events :: "outbox_event multiset"

definition system_db :: "'r system \<Rightarrow> db" where
  "system_db s = w_db (sy_world s)"

text \<open>\<open>run_worker\<close>: the limiter that the settings choose, and the mock sender with their failure rate.\<close>

definition worker_step :: "'r deployment \<Rightarrow> worker_env \<Rightarrow> flight \<Rightarrow> 'r world \<Rightarrow> flight \<times> 'r world" where
  "worker_step D =
     deliver_step (dp_settings D) (build_rate_limiter (dp_redis D) (dp_settings D))
       (mock_send (failure_rate (dp_settings D))) (dp_exn_text D)"

definition new_flights :: "flight list result \<Rightarrow> flight list" where
  "new_flights r = (case r of Inl x \<Rightarrow> [] | Inr fs \<Rightarrow> fs)"

definition new_tasks :: "(transition list \<times> (uuid \<times> int) list) result \<Rightarrow> (uuid \<times> int) list" where
  "new_tasks r = (case r of Inl x \<Rightarrow> [] | Inr (reaped, ts) \<Rightarrow> ts)"

definition new_events :: "outbox_event list result \<Rightarrow> outbox_event list" where
  "new_events r = (case r of Inl x \<Rightarrow> [] | Inr evs \<Rightarrow> evs)"

text \<open>The Redis calls of a request happen between the clock readings \<open>n\<close> and \<open>n'\<close>, in their order.\<close>

definition redis_clock :: "int \<Rightarrow> (nat \<Rightarrow> redis_env) \<Rightarrow> int \<Rightarrow> bool" where
  "redis_clock n es n' \<longleftrightarrow> mono (\<lambda>k. re_now (es k)) \<and> n \<le> re_now (es 0) \<and> (\<forall>k. re_now (es k) \<le> n')"

section \<open>Steps\<close>

text \<open>
  Generated identifiers are new. A request runs in one step, but what it found in the tables can
  reach the cache at any later time: the row it read (\<open>read_step\<close>, \<open>put_step\<close>), the key of a row
  (\<open>put_key_step\<close>), an invalidation (\<open>late_drop_step\<close>), and metrics and their lock
  (\<open>metrics_key_step\<close>); \<open>Api_System\<close> and \<open>Metrics_Requests\<close> show that this is all that the interleaving
  of requests adds. A crash loses flights, tasks and claimed events; what they had committed stays; a
  flight that is done may also just be dropped. Only an event that a poll has claimed is dispatched, and once per claim. Redis can change by itself as the deployment allows.
\<close>

inductive queue_step :: "'r deployment \<Rightarrow> 'r system \<Rightarrow> 'r system \<Rightarrow> bool" for D where
  schedule_step: "fresh_ids (sv_env e) (system_db s) \<Longrightarrow> redis_clock (sy_now s) (sv_redis e) n \<Longrightarrow>
     schedule_job (dp_redis D) (dp_codec D) (dp_digest D) (dp_parse_uuid D) (dp_parse_url D) (dp_settings D) e header body
       (sy_world s) = (r, w) \<Longrightarrow>
     queue_step D s (s\<lparr>sy_world := w, sy_now := n\<rparr>)"
| get_step: "redis_clock (sy_now s) (sv_redis e) n \<Longrightarrow>
     get_job_route (dp_redis D) (dp_codec D) (dp_parse_uuid D) (dp_settings D) e job_id include_attempts (sy_world s) =
       (r, w) \<Longrightarrow>
     queue_step D s (s\<lparr>sy_world := w, sy_now := n\<rparr>)"
| metrics_step: "redis_clock (sy_now s) (sv_redis e) n \<Longrightarrow>
     metrics_route (dp_redis D) (dp_metrics_codec D) (dp_settings D) e (sy_world s) = (r', w) \<Longrightarrow>
     queue_step D s (s\<lparr>sy_world := w, sy_now := n\<rparr>)"
| requeue_step: "redis_clock (sy_now s) (sv_redis e) n \<Longrightarrow>
     requeue_route (dp_redis D) (dp_parse_uuid D) (dp_settings D) e job_id extra (sy_world s) = (r', w) \<Longrightarrow>
     queue_step D s (s\<lparr>sy_world := w, sy_now := n\<rparr>)"
| receive_step: "receive_webhook (dp_parse_uuid D) (dp_settings D) e u payload (sy_world s) = (r', w) \<Longrightarrow>
     queue_step D s (s\<lparr>sy_world := w\<rparr>)"
| read_step: "get_job (system_db s) i = Some j \<Longrightarrow> queue_step D s (s\<lparr>sy_readers := j # sy_readers s\<rparr>)"
| put_step: "j \<in> set (sy_readers s) \<Longrightarrow> sy_now s \<le> re_now re \<Longrightarrow>
     on_redis (cache_put_job (dp_redis D) (dp_codec D) (dp_settings D) re (job_out_of j)) (sy_world s) = (b, w) \<Longrightarrow>
     queue_step D s (s\<lparr>sy_world := w, sy_now := re_now re\<rparr>)"
| put_key_step: "j \<in> set (jobs (system_db s)) \<Longrightarrow> j_idempotency_key j = Some k \<Longrightarrow> sy_now s \<le> re_now re \<Longrightarrow>
     x = cache_put_idempotency (dp_redis D) (dp_settings D) re k (j_id j) (j_request_hash j) (w_redis (sy_world s)) \<Longrightarrow>
     queue_step D s (s\<lparr>sy_world := (sy_world s)\<lparr>w_redis := x\<rparr>, sy_now := re_now re\<rparr>)"
| late_drop_step: "j \<in> set (jobs (system_db s)) \<Longrightarrow> v \<le> j_version j \<Longrightarrow> sy_now s \<le> re_now re \<Longrightarrow>
     x = cache_invalidate_job (dp_redis D) (dp_settings D) re (j_id j) v (w_redis (sy_world s)) \<Longrightarrow>
     queue_step D s (s\<lparr>sy_world := (sy_world s)\<lparr>w_redis := x\<rparr>, sy_now := re_now re\<rparr>)"
| metrics_key_step: "sy_now s \<le> re_now re \<Longrightarrow>
     x \<in> {snd (take_metrics_lock (dp_redis D) (dp_settings D) re (w_redis (sy_world s))),
          put_metrics (dp_redis D) (dp_settings D) re t (w_redis (sy_world s)),
          drop_metrics_lock (dp_redis D) (dp_settings D) re (w_redis (sy_world s))} \<Longrightarrow>
     queue_step D s (s\<lparr>sy_world := (sy_world s)\<lparr>w_redis := x\<rparr>, sy_now := re_now re\<rparr>)"
| claim_step: "claim_batch (dp_settings D) worker loop_id clock fate env (sy_world s) = (fs, w) \<Longrightarrow>
     queue_step D s (s\<lparr>sy_world := w, sy_flights := sy_flights s + mset (new_flights fs)\<rparr>)"
| flight_step: "f \<in># sy_flights s \<Longrightarrow> fresh_ids (we_env we) (system_db s) \<Longrightarrow>
     sy_now s \<le> re_now (le_redis (we_limit we)) \<Longrightarrow> worker_step D we f (sy_world s) = (f', w) \<Longrightarrow>
     queue_step D s
       (s\<lparr>sy_world := w, sy_flights := add_mset (f'\<lparr>fl_tasks := []\<rparr>) (sy_flights s - {#f#}),
          sy_tasks := sy_tasks s + mset (fl_tasks f'), sy_now := re_now (le_redis (we_limit we))\<rparr>)"
| task_step: "task \<in># sy_tasks s \<Longrightarrow> sy_now s \<le> re_now re \<Longrightarrow>
     x = run_task (dp_redis D) (dp_settings D) re task (w_redis (sy_world s)) \<Longrightarrow>
     queue_step D s (s\<lparr>sy_world := (sy_world s)\<lparr>w_redis := x\<rparr>, sy_tasks := sy_tasks s - {#task#}, sy_now := re_now re\<rparr>)"
| crash_step: "fs \<subseteq># sy_flights s \<Longrightarrow> ts \<subseteq># sy_tasks s \<Longrightarrow> es \<subseteq># sy_events s \<Longrightarrow>
     queue_step D s (s\<lparr>sy_flights := fs, sy_tasks := ts, sy_events := es\<rparr>)"
| reap_step: "fresh_ids env (system_db s) \<Longrightarrow>
     reaper_run_once (dp_settings D) fate env (sy_world s) = (ts, w) \<Longrightarrow>
     queue_step D s (s\<lparr>sy_world := w, sy_tasks := sy_tasks s + mset (new_tasks ts)\<rparr>)"
| poll_outbox_step:
     "begin_tx fate (claim_outbox_events env (webhook_batch_size (dp_settings D)) (webhook_timeout_seconds (dp_settings D) * 2))
       (system_db s) = (evs, t) \<Longrightarrow>
     queue_step D s (s\<lparr>sy_world := (sy_world s)\<lparr>w_db := t\<rparr>, sy_events := sy_events s + mset (new_events evs)\<rparr>)"
| dispatch_step: "ev \<in># sy_events s \<Longrightarrow> dispatch (dp_settings D) de ev (system_db s) = (d, t) \<Longrightarrow>
     queue_step D s (s\<lparr>sy_world := (sy_world s)\<lparr>w_db := t\<rparr>, sy_events := sy_events s - {#ev#}\<rparr>)"
| redis_step: "dp_fault D (w_redis (sy_world s)) x \<Longrightarrow>
     queue_step D s (s\<lparr>sy_world := (sy_world s)\<lparr>w_redis := x\<rparr>\<rparr>)"

text \<open>The system starts on empty tables and without cache entries, with settings that allow at least one attempt.\<close>

definition queue_init :: "'r deployment \<Rightarrow> 'r system \<Rightarrow> bool" where
  "queue_init D s \<longleftrightarrow>
     system_db s = empty_db \<and> sy_flights s = {#} \<and> sy_tasks s = {#} \<and> sy_readers s = [] \<and> sy_events s = {#} \<and>
     (\<forall>n\<ge>sy_now s. \<forall>k. rd_get (dp_redis D) n k (w_redis (sy_world s)) = None) \<and> 1 \<le> cfg_max_attempts (dp_settings D)"

section \<open>The life of a job\<close>

text \<open>The abstract machine: the states of one job and the moves between them.\<close>

inductive life :: "job_status \<Rightarrow> job_status \<Rightarrow> bool" where
  claimed_move: "life PENDING PROCESSING"
| sent_move: "life PROCESSING SENT"
| back_move: "life PROCESSING PENDING"
| dead_move: "life PROCESSING DEAD_LETTERED"
| requeue_move: "life DEAD_LETTERED PENDING"

inductive_cases life_SENT [elim!]: "life SENT s"
inductive_simps life_simps [simp]: "life PENDING s" "life PROCESSING s" "life DEAD_LETTERED s" "life s SENT"

definition moved :: "job \<Rightarrow> job \<Rightarrow> bool" where
  "moved j j' \<longleftrightarrow>
     j_id j' = j_id j \<and> j_idempotency_key j' = j_idempotency_key j \<and> j_request_hash j' = j_request_hash j \<and>
     j_recipient j' = j_recipient j \<and> j_payload j' = j_payload j \<and> life (j_status j) (j_status j') \<and> j_version j' = j_version j + 1"

text \<open>
  What a transaction may do to the job rows: move some of them, or add a new one. Only jobs in \<open>B\<close> may
  become \<open>sent\<close>.
\<close>

definition rows_move :: "uuid set \<Rightarrow> db \<Rightarrow> db \<Rightarrow> bool" where
  "rows_move B s t \<longleftrightarrow>
     (\<exists>p f. jobs t = update_where p f (jobs s) \<and>
        (\<forall>j\<in>set (jobs s). p j \<longrightarrow> moved j (f j) \<and> (j_status (f j) = SENT \<longrightarrow> j_id j \<in> B))) \<or>
     (\<exists>j. jobs t = jobs s @ [j] \<and> j_status j = PENDING \<and> j_version j = 1 \<and> j_id j \<notin> set (job_ids s))"

lemma rows_move_update:
  assumes "jobs t = update_where p f (jobs s)"
    and "\<And>j. j \<in> set (jobs s) \<Longrightarrow> p j \<Longrightarrow> moved j (f j) \<and> (j_status (f j) = SENT \<longrightarrow> j_id j \<in> B)"
  shows "rows_move B s t"
  using assms unfolding rows_move_def by blast

lemma rows_move_same: "jobs t = jobs s \<Longrightarrow> rows_move B s t"
  by (rule rows_move_update [where p = "\<lambda>_. False" and f = id]) (simp_all add: update_where_def)

lemma rows_move_create:
  assumes "create_job env n s = Inr (r, t)" "gen_job_id env \<notin> set (job_ids s)"
  shows "rows_move B s t"
proof -
  obtain j b where r: "r = (j, b)" by (cases r)
  have "t = s \<or> jobs t = jobs s @ [new_row env n]"
    using assms(1) by (auto simp: r create_job_def insert_job_def bind_result_Inr_iff split: if_splits option.splits)
  then show ?thesis
  proof
    assume "t = s"
    then show ?thesis by (simp add: rows_move_same)
  next
    assume "jobs t = jobs s @ [new_row env n]"
    with assms(2) show ?thesis unfolding rows_move_def by (intro disjI2 exI [of _ "new_row env n"]) simp
  qed
qed

lemma rows_move_claim:
  assumes "db_inv {} s" "claim_due_jobs env wk n l s = Inr (cs, t)"
  shows "rows_move {} s t"
proof -
  obtain due where due: "select_due env n s = Inr due"
    and t: "t = s\<lparr>jobs := update_where (\<lambda>j. j_id j \<in> set (map j_id due)) (claim_row env wk l) (jobs s)\<rparr>"
    using claim_due_jobsE [OF assms(2) db_invD(1) [OF assms(1)]] by metis
  have sub: "set due \<subseteq> set (jobs s)" using select_dueD [OF due] by auto
  show ?thesis
  proof (rule rows_move_update)
    show "jobs t = update_where (\<lambda>j. j_id j \<in> set (map j_id due)) (claim_row env wk l) (jobs s)" by (simp add: t)
    fix j assume j: "j \<in> set (jobs s)" "j_id j \<in> set (map j_id due)"
    then have "j \<in> set due" using selected_row [OF db_invD(1) [OF assms(1), unfolded job_ids_def] _ sub] by blast
    then have "j_status j = PENDING" using select_dueD [OF due] by (auto simp: is_due_def)
    then show "moved j (claim_row env wk l j) \<and> (j_status (claim_row env wk l j) = SENT \<longrightarrow> j_id j \<in> {})"
      by (simp add: moved_def claim_row_def)
  qed
qed

lemma rows_move_return: "return_to_queue env i tok d s = Inr (r, t) \<Longrightarrow> rows_move {} s t"
  by (rule rows_move_update [where p = "owns i tok" and f = "returned_row env d"])
    (auto simp: return_to_queue_def moved_def returned_row_def owns_def)

lemma rows_move_sent:
  assumes "db_inv {} s" "fresh_ids env s" "mark_sent env i tok w msg url s = Inr (r, t)"
  shows "rows_move {i} s t"
proof (cases rule: owned_or_lost [of s i tok])
  case lost
  with assms show ?thesis by (simp add: mark_sent_lost rows_move_same)
next
  case (owned j)
  from mark_sent_owned(1) [OF assms(1,2) owned, of w msg url] assms(3)
  show ?thesis
    by (intro rows_move_update [where p = "owns i tok" and f = "sent_row env"])
      (auto simp: sent_closing_def moved_def sent_row_def owns_def)
qed

lemma rows_move_failed:
  assumes "db_inv {} s" "fresh_ids env s" "mark_failed env i tok w err d p url s = Inr (r, t)"
  shows "rows_move {} s t"
proof (cases rule: owned_or_lost [of s i tok])
  case lost
  with assms show ?thesis by (simp add: mark_failed_lost rows_move_same)
next
  case (owned j)
  from mark_failed_owned(1) [OF assms(1,2) owned, where w = w and err = err and p = p and url = url and d = d] assms(3)
  show ?thesis
    by (intro rows_move_update [where p = "owns i tok" and f = "failed_row env err d p"])
      (auto simp: failure_closing_def moved_def failed_row_def owns_def)
qed

lemma rows_move_reap:
  assumes inv: "db_inv {} s" and fresh: "fresh_ids env s" and reap: "reap_expired_leases env n url s = Inr (ts, t)"
  shows "rows_move {} s t"
proof -
  obtain expired where expired: "select_expired env n s = Inr expired"
    using reap by (auto simp: reap_expired_leases_def bind_result_Inr_iff)
  have sub: "set expired \<subseteq> set (jobs s)" using select_expiredD [OF expired] by auto
  have t: "jobs t = update_where (\<lambda>j. j_id j \<in> set (map j_id expired)) (reaped_row env) (jobs s)"
    using reap_expired_leases_eq(1) [OF inv fresh expired, of url] reap by (auto simp: fold_reap_close(2) reap_update_def)
  show ?thesis
  proof (rule rows_move_update [OF t])
    fix j assume j: "j \<in> set (jobs s)" "j_id j \<in> set (map j_id expired)"
    then have "j \<in> set expired" using selected_row [OF db_invD(1) [OF inv, unfolded job_ids_def] _ sub] by blast
    then have "j_status j = PROCESSING" using select_expiredD [OF expired] by (auto simp: lease_expired_def)
    then show "moved j (reaped_row env j) \<and> (j_status (reaped_row env j) = SENT \<longrightarrow> j_id j \<in> {})"
      by (simp add: moved_def reaped_row_def)
  qed
qed

lemma rows_move_requeue: "requeue_dead_letter env i x s = Inr (r, t) \<Longrightarrow> rows_move {} s t"
  by (cases "first (returning (\<lambda>j. j_id j = i \<and> j_status j = DEAD_LETTERED) (requeued_row env x) (jobs s))")
    (auto simp: requeue_dead_letter_def rows_move_same moved_def requeued_row_def split: if_splits
      intro!: rows_move_update [where p = "\<lambda>j. j_id j = i \<and> j_status j = DEAD_LETTERED" and f = "requeued_row env x"])

end
