(* ===== verification/Queue_Effects.thy ===== *)
theory Queue_Effects
  imports Queue_System
begin

text \<open>
  What each kind of step of the system does to the tables: it keeps the jobs invariant, moves job rows
  only along the life of a job, and leaves the provider's log to the provider.
\<close>

section \<open>Effects of the steps on the tables\<close>

text \<open>
  The effect of one step on the database: job rows move, with \<open>B\<close> the ids that may become \<open>sent\<close>, and
  the provider's log only gains the key \<open>k\<close>.
\<close>

definition jobs_effect :: "uuid set \<Rightarrow> db \<Rightarrow> db \<Rightarrow> bool" where
  "jobs_effect B s t \<longleftrightarrow> db_inv {} t \<and> rows_move B s t \<and> provider_keys t = provider_keys s"

text \<open>But for the dispatcher's own statements, a step only adds new pending events to the outbox.\<close>

definition outbox_grows :: "db \<Rightarrow> db \<Rightarrow> bool" where
  "outbox_grows s t \<longleftrightarrow> (\<exists>new. webhook_outbox t = webhook_outbox s @ new \<and> (\<forall>r\<in>set new. o_status r = OutboxPending))"

definition db_effect :: "uuid set \<Rightarrow> db \<Rightarrow> db \<Rightarrow> bool" where
  "db_effect B s t \<longleftrightarrow> jobs_effect B s t \<and> outbox_grows s t"

lemma outbox_grows_same: "webhook_outbox t = webhook_outbox s \<Longrightarrow> outbox_grows s t"
  by (simp add: outbox_grows_def)

lemma outbox_grows_trans: "outbox_grows s t \<Longrightarrow> outbox_grows t u \<Longrightarrow> outbox_grows s u"
  unfolding outbox_grows_def by force

lemma outbox_grows_adds: "o_status e = OutboxPending \<Longrightarrow> webhook_outbox t = webhook_outbox s @ [e] \<Longrightarrow> outbox_grows s t"
  by (simp add: outbox_grows_def)

lemma db_effectI:
  "db_inv {} t \<Longrightarrow> rows_move B s t \<Longrightarrow> provider_keys t = provider_keys s \<Longrightarrow> outbox_grows s t \<Longrightarrow> db_effect B s t"
  by (simp add: db_effect_def jobs_effect_def)

lemma jobs_effect_same_jobs:
  "db_inv {} t \<Longrightarrow> jobs t = jobs s \<Longrightarrow> mock_provider_log t = mock_provider_log s \<Longrightarrow> jobs_effect B s t"
  by (simp add: jobs_effect_def rows_move_same provider_keys_def)

lemma db_effect_same_jobs:
  "db_inv {} t \<Longrightarrow> jobs t = jobs s \<Longrightarrow> mock_provider_log t = mock_provider_log s \<Longrightarrow>
     webhook_outbox t = webhook_outbox s \<Longrightarrow> db_effect B s t"
  by (simp add: db_effect_def jobs_effect_same_jobs outbox_grows_same)

lemma db_effect_refl: "db_inv {} s \<Longrightarrow> db_effect B s s"
  by (rule db_effect_same_jobs) simp_all

lemma rows_move_mono: "rows_move A s t \<Longrightarrow> A \<subseteq> B \<Longrightarrow> rows_move B s t"
  unfolding rows_move_def by blast

text \<open>No repository function but the provider's own touches the provider's log.\<close>

lemma same_log:
  "create_job env n s = Inr (r1, t) \<Longrightarrow> provider_keys t = provider_keys s"
  "claim_due_jobs env wk m l s = Inr (r2, t) \<Longrightarrow> provider_keys t = provider_keys s"
  "return_to_queue env i tok d s = Inr (r3, t) \<Longrightarrow> provider_keys t = provider_keys s"
  "requeue_dead_letter env i x s = Inr (r4, t) \<Longrightarrow> provider_keys t = provider_keys s"
  "record_receipt pu env p s = Inr (r5, t) \<Longrightarrow> provider_keys t = provider_keys s"
  "claim_outbox_events env m l s = Inr (r6, t) \<Longrightarrow> provider_keys t = provider_keys s"
  by (auto simp: provider_keys_def create_job_def insert_job_def claim_due_jobs_def return_to_queue_def
      requeue_dead_letter_def record_receipt_def claim_outbox_events_def bind_result_Inr_iff Let_def
      split: if_splits option.splits)

lemma same_log_sent:
  "mark_sent env i tok w msg url s = Inr (r, t) \<Longrightarrow> provider_keys t = provider_keys s"
  by (auto simp: provider_keys_def mark_sent_def book_sent_def bind_result_Inr_iff insert_defs record_attempt_def
      enqueue_webhook_def split: option.splits if_splits)

lemma book_failure_log: "book_failure env w out err rs url row s = Inr t \<Longrightarrow> provider_keys t = provider_keys s"
  by (auto simp: provider_keys_def book_failure_def after_failure_def bind_result_Inr_iff insert_defs record_attempt_def
      enqueue_webhook_def Let_def split: option.splits if_splits)

lemma same_log_failed:
  "mark_failed env i tok w err d p url s = Inr (r, t) \<Longrightarrow> provider_keys t = provider_keys s"
  by (auto simp: mark_failed_def bind_result_Inr_iff dest!: book_failure_log split: option.splits) 
    (simp_all add: provider_keys_def)

lemma same_log_reap:
  assumes "db_inv {} s" "fresh_ids env s" "reap_expired_leases env n url s = Inr (r, t)"
  shows "provider_keys t = provider_keys s"
proof -
  obtain expired where expired: "select_expired env n s = Inr expired"
    using assms(3) by (auto simp: reap_expired_leases_def bind_result_Inr_iff)
  have "provider_keys (fold (reap_close env url) ps u) = provider_keys u" for ps u
    by (induction ps arbitrary: u) (simp_all add: provider_keys_def reap_close_def failure_closing_def)
  with reap_expired_leases_eq(1) [OF assms(1,2) expired, of url] assms(3) show ?thesis
    by (simp add: reap_update_def provider_keys_def)
qed

text \<open>Nor do most touch the outbox; recording a result and reaping add their events.\<close>

lemma same_outbox:
  "create_job env n s = Inr (r1, t) \<Longrightarrow> webhook_outbox t = webhook_outbox s"
  "claim_due_jobs env wk m l s = Inr (r2, t) \<Longrightarrow> webhook_outbox t = webhook_outbox s"
  "return_to_queue env i tok d s = Inr (r3, t) \<Longrightarrow> webhook_outbox t = webhook_outbox s"
  "requeue_dead_letter env i x s = Inr (r4, t) \<Longrightarrow> webhook_outbox t = webhook_outbox s"
  "record_receipt pu env p s = Inr (r5, t) \<Longrightarrow> webhook_outbox t = webhook_outbox s"
  by (auto simp: create_job_def insert_job_def claim_due_jobs_def return_to_queue_def
      requeue_dead_letter_def record_receipt_def bind_result_Inr_iff Let_def split: if_splits option.splits)

lemma enqueue_grows: "enqueue_webhook env i ev url data s = Inr t \<Longrightarrow> outbox_grows s t"
  by (rule outbox_grows_adds [rotated])
    (auto simp: enqueue_webhook_def insert_defs bind_result_Inr_iff split: if_splits)

lemma outbox_grows_after: "outbox_grows s' t \<Longrightarrow> webhook_outbox s' = webhook_outbox s \<Longrightarrow> outbox_grows s t"
  by (simp add: outbox_grows_def)

lemma mark_sent_grows: "mark_sent env i tok w msg url s = Inr (r, t) \<Longrightarrow> outbox_grows s t"
  by (auto simp: mark_sent_def book_sent_def bind_result_Inr_iff outbox_grows_same split: option.splits
      dest!: enqueue_grows elim!: outbox_grows_after)
    (auto simp: insert_defs record_attempt_def split: if_splits)

lemma book_failure_grows: "book_failure env w out err rs url row s = Inr t \<Longrightarrow> outbox_grows s t"
  by (auto simp: book_failure_def after_failure_def bind_result_Inr_iff Let_def split: if_splits
      dest!: enqueue_grows elim!: outbox_grows_after)
    (auto simp: insert_defs record_attempt_def split: if_splits)

lemma mark_failed_grows: "mark_failed env i tok w err d p url s = Inr (r, t) \<Longrightarrow> outbox_grows s t"
  by (auto simp: mark_failed_def bind_result_Inr_iff outbox_grows_same split: option.splits
      dest!: book_failure_grows elim!: outbox_grows_after)

lemma reap_grows:
  assumes "db_inv {} s" "fresh_ids env s" "reap_expired_leases env n url s = Inr (r, t)"
  shows "outbox_grows s t"
proof -
  obtain expired where expired: "select_expired env n s = Inr expired"
    using assms(3) by (auto simp: reap_expired_leases_def bind_result_Inr_iff)
  have close: "outbox_grows u (fold (reap_close env url) ps u)" for ps u
  proof (induction ps arbitrary: u)
    case (Cons p ps)
    have "outbox_grows u (reap_close env url p u)"
      by (rule outbox_grows_adds [rotated]) (simp add: reap_close_def failure_closing_def add_books_def, simp add: event_row_def)
    with Cons.IH [of "reap_close env url p u"] show ?case by (simp add: outbox_grows_trans)
  qed (simp add: outbox_grows_same)
  have "t = fold (reap_close env url) (reaped_pairs env expired s) (reap_update env expired s)"
    using reap_expired_leases_eq(1) [OF assms(1,2) expired, of url] assms(3) by simp
  then have "outbox_grows (reap_update env expired s) t" using close by simp
  then show ?thesis by (rule outbox_grows_after) (simp add: reap_update_def)
qed

text \<open>A transaction has an effect when each outcome of its block has.\<close>

lemma tx_effect:
  assumes "db_inv {} s" "\<And>x t. block s = Inr (x, t) \<Longrightarrow> db_effect B s t"
  shows "db_effect B s (snd (begin_tx fate block s))"
  by (rule begin_tx_keeps [where P = "db_effect B s"]) (use assms db_effect_refl in blast)+

lemma create_effect:
  assumes inv: "db_inv {} s" and fresh: "fresh_ids env s" and n: "1 \<le> n_max_attempts n"
    and create: "create_job env n s = Inr (r, t)"
  shows "db_effect B s t"
proof -
  have new: "gen_job_id env \<notin> set (job_ids s)" using fresh by (simp add: fresh_ids_def)
  have "db_inv {} t" using create_job_keeps [OF inv n new] create by auto
  with rows_move_create [OF create new] same_log(1) [OF create] same_outbox(1) [OF create] show ?thesis
    by (intro db_effectI outbox_grows_same)
qed

lemma claim_effect:
  "db_inv {} s \<Longrightarrow> claim_due_jobs env wk m l s = Inr (r, t) \<Longrightarrow> db_effect {} s t"
  by (simp add: db_effectI claim_due_jobs_keeps rows_move_claim same_log same_outbox outbox_grows_same)

lemma requeue_effect:
  assumes "db_inv {} s" "1 \<le> x" "requeue_dead_letter env i x s = Inr (r, t)"
  shows "db_effect {} s t"
  using requeue_dead_letter_keeps [OF assms(1,2), of env i] assms(3) rows_move_requeue [OF assms(3)] same_log(4) [OF assms(3)]
    same_outbox(4) [OF assms(3)]
  by (simp add: db_effectI outbox_grows_same)

lemma record_effect:
  assumes inv: "db_inv {} s" and fresh: "fresh_ids (we_env e) s" and rec: "record_result c e wk j rp s = Inr (r, t)"
  shows "db_effect (if sp_error rp = None then {j_id j} else {}) s t"
proof (cases "sp_error rp")
  case None
  with rec have m: "mark_sent (we_env e) (j_id j) (claim_token_of j) wk (sp_message_id rp) (default_callback_url c) s = Inr (r, t)"
    by (simp add: record_result_def)
  have "db_inv {} t"
    using mark_sent_keeps [OF inv fresh, of "j_id j" "claim_token_of j" wk "sp_message_id rp" "default_callback_url c"] m by auto
  with rows_move_sent [OF inv fresh m] same_log_sent [OF m] mark_sent_grows [OF m] None show ?thesis by (simp add: db_effectI)
next
  case (Some err)
  with rec obtain d where m: "mark_failed (we_env e) (j_id j) (claim_token_of j) wk err d (sp_permanent rp)
      (default_callback_url c) s = Inr (r, t)"
    by (auto simp: record_result_def bind_result_Inr_iff)
  have "db_inv {} t"
    using mark_failed_keeps [OF inv fresh, of "j_id j" "claim_token_of j" wk err d "sp_permanent rp" "default_callback_url c"] m by auto
  with rows_move_failed [OF inv fresh m] same_log_failed [OF m] mark_failed_grows [OF m] Some show ?thesis by (simp add: db_effectI)
qed

lemma reaper_effect:
  assumes inv: "db_inv {} s" and fresh: "fresh_ids env s" and reap: "reaper_block c env s = Inr (r, t)"
  shows "db_effect {} s t"
proof -
  from reap obtain ts s1 b where r1: "reap_expired_leases env (reaper_batch_size c) (default_callback_url c) s = Inr (ts, s1)"
    and t: "t = s1\<lparr>rate_limit_buckets := b\<rparr>"
    by (auto simp: reaper_block_def bind_result_Inr_iff delete_old_rate_limit_buckets_def Let_def)
  obtain expired where expired: "select_expired env (reaper_batch_size c) s = Inr expired"
    using r1 by (auto simp: reap_expired_leases_def bind_result_Inr_iff)
  have "db_inv {} s1" using reap_expired_leases_eq [OF inv fresh expired, of "default_callback_url c"] r1 by simp
  moreover have "rows_move {} s t" using rows_move_reap [OF inv fresh r1] by (simp add: t rows_move_def)
  moreover have "outbox_grows s t" using reap_grows [OF inv fresh r1] by (simp add: t outbox_grows_def)
  ultimately show ?thesis using same_log_reap [OF inv fresh r1] by (intro db_effectI) (simp_all add: t provider_keys_def)
qed

lemma tx_jobs_effect:
  assumes "db_inv {} s" "\<And>x t. block s = Inr (x, t) \<Longrightarrow> jobs_effect B s t"
  shows "jobs_effect B s (snd (begin_tx fate block s))"
  by (rule begin_tx_keeps [where P = "jobs_effect B s"]) (use assms jobs_effect_same_jobs in blast)+

lemma outbox_effect:
  "db_inv {} s \<Longrightarrow> claim_outbox_events env n l s = Inr (r, t) \<Longrightarrow> jobs_effect {} s t"
  "db_inv {} s \<Longrightarrow> jobs_effect {} s (snd (dispatch c de ev s))"
  "db_inv {} s \<Longrightarrow> record_receipt pu env p s = Inr (r', t) \<Longrightarrow> db_effect {} s t"
proof -
  show "db_inv {} s \<Longrightarrow> claim_outbox_events env n l s = Inr (r, t) \<Longrightarrow> jobs_effect {} s t"
    by (rule jobs_effect_same_jobs [OF claim_outbox_events_keeps])
      (auto simp: claim_outbox_events_def bind_result_Inr_iff Let_def)
  show "db_inv {} s \<Longrightarrow> record_receipt pu env p s = Inr (r', t) \<Longrightarrow> db_effect {} s t"
    by (rule db_effect_same_jobs [OF record_receipt_keeps])
      (auto simp: record_receipt_def bind_result_Inr_iff split: if_splits)
  show "jobs_effect {} s (snd (dispatch c de ev s))" if inv: "db_inv {} s"
  proof (cases "post_error (de_http de)")
    case (Inl e)
    with inv show ?thesis by (simp add: dispatch_def jobs_effect_same_jobs)
  next
    case (Inr error)
    show ?thesis
      unfolding dispatch_def Inr sum.case
      by (rule tx_jobs_effect [OF inv], rule jobs_effect_same_jobs)
        (auto simp: bind_result_Inr_iff mark_delivered_def mark_attempt_failed_def split: option.splits
          intro: mark_delivered_keeps [OF inv, unfolded mark_delivered_def]
            mark_attempt_failed_keeps [OF inv, unfolded mark_attempt_failed_def])
  qed
qed

section \<open>Effects of the API calls\<close>

lemma schedule_insert_w_db:
  "w_db (snd (schedule_insert R K c e h q w)) = snd (begin_tx (sv_fate e) (create_job (sv_env e) (schedule_new_job c h q)) (w_db w))"
  by (auto simp: schedule_insert_def in_tx_def Let_def split: prod.splits sum.splits option.splits)

lemma parse_request_attempts:
  "parse_request pu r = Inr q \<Longrightarrow> opt_all (\<lambda>n. 1 \<le> n \<and> n \<le> 20) (q_max_attempts q)"
  by (auto simp: parse_request_def bind_result_Inr_iff)

lemma schedule_effect:
  assumes inv: "db_inv {} (w_db w)" and fresh: "fresh_ids (sv_env e) (w_db w)" and cfg: "1 \<le> cfg_max_attempts c"
    and q: "opt_all (\<lambda>n. 1 \<le> n \<and> n \<le> 20) (q_max_attempts q)"
  shows "db_effect {} (w_db w) (w_db (snd (schedule R K digest pu c e q w)))"
proof -
  let ?h = "request_hash digest q"
  obtain a w1 where a: "schedule_cached R K pu c e ?h (q_idempotency_key q) w = (a, w1)"
    by (cases "schedule_cached R K pu c e ?h (q_idempotency_key q) w")
  have same: "w_db w1 = w_db w" using schedule_cached_db [of R K pu c e ?h "q_idempotency_key q" w] a by simp
  have "1 \<le> n_max_attempts (schedule_new_job c ?h q)"
    using cfg q by (auto simp: schedule_new_job_def opt_all_def split: option.splits)
  then have "db_effect {} (w_db w) (w_db (snd (schedule_insert R K c e ?h q w1)))"
    unfolding schedule_insert_w_db same by (intro tx_effect [OF inv] create_effect [OF inv fresh])
  then show ?thesis
    using db_effect_refl [OF inv] same by (auto simp: schedule_def Let_def a split: sum.splits option.splits)
qed

lemma schedule_job_effect:
  assumes "db_inv {} (w_db w)" "fresh_ids (sv_env e) (w_db w)" "1 \<le> cfg_max_attempts c"
  shows "db_effect {} (w_db w) (w_db (snd (schedule_job R K digest pu url c e header body w)))"
proof (cases "parse_request url body")
  case (Inl x)
  with db_effect_refl [OF assms(1)] show ?thesis by (simp add: schedule_job_def)
next
  case (Inr q)
  have "db_effect {} (w_db w) (w_db (snd (schedule R K digest pu c e q' w)))" if "merge_key header q = Some q'" for q'
    using that parse_request_attempts [OF Inr]
    by (intro schedule_effect [OF assms]) (auto simp: merge_key_def split: option.splits if_splits)
  with Inr db_effect_refl [OF assms(1)] show ?thesis
    by (auto simp: schedule_job_def split_beta Let_def split: option.splits)
qed

lemma requeue_route_effect:
  assumes inv: "db_inv {} (w_db w)" and cfg: "1 \<le> cfg_max_attempts c"
  shows "db_effect {} (w_db w) (w_db (snd (requeue_route R pu c e t extra w)))"
proof (cases "pu t")
  case None
  with db_effect_refl [OF inv] show ?thesis by (simp add: requeue_route_def)
next
  case (Some i)
  let ?x = "coalesce extra (cfg_max_attempts c)"
  have "db_effect {} (w_db w) (w_db (snd (dead_letters_requeue R c e i ?x w)))" if "opt_all (int_in 1 20) extra"
  proof -
    have x: "1 \<le> ?x" using that cfg by (auto simp: opt_all_def int_in_def coalesce_def split: option.splits)
    have "w_db (snd (dead_letters_requeue R c e i ?x w)) =
        snd (begin_tx (sv_fate e) (requeue_dead_letter (sv_env e) i ?x) (w_db w))"
      by (auto simp: dead_letters_requeue_def in_tx_def split: prod.splits sum.splits option.splits)
    then show ?thesis using tx_effect [OF inv requeue_effect [OF inv x]] by simp
  qed
  moreover have "w_db (snd (requeue_route R pu c e t extra w)) =
      (if opt_all (int_in 1 20) extra then w_db (snd (dead_letters_requeue R c e i ?x w)) else w_db w)"
    by (auto simp: requeue_route_def Some split: prod.splits sum.splits exn.splits)
  ultimately show ?thesis using db_effect_refl [OF inv] by simp
qed

lemma receive_webhook_effect:
  assumes inv: "db_inv {} (w_db w)"
  shows "db_effect {} (w_db w) (w_db (snd (receive_webhook pu c e u p w)))"
proof -
  have "db_effect {} (w_db w) (snd (begin_tx (sv_fate e) (record_receipt pu (sv_env e) p) (w_db w)))"
    by (rule tx_effect [OF inv outbox_effect(3) [OF inv]])
  then show ?thesis
    using db_effect_refl [OF inv]
    by (auto simp: receive_webhook_def in_tx_def split: prod.splits sum.splits)
qed

section \<open>Effects of the worker's steps\<close>

lemma deliver_step_job: "fl_job (fst (deliver_step c L send lib e f w)) = fl_job f"
  by (cases "fl_phase f")
    (auto simp: deliver_step_def acquire_phase_def return_phase_def send_phase_def finalize_phase_def release_phase_def
      Let_def split: sum.splits option.splits prod.splits after_release.splits)

lemma deliver_step_Finalizing:
  assumes "fl_phase (fst (deliver_step c L send lib e f w)) = Finalizing rp"
  shows "fl_phase f = Sending \<and> rp = report_of lib (fst (timed_send send (we_send e) (fl_job f) (w_db w)))"
proof (cases "fl_phase f")
  case Sending
  then show ?thesis
    using assms by (auto simp: deliver_step_def send_phase_def Let_def split_beta split: sum.splits if_splits)
qed (use assms in \<open>auto simp: deliver_step_def acquire_phase_def return_phase_def finalize_phase_def release_phase_def
      Let_def split: sum.splits option.splits prod.splits after_release.splits if_splits\<close>)

lemma report_of_success: "sp_error (report_of lib r) = None \<longleftrightarrow> (\<exists>x. r = Inr x)"
  by (auto simp: report_of_def split: sum.splits exn.splits)

text \<open>The jobs that a step of a flight may make \<open>sent\<close>.\<close>

definition may_send :: "flight \<Rightarrow> uuid set" where
  "may_send f = (case fl_phase f of Finalizing rp \<Rightarrow> if sp_error rp = None then {j_id (fl_job f)} else {} | _ \<Rightarrow> {})"

context worker_parts
begin

lemma step_effect:
  assumes inv: "db_inv {} (w_db w)" and fresh: "fresh_ids (we_env e) (w_db w)" and phase: "fl_phase f \<noteq> Sending"
  shows "db_effect (may_send f) (w_db w) (w_db (snd (deliver_step c L send lib e f w)))"
proof (cases rule: step_db [of lib e f w])
  case (buckets b)
  with inv show ?thesis by (intro db_effect_same_jobs) simp_all
next
  case (returned d r)
  from rows_move_mono [OF rows_move_return [OF this]] return_to_queue_keeps [OF inv this] same_log(3) [OF this]
    same_outbox(3) [OF this]
  show ?thesis by (simp add: db_effectI outbox_grows_same)
next
  case sent
  with phase show ?thesis by simp
next
  case (recorded rp r)
  from record_effect [OF inv fresh recorded(2)] recorded(1) show ?thesis by (simp add: may_send_def)
qed

lemma step_send:
  assumes "fl_phase f = Sending"
  shows "w_db (snd (deliver_step c L send lib e f w)) = snd (timed_send send (we_send e) (fl_job f) (w_db w))"
  using assms by (simp add: deliver_step_def send_phase_def split_beta Let_def)

end

lemma claim_batch_effect:
  assumes inv: "db_inv {} (w_db w)" and claim: "claim_batch c worker loop_id clock fate env w = (r, w')"
  shows "db_effect {} (w_db w) (w_db w')"
proof -
  let ?block = "claim_due_jobs env (str_or loop_id worker) (batch_size c) (lease_seconds c)"
  have "w_db w' = snd (begin_tx fate ?block (w_db w))"
    using claim by (auto simp: claim_batch_def in_tx_def split: prod.splits sum.splits)
  then show ?thesis using tx_effect [OF inv claim_effect [OF inv]] by simp
qed

lemma reaper_run_once_effect:
  assumes inv: "db_inv {} (w_db w)" and fresh: "fresh_ids env (w_db w)" and reap: "reaper_run_once c fate env w = (r, w')"
  shows "db_effect {} (w_db w) (w_db w')"
proof -
  have "w_db w' = snd (begin_tx fate (reaper_block c env) (w_db w))"
    using reap by (auto simp: reaper_run_once_def in_tx_def split: prod.splits sum.splits)
  then show ?thesis using tx_effect [OF inv reaper_effect [OF inv fresh]] by simp
qed

end
