(* ===== verification/Queue_Properties.thy ===== *)
theory Queue_Properties
  imports Queue_Effects
begin

text \<open>
  What holds of the whole system in every reachable state and across every step, whatever the
  interleaving, the crashes and the failures of Redis.
\<close>

section \<open>The invariant of the system\<close>

definition sent_ids :: "db \<Rightarrow> uuid set" where
  "sent_ids s = {j_id j | j. j \<in> set (jobs s) \<and> j_status j = SENT}"

text \<open>
  The provider's log has one row per job, of known jobs only, and one for each sent job; a flight is
  of a known job, and one that is about to record a success has its message in the log.
\<close>

definition log_ok :: "db \<Rightarrow> bool" where
  "log_ok s \<longleftrightarrow> distinct (provider_keys s) \<and> set (provider_keys s) \<subseteq> set (job_ids s) \<and>
     sent_ids s \<subseteq> set (provider_keys s)"

definition flight_ok :: "db \<Rightarrow> flight \<Rightarrow> bool" where
  "flight_ok s f \<longleftrightarrow> j_id (fl_job f) \<in> set (job_ids s) \<and> may_send f \<subseteq> set (provider_keys s)"

text \<open>
  A claimed webhook event is that of a row of the outbox, which has been claimed as often at least; and no
  event is given up before its last attempt.
\<close>

definition event_of_row :: "outbox_event \<Rightarrow> outbox_row \<Rightarrow> bool" where
  "event_of_row ev r \<longleftrightarrow>
     ev = (outbox_event_of r)\<lparr>e_attempts := e_attempts ev\<rparr> \<and> e_attempts ev \<le> o_attempts r"

definition outbox_ok :: "settings \<Rightarrow> db \<Rightarrow> outbox_event multiset \<Rightarrow> bool" where
  "outbox_ok c s evs \<longleftrightarrow>
     (\<forall>ev\<in>#evs. \<exists>r\<in>set (webhook_outbox s). event_of_row ev r) \<and>
     (\<forall>r\<in>set (webhook_outbox s). o_status r = OutboxFailed \<longrightarrow> webhook_max_attempts c \<le> o_attempts r)"

definition system_ok :: "'r deployment \<Rightarrow> 'r system \<Rightarrow> bool" where
  "system_ok D s \<longleftrightarrow>
     1 \<le> cfg_max_attempts (dp_settings D) \<and> db_inv {} (system_db s) \<and> log_ok (system_db s) \<and>
     (\<forall>f\<in>#sy_flights s. flight_ok (system_db s) f) \<and> outbox_ok (dp_settings D) (system_db s) (sy_events s)"

lemma system_okD:
  assumes "system_ok D s"
  shows "1 \<le> cfg_max_attempts (dp_settings D)" "db_inv {} (system_db s)" "log_ok (system_db s)"
    "\<And>f. f \<in># sy_flights s \<Longrightarrow> flight_ok (system_db s) f" "outbox_ok (dp_settings D) (system_db s) (sy_events s)"
  using assms by (auto simp: system_ok_def)

lemma e_id_attempts: "e_id (ev\<lparr>e_attempts := n\<rparr>) = e_id ev"
  by (cases ev) simp

lemma outbox_ok_grows:
  "outbox_ok c s evs \<Longrightarrow> outbox_grows s t \<Longrightarrow> set_mset evs' \<subseteq> set_mset evs \<Longrightarrow> outbox_ok c t evs'"
  unfolding outbox_ok_def outbox_grows_def by fastforce

text \<open>An update of rows that keeps what an event says and counts up, and gives up no row too early.\<close>

lemma outbox_ok_update:
  assumes ok: "outbox_ok c s evs" and t: "webhook_outbox t = update_where p f (webhook_outbox s)"
    and f: "\<And>r. r \<in> set (webhook_outbox s) \<Longrightarrow> p r \<Longrightarrow> (outbox_event_of (f r))\<lparr>e_attempts := 0\<rparr> = (outbox_event_of r)\<lparr>e_attempts := 0\<rparr> \<and>
       o_attempts r \<le> o_attempts (f r) \<and>
       (o_status (f r) = OutboxFailed \<longrightarrow> o_status r = OutboxFailed \<or> webhook_max_attempts c \<le> o_attempts r)"
  shows "outbox_ok c t evs"
  unfolding outbox_ok_def
proof (intro conjI ballI impI)
  fix ev assume "ev \<in># evs"
  then obtain r where r: "r \<in> set (webhook_outbox s)" "event_of_row ev r" using ok by (auto simp: outbox_ok_def)
  have "event_of_row ev (if p r then f r else r)"
    using f [OF r(1)] r(2) by (auto simp: event_of_row_def outbox_event_of_def)
  moreover have "(if p r then f r else r) \<in> set (webhook_outbox t)" unfolding t set_update_where using r(1) by (rule imageI)
  ultimately show "\<exists>r\<in>set (webhook_outbox t). event_of_row ev r" by blast
next
  fix r assume "r \<in> set (webhook_outbox t)" and failed: "o_status r = OutboxFailed"
  then obtain k where k: "k \<in> set (webhook_outbox s)" "r = (if p k then f k else k)" unfolding t set_update_where by blast
  with ok f [OF k(1)] failed show "webhook_max_attempts c \<le> o_attempts r"
    by (cases "p k") (auto simp: outbox_ok_def intro: order_trans)
qed

lemma outbox_ok_dispatch:
  assumes inv: "db_inv {} s" and ok: "outbox_ok c s evs" and ev: "ev \<in># evs" and dispatch: "dispatch c de ev s = (d, t)"
  shows "outbox_ok c t (evs - {#ev#})"
proof -
  obtain r where r: "r \<in> set (webhook_outbox s)" "event_of_row ev r" using ok ev by (auto simp: outbox_ok_def)
  have only: "k = r" if "k \<in> set (webhook_outbox s)" "o_id k = e_id ev" for k
  proof (rule key_unique [OF db_invD(3) [OF inv] that(1) r(1)])
    have "e_id ev = e_id (outbox_event_of r)" using r(2) unfolding event_of_row_def by (metis e_id_attempts)
    then show "o_id k = o_id r" using that(2) by simp
  qed
  have "outbox_ok c (mark_delivered env (e_id ev) s) evs" for env
    by (rule outbox_ok_update [OF ok, where p = "\<lambda>r. o_id r = e_id ev" and f = "delivered_row env"])
      (simp_all add: mark_delivered_def delivered_row_def outbox_event_of_def)
  moreover have "outbox_ok c (mark_attempt_failed env (e_id ev) err delay s) evs"
    if "retry_delay_of c ev u = Inr delay" for env err delay u
  proof (rule outbox_ok_update [OF ok, where p = "\<lambda>r. o_id r = e_id ev" and f = "attempt_failed_row env err delay"])
    fix k assume k: "k \<in> set (webhook_outbox s)" "o_id k = e_id ev"
    have "webhook_max_attempts c \<le> o_attempts k" if "delay = None"
      using \<open>retry_delay_of c ev u = Inr delay\<close> that r(2) unfolding only [OF k]
      by (auto simp: retry_delay_of_def bind_result_Inr_iff event_of_row_def split: if_splits)
    then show "(outbox_event_of (attempt_failed_row env err delay k))\<lparr>e_attempts := 0\<rparr> = (outbox_event_of k)\<lparr>e_attempts := 0\<rparr> \<and>
        o_attempts k \<le> o_attempts (attempt_failed_row env err delay k) \<and>
        (o_status (attempt_failed_row env err delay k) = OutboxFailed \<longrightarrow>
           o_status k = OutboxFailed \<or> webhook_max_attempts c \<le> o_attempts k)"
      by (simp add: attempt_failed_row_def outbox_event_of_def)
  qed (simp add: mark_attempt_failed_def)
  ultimately have "outbox_ok c t evs"
    using dispatch ok
    by (auto simp: dispatch_def begin_tx_def bind_result_Inr_iff split: sum.splits option.splits tx_fate.splits)
  then show ?thesis by (auto simp: outbox_ok_def dest: in_diffD)
qed

lemma outbox_ok_claim:
  fixes s :: db
  assumes ok: "outbox_ok c s evs" and claim: "claim_outbox_events env n l s = Inr (new, t)"
  shows "outbox_ok c t (evs + mset new)"
proof -
  obtain hit where t: "webhook_outbox t = update_where hit (lease_row env l) (webhook_outbox s)"
    and new: "set new \<subseteq> outbox_event_of ` lease_row env l ` {r \<in> set (webhook_outbox s). hit r}"
    by (rule claim_outbox_eventsE [OF claim]) (rule that, auto)
  have "outbox_ok c t evs"
    by (rule outbox_ok_update [OF ok t]) (simp add: lease_row_def outbox_event_of_def)
  moreover have "\<exists>r\<in>set (webhook_outbox t). event_of_row ev r" if ev: "ev \<in> set new" for ev
  proof -
    obtain r where r: "r \<in> set (webhook_outbox s)" "hit r" "ev = outbox_event_of (lease_row env l r)" using ev new by auto
    have "(if hit r then lease_row env l r else r) \<in> set (webhook_outbox t)" unfolding t set_update_where using r(1) by (rule imageI)
    with r(2,3) show ?thesis by (intro bexI [of _ "lease_row env l r"]) (simp_all add: event_of_row_def outbox_event_of_def)
  qed
  ultimately show ?thesis by (auto simp: outbox_ok_def)
qed

lemma outbox_ok_poll:
  assumes ok: "outbox_ok c s evs" and poll: "begin_tx fate (claim_outbox_events env n l) s = (r, t)"
  shows "outbox_ok c t (evs + mset (new_events r))"
proof -
  have "t = s \<and> new_events r = [] \<or> (\<exists>new. claim_outbox_events env n l s = Inr (new, t) \<and> set (new_events r) \<subseteq> set new)"
    using poll by (auto simp: begin_tx_def new_events_def split: tx_fate.splits sum.splits)
  then show ?thesis
  proof
    assume "\<exists>new. claim_outbox_events env n l s = Inr (new, t) \<and> set (new_events r) \<subseteq> set new"
    then obtain new where new: "claim_outbox_events env n l s = Inr (new, t)" "set (new_events r) \<subseteq> set new" by blast
    from outbox_ok_claim [OF ok new(1)] new(2) show ?thesis by (auto simp: outbox_ok_def)
  qed (use ok in simp)
qed

lemma rows_move_cases:
  assumes "rows_move B s t"
  obtains (moves) p f where "jobs t = update_where p f (jobs s)"
      "\<And>j. j \<in> set (jobs s) \<Longrightarrow> p j \<Longrightarrow> moved j (f j)"
      "\<And>j. j \<in> set (jobs s) \<Longrightarrow> p j \<Longrightarrow> j_status (f j) = SENT \<Longrightarrow> j_id j \<in> B"
  | (adds) j where "jobs t = jobs s @ [j]" "j_status j = PENDING" "j_version j = 1" "j_id j \<notin> set (job_ids s)"
  using assms unfolding rows_move_def by blast

lemma rows_move_ids:
  assumes "rows_move B s t"
  shows "set (job_ids s) \<subseteq> set (job_ids t)" "sent_ids t \<subseteq> sent_ids s \<union> B"
  using assms
proof (atomize (full), cases rule: rows_move_cases)
  case (moves p f)
  have "job_ids t = job_ids s"
    unfolding job_ids_def moves(1) by (rule map_update_where_same) (use moves(2) in \<open>simp add: moved_def\<close>)
  moreover have "sent_ids t \<subseteq> sent_ids s \<union> B"
  proof
    fix i assume "i \<in> sent_ids t"
    then obtain x where x: "x \<in> set (jobs t)" "i = j_id x" "j_status x = SENT" by (auto simp: sent_ids_def)
    from x(1) obtain j where j: "j \<in> set (jobs s)" "x = (if p j then f j else j)"
      unfolding moves(1) set_update_where by (rule imageE)
    show "i \<in> sent_ids s \<union> B"
    proof (cases "p j")
      case True
      with j x(2,3) moves(2,3) [OF j(1)] show ?thesis by (simp add: moved_def)
    next
      case False
      with j x(2,3) show ?thesis by (auto simp: sent_ids_def)
    qed
  qed
  ultimately show "set (job_ids s) \<subseteq> set (job_ids t) \<and> sent_ids t \<subseteq> sent_ids s \<union> B" by simp
next
  case (adds j)
  then show "set (job_ids s) \<subseteq> set (job_ids t) \<and> sent_ids t \<subseteq> sent_ids s \<union> B"
    by (auto simp: job_ids_def sent_ids_def)
qed

lemma jobs_effect_log:
  assumes "jobs_effect B s t" "log_ok s" "B \<subseteq> set (provider_keys s)"
  shows "log_ok t" "flight_ok s f \<Longrightarrow> flight_ok t f"
  using assms rows_move_ids [of B s t] by (auto simp: jobs_effect_def log_ok_def flight_ok_def)

text \<open>A step with a plain effect on the tables keeps the invariant, and moves jobs along their life.\<close>

definition step_sound :: "'r deployment \<Rightarrow> 'r system \<Rightarrow> 'r system \<Rightarrow> bool" where
  "step_sound D s t \<longleftrightarrow> system_ok D t \<and> rows_move UNIV (system_db s) (system_db t)"

lemma system_ok_effect:
  assumes ok: "system_ok D s" and eff: "jobs_effect B (system_db s) (w_db w)" and B: "B \<subseteq> set (provider_keys (system_db s))"
    and fs: "\<And>f. f \<in># sy_flights t \<Longrightarrow> f \<notin># sy_flights s \<Longrightarrow> flight_ok (w_db w) f" and t: "sy_world t = w"
    and evs: "outbox_ok (dp_settings D) (w_db w) (sy_events t)"
  shows "step_sound D s t"
  using system_okD [OF ok] jobs_effect_log [OF eff _ B] eff fs evs
  by (auto simp: step_sound_def system_ok_def system_db_def [of t] t jobs_effect_def intro: rows_move_mono)

interpretation wired: worker_parts "build_rate_limiter R c" c "mock_send (failure_rate c)" for R c
  by (rule worker_parts.intro [OF build_limiter_contract mock.sender_contract_axioms])

lemma may_send_tasks [simp]: "may_send (f\<lparr>fl_tasks := ts\<rparr>) = may_send f"
  by (cases "fl_phase f") (simp_all add: may_send_def)

lemma flight_step_ok:
  assumes ok: "system_ok D s" and i: "f0 \<in># sy_flights s" and fresh: "fresh_ids (we_env we) (system_db s)"
    and step: "worker_step D we f0 (sy_world s) = (f', w)"
    and t: "sy_world t = w" "sy_flights t = add_mset (f'\<lparr>fl_tasks := []\<rparr>) (sy_flights s - {#f0#})" "sy_events t = sy_events s"
  shows "step_sound D s t"
proof -
  let ?f = f0 and ?c = "dp_settings D"
  let ?send = "mock_send (failure_rate ?c)"
  have f_ok: "flight_ok (system_db s) ?f" using system_okD(4) [OF ok] i by simp
  have w: "w = snd (worker_step D we ?f (sy_world s))" and f': "f' = fst (worker_step D we ?f (sy_world s))"
    using step by simp_all
  have job: "fl_job f' = fl_job ?f" unfolding f' worker_step_def by (rule deliver_step_job)
  have only: "f \<in># sy_flights t \<Longrightarrow> f \<notin># sy_flights s \<Longrightarrow> f = f'\<lparr>fl_tasks := []\<rparr>" for f
    by (auto simp: t(2) dest: in_diffD)
  show ?thesis
  proof (cases "fl_phase ?f = Sending")
    case False
    have "may_send f' = {}"
      using deliver_step_Finalizing [of ?c "build_rate_limiter (dp_redis D) ?c" ?send "dp_exn_text D" we ?f "sy_world s"] False
      by (auto simp: may_send_def f' worker_step_def split: phase.split)
    moreover have full: "db_effect (may_send ?f) (system_db s) (w_db w)"
      using wired.step_effect [OF system_okD(2) [OF ok, unfolded system_db_def] fresh [unfolded system_db_def] False]
      by (simp add: w worker_step_def system_db_def)
    moreover from full have eff: "jobs_effect (may_send ?f) (system_db s) (w_db w)" and grows: "outbox_grows (system_db s) (w_db w)"
      by (simp_all add: db_effect_def)
    moreover have "flight_ok (w_db w) ?f" by (rule jobs_effect_log(2) [OF eff system_okD(3) [OF ok] _ f_ok]) (use f_ok in \<open>simp add: flight_ok_def\<close>)
    ultimately have "flight_ok (w_db w) f'" by (simp add: flight_ok_def job)
    with only have "f \<in># sy_flights t \<Longrightarrow> f \<notin># sy_flights s \<Longrightarrow> flight_ok (w_db w) f" for f
      by (force simp: flight_ok_def)
    with f_ok outbox_ok_grows [OF system_okD(5) [OF ok] grows, of "sy_events t"] t(3) show ?thesis
      by (intro system_ok_effect [OF ok eff _ _ t(1)]) (auto simp: flight_ok_def)
  next
    case True
    let ?t = "snd (timed_send ?send (we_send we) (fl_job ?f) (system_db s))"
    let ?r = "fst (timed_send ?send (we_send we) (fl_job ?f) (system_db s))"
    have db: "w_db w = ?t"
      using wired.step_send [OF True, where R = "dp_redis D" and c = ?c and lib = "dp_exn_text D" and e = we and w = "sy_world s"] by (simp add: w worker_step_def system_db_def)
    have same: "jobs ?t = jobs (system_db s)" by (rule mock.timed_same(1))
    have ids: "job_ids ?t = job_ids (system_db s)" "sent_ids ?t = sent_ids (system_db s)" by (simp_all add: same job_ids_def sent_ids_def)
    note keys = mock.timed_key_set [where failure = "failure_rate ?c" and e = "we_send we" and j = "fl_job ?f" and s = "system_db s"]
    have log: "log_ok ?t"
      using system_okD(3) [OF ok] mock.timed_distinct [where failure = "failure_rate ?c" and e = "we_send we" and j = "fl_job ?f" and s = "system_db s"] keys f_ok
      by (auto simp: log_ok_def ids flight_ok_def)
    have old: "flight_ok (system_db s) f \<Longrightarrow> flight_ok ?t f" for f using keys by (auto simp: flight_ok_def ids)
    have "may_send f' \<subseteq> set (provider_keys ?t)"
    proof (cases "\<exists>x. ?r = Inr x")
      case True
      then have "j_id (fl_job ?f) \<in> set (provider_keys ?t)" using mock.timed_accepted by blast
      then show ?thesis by (auto simp: may_send_def job split: phase.split)
    next
      case False
      have "fl_phase f' = Finalizing rp \<Longrightarrow> rp = report_of (dp_exn_text D) ?r" for rp
        using deliver_step_Finalizing [of ?c "build_rate_limiter (dp_redis D) ?c" ?send "dp_exn_text D" we ?f "sy_world s" rp]
        by (simp add: f' worker_step_def system_db_def)
      then show ?thesis using False report_of_success [of "dp_exn_text D" ?r] by (auto simp: may_send_def split: phase.split)
    qed
    then have "flight_ok ?t f'" using old [OF f_ok] by (simp add: flight_ok_def job)
    moreover have "db_inv {} ?t" by (rule mock.timed_inv [OF system_okD(2) [OF ok]])
    moreover have "flight_ok ?t f" if "f \<in># sy_flights t" for f
      using that only [OF that] old system_okD(4) [OF ok] \<open>flight_ok ?t f'\<close> by (cases "f \<in># sy_flights s") (auto simp: flight_ok_def)
    moreover have "outbox_ok (dp_settings D) ?t (sy_events t)"
      by (rule outbox_ok_grows [OF system_okD(5) [OF ok] outbox_grows_same]) (simp_all add: t(3) mock.timed_same)
    ultimately show ?thesis
      using system_okD(1) [OF ok] log rows_move_same [OF same]
      by (simp add: step_sound_def system_ok_def system_db_def [of t] t(1) db)
  qed
qed

lemma outbox_step_sound:
  assumes "system_ok D s" "jobs_effect {} (system_db s) (system_db t)" "set_mset (sy_flights t) \<subseteq> set_mset (sy_flights s)"
    "outbox_ok (dp_settings D) (system_db t) (sy_events t)"
  shows "step_sound D s t"
  by (rule system_ok_effect [OF assms(1) assms(2) [unfolded system_db_def [of t]] _ _ refl])
    (use assms(3,4) in \<open>auto simp: system_db_def\<close>)

lemma world_step_sound:
  assumes "system_ok D s" "db_effect {} (system_db s) (system_db t)" "set_mset (sy_flights t) \<subseteq> set_mset (sy_flights s)"
    "set_mset (sy_events t) \<subseteq> set_mset (sy_events s)"
  shows "step_sound D s t"
  using assms outbox_ok_grows [OF system_okD(5) [OF assms(1)] _ assms(4)]
  by (intro outbox_step_sound) (simp_all add: db_effect_def)

lemma same_db_sound:
  assumes "system_ok D s" "system_db t = system_db s" "set_mset (sy_flights t) \<subseteq> set_mset (sy_flights s)"
    "set_mset (sy_events t) \<subseteq> set_mset (sy_events s)"
  shows "step_sound D s t"
  using db_effect_refl [OF system_okD(2) [OF assms(1)]] assms by (intro world_step_sound) simp_all

lemma system_db_simps [simp]:
  "system_db (s\<lparr>sy_world := w\<rparr>) = w_db w" "system_db (s\<lparr>sy_flights := fs\<rparr>) = system_db s"
  "system_db (s\<lparr>sy_now := n\<rparr>) = system_db s" "system_db (s\<lparr>sy_tasks := ts\<rparr>) = system_db s"
  "system_db (s\<lparr>sy_readers := rs\<rparr>) = system_db s" "system_db (s\<lparr>sy_events := evs\<rparr>) = system_db s"
  by (simp_all add: system_db_def)

lemma get_job_route_db: "w_db (snd (get_job_route R K pu c e job_id inc w)) = w_db w"
proof (cases "pu job_id")
  case (Some i)
  then show ?thesis
    using service_get_db [of R K c e 0 i inc w] by (auto simp: get_job_route_def split: prod.splits sum.splits option.splits)
qed (simp add: get_job_route_def)

lemma metrics_route_db: "w_db (snd (metrics_route R M c e w)) = w_db w"
  by (auto simp: metrics_route_def metrics_snapshot_def on_redis_def split: prod.splits sum.splits)

lemma claim_step_sound:
  assumes ok: "system_ok D s" and claim: "claim_batch (dp_settings D) worker loop_id clock fate env (sy_world s) = (fs, w)"
    and t: "sy_world t = w" "sy_flights t = sy_flights s + mset (new_flights fs)" "sy_events t = sy_events s"
  shows "step_sound D s t"
proof (rule system_ok_effect [OF ok _ _ _ t(1)])
  have full: "db_effect {} (system_db s) (w_db w)"
    using claim_batch_effect [OF system_okD(2) [OF ok, unfolded system_db_def] claim] by (simp add: system_db_def)
  then show eff: "jobs_effect {} (system_db s) (w_db w)" by (simp add: db_effect_def)
  show "outbox_ok (dp_settings D) (w_db w) (sy_events t)"
    using outbox_ok_grows [OF system_okD(5) [OF ok]] full by (simp add: t(3) db_effect_def)
  fix f assume "f \<in># sy_flights t" "f \<notin># sy_flights s"
  then obtain gs where gs: "fs = Inr gs" "f \<in> set gs" by (auto simp: t(2) new_flights_def split: sum.splits)
  obtain d where "fl_job f = claim_row env (str_or loop_id worker) (lease_seconds (dp_settings D)) d"
      "d \<in> set (jobs (system_db s))" "fl_phase f = Acquiring"
    using claim_batchE [OF claim [unfolded gs(1)] gs(2) db_invD(1) [OF system_okD(2) [OF ok], unfolded system_db_def]]
    unfolding system_db_def by metis
  moreover have "set (job_ids (system_db s)) \<subseteq> set (job_ids (w_db w))"
    using eff rows_move_ids(1) by (auto simp: jobs_effect_def)
  ultimately show "flight_ok (w_db w) f" by (auto simp: flight_ok_def may_send_def job_ids_def)
qed (simp_all add: t)

lemma queue_step_sound:
  assumes step: "queue_step D s t" and ok: "system_ok D s"
  shows "step_sound D s t"
proof -
  note inv = system_okD(2) [OF ok] and cfg = system_okD(1) [OF ok]
  note inv' = inv [unfolded system_db_def]
  from step show ?thesis
  proof cases
    case (schedule_step e n header body r w)
    show ?thesis
      unfolding schedule_step(1)
      by (rule world_step_sound [OF ok])
        (use schedule_job_effect [OF inv' schedule_step(2) [unfolded system_db_def] cfg, where R = "dp_redis D" and
          K = "dp_codec D" and digest = "dp_digest D" and pu = "dp_parse_uuid D" and url = "dp_parse_url D" and
          header = header and body = body] schedule_step(4) in
          \<open>simp_all add: system_db_def\<close>)
  next
    case (get_step e n job_id inc r w)
    then show ?thesis
      using get_job_route_db [of "dp_redis D" "dp_codec D" "dp_parse_uuid D" "dp_settings D" e job_id inc "sy_world s"]
      by (intro same_db_sound [OF ok]) (simp_all add: system_db_def)
  next
    case (metrics_step e n r w)
    then show ?thesis
      using metrics_route_db [of "dp_redis D" "dp_metrics_codec D" "dp_settings D" e "sy_world s"]
      by (intro same_db_sound [OF ok]) (simp_all add: system_db_def)
  next
    case (requeue_step e n job_id extra r' w)
    show ?thesis
      unfolding requeue_step(1)
      by (rule world_step_sound [OF ok])
        (use requeue_route_effect [OF inv' cfg, where R = "dp_redis D" and pu = "dp_parse_uuid D" and e = e and t = job_id and
          extra = extra] requeue_step(3) in \<open>simp_all add: system_db_def\<close>)
  next
    case (receive_step e u payload r' w)
    show ?thesis
      unfolding receive_step(1)
      by (rule world_step_sound [OF ok])
        (use receive_webhook_effect [OF inv', where pu = "dp_parse_uuid D" and c = "dp_settings D" and e = e and u = u and
          p = payload] receive_step(2) in \<open>simp_all add: system_db_def\<close>)
  next
    case (read_step i j)
    then show ?thesis by (intro same_db_sound [OF ok]) simp_all
  next
    case (put_step j re b w)
    then have "w_db w = system_db s" by (auto simp: on_redis_def system_db_def split: prod.splits)
    with put_step show ?thesis by (intro same_db_sound [OF ok]) simp_all
  next
    case (put_key_step j k re x)
    then show ?thesis by (intro same_db_sound [OF ok]) (simp_all add: system_db_def)
  next
    case (late_drop_step j v re x)
    then show ?thesis by (intro same_db_sound [OF ok]) (simp_all add: system_db_def)
  next
    case (metrics_key_step re x u)
    then show ?thesis by (intro same_db_sound [OF ok]) (simp_all add: system_db_def)
  next
    case (claim_step worker loop_id clock fate env fs w)
    show ?thesis unfolding claim_step(1) by (rule claim_step_sound [OF ok claim_step(2)]) simp_all
  next
    case (flight_step f we f' w)
    show ?thesis unfolding flight_step(1) by (rule flight_step_ok [OF ok flight_step(2,3,5)]) simp_all
  next
    case (task_step task re x)
    then show ?thesis by (intro same_db_sound [OF ok]) (simp_all add: system_db_def)
  next
    case (crash_step fs ts es)
    then show ?thesis by (intro same_db_sound [OF ok]) (auto dest: mset_subset_eqD)
  next
    case (reap_step env fate ts w)
    show ?thesis
      unfolding reap_step(1)
      by (rule world_step_sound [OF ok])
        (use reaper_run_once_effect [OF inv' reap_step(2) [unfolded system_db_def] reap_step(3)] in \<open>simp_all add: system_db_def\<close>)
  next
    case (poll_outbox_step fate env evs t')
    have "jobs_effect {} (system_db s) (snd (begin_tx fate (claim_outbox_events env (webhook_batch_size (dp_settings D))
        (webhook_timeout_seconds (dp_settings D) * 2)) (system_db s)))"
      by (rule tx_jobs_effect [OF inv outbox_effect(1) [OF inv]])
    with poll_outbox_step(2) outbox_ok_poll [OF system_okD(5) [OF ok] poll_outbox_step(2)] show ?thesis
      unfolding poll_outbox_step(1) by (intro outbox_step_sound [OF ok]) simp_all
  next
    case (dispatch_step ev de d t')
    show ?thesis
      unfolding dispatch_step(1)
      by (rule outbox_step_sound [OF ok])
        (use outbox_effect(2) [OF inv, of "dp_settings D" de ev] dispatch_step(3)
          outbox_ok_dispatch [OF inv system_okD(5) [OF ok] dispatch_step(2,3)] in simp_all)
  next
    case (redis_step x)
    then show ?thesis by (intro same_db_sound [OF ok]) (simp_all add: system_db_def)
  qed
qed

interpretation queue: inductive_invariant "queue_init D" "queue_step D" "system_ok D" for D
proof
  fix s t
  show "queue_init D s \<Longrightarrow> system_ok D s"
    using db_inv_empty
    by (simp add: queue_init_def system_ok_def log_ok_def sent_ids_def empty_db_def provider_keys_def outbox_ok_def)
  show "system_ok D s \<Longrightarrow> queue_step D s t \<Longrightarrow> system_ok D t"
    using queue_step_sound by (auto simp: step_sound_def)
qed

lemmas reach_ok = queue.reach_inv

lemma reach_run: "(queue_step D)\<^sup>*\<^sup>* s t \<Longrightarrow> reach (queue_init D) (queue_step D) s \<Longrightarrow> reach (queue_init D) (queue_step D) t"
  by (induction rule: rtranclp_induct) (auto intro: reach_step)

section \<open>What every reachable state satisfies\<close>

text \<open>
  C2: the books always balance. In every reachable state of the system each job has used at most its
  allowed attempts; its finished attempts are recorded under the numbers \<open>1, 2, ..\<close> without a gap; it
  has exactly one ledger row if it is \<open>sent\<close> and none otherwise, exactly one dead letter if it is
  dead-lettered and none otherwise; and every finished attempt has its webhook event, in order.
\<close>

theorem books_always_balance:
  assumes "reach (queue_init D) (queue_step D) s" and "j \<in> set (jobs (system_db s))"
  shows "0 \<le> j_attempts j \<and> j_attempts j \<le> j_max_attempts j \<and>
     map a_attempt_no (attempts_of (system_db s) (j_id j)) =
       [1..if j_status j = PROCESSING then j_attempts j - 1 else j_attempts j] \<and>
     length (deliveries_of (system_db s) (j_id j)) = (if j_status j = SENT then 1 else 0) \<and>
     length (dead_letters_of (system_db s) (j_id j)) = (if j_status j = DEAD_LETTERED then 1 else 0) \<and>
     list_all2 outcome_event (map a_outcome (attempts_of (system_db s) (j_id j)))
       (map o_event (events_of (system_db s) (j_id j)))"
proof -
  note inv = system_okD(2) [OF reach_ok [OF assms(1)]]
  have "j_attempts j \<le> j_max_attempts j" "0 \<le> j_attempts j"
    using db_invD(5) [OF inv assms(2)] by (auto simp: row_ok_def split: job_status.splits)
  then show ?thesis using db_invD(6) [OF inv assms(2)] by (simp add: books_ok_def settled_def Let_def)
qed

lemma provider_count:
  assumes "reach (queue_init D) (queue_step D) s"
  shows "length (filter (\<lambda>p. p_idempotency_key p = k) (mock_provider_log (system_db s))) =
     (if k \<in> set (provider_keys (system_db s)) then 1 else 0)"
proof (cases "k \<in> set (provider_keys (system_db s))")
  case True
  let ?log = "mock_provider_log (system_db s)"
  obtain p where p: "p \<in> set ?log" "k = p_idempotency_key p" using True by (auto simp: provider_keys_def)
  have "filter (\<lambda>q. p_idempotency_key q = k) ?log = [p]"
    unfolding p(2) using system_okD(3) [OF reach_ok [OF assms]] p(1)
    by (intro filter_key_unique) (simp_all add: log_ok_def provider_keys_def)
  with True show ?thesis by simp
next
  case False
  then have "filter (\<lambda>q. p_idempotency_key q = k) (mock_provider_log (system_db s)) = []"
    by (force simp: provider_keys_def filter_empty_conv)
  with False show ?thesis by simp
qed

lemma sent_in_log:
  assumes "reach (queue_init D) (queue_step D) s" "get_job (system_db s) i = Some j" "j_status j = SENT"
  shows "i \<in> set (provider_keys (system_db s))"
proof -
  have "i \<in> sent_ids (system_db s)" using assms(2,3) by (auto simp: get_job_def sent_ids_def dest!: first_SomeD)
  with system_okD(3) [OF reach_ok [OF assms(1)]] show ?thesis by (auto simp: log_ok_def)
qed

text \<open>
  C1: effectively-once delivery. In every reachable state, whatever workers crashed, lost their
  leases, or sent again, the provider has delivered each job at most once, has delivered every job
  that is \<open>sent\<close> exactly once, and only jobs that exist.
\<close>

theorem effectively_once:
  assumes "reach (queue_init D) (queue_step D) s"
  shows "length (filter (\<lambda>p. p_idempotency_key p = i) (mock_provider_log (system_db s))) \<le> 1 \<and>
     (get_job (system_db s) i = None \<longrightarrow> i \<notin> set (provider_keys (system_db s))) \<and>
     (\<forall>j. get_job (system_db s) i = Some j \<and> j_status j = SENT \<longrightarrow>
        length (filter (\<lambda>p. p_idempotency_key p = i) (mock_provider_log (system_db s))) = 1)"
proof -
  have "get_job (system_db s) i = None \<Longrightarrow> i \<notin> set (provider_keys (system_db s))"
    using system_okD(3) [OF reach_ok [OF assms]]
    by (auto simp: get_job_def log_ok_def job_ids_def filter_empty_conv dest!: subsetD)
  then show ?thesis using provider_count [OF assms] sent_in_log [OF assms] by auto
qed

section \<open>What every step refines\<close>

lemma rows_move_get_job:
  assumes move: "rows_move B s t" and d: "distinct (job_ids s)" "distinct (job_ids t)"
  shows "(\<exists>j. get_job s i = Some j \<and> (\<exists>j'. get_job t i = Some j' \<and> (j' = j \<or> moved j j'))) \<or>
     get_job s i = None \<and> (\<forall>j'. get_job t i = Some j' \<longrightarrow> j_status j' = PENDING \<and> j_version j' = 1)"
proof (cases "get_job s i")
  case (Some j)
  then have j: "j \<in> set (jobs s)" "j_id j = i" by (auto simp: get_job_def dest!: first_SomeD)
  have "\<exists>j'\<in>set (jobs t). j_id j' = i \<and> (j' = j \<or> moved j j')"
    using move
  proof (cases rule: rows_move_cases)
    case (moves p f)
    have "(if p j then f j else j) \<in> set (jobs t)" using j(1) unfolding moves(1) set_update_where by (rule imageI)
    moreover have "j_id (if p j then f j else j) = i" using moves(2) [OF j(1)] j(2) by (simp add: moved_def)
    ultimately show ?thesis using moves(2) [OF j(1)] by (intro bexI [of _ "if p j then f j else j"]) simp_all
  next
    case (adds k)
    with j show ?thesis by auto
  qed
  then show ?thesis using Some get_job_Some [OF d(2)] by blast
next
  case None
  have "j_status j' = PENDING \<and> j_version j' = 1" if "get_job t i = Some j'" for j'
  proof -
    from that have j': "j' \<in> set (jobs t)" "j_id j' = i" by (auto simp: get_job_def dest!: first_SomeD)
    from move show ?thesis
    proof (cases rule: rows_move_cases)
      case (moves p f)
      from j'(1) obtain j where j: "j \<in> set (jobs s)" "j' = (if p j then f j else j)"
        unfolding moves(1) set_update_where by (rule imageE)
      have "j_id j = i" using moves(2) [OF j(1)] j(2) j'(2) by (auto simp: moved_def split: if_splits)
      with get_job_Some [OF d(1) j(1)] None show ?thesis by simp
    next
      case (adds k)
      have "j' \<notin> set (jobs s)" using get_job_Some [OF d(1), of j'] None j'(2) by auto
      with adds j'(1) show ?thesis by simp
    qed
  qed
  with None show ?thesis by simp
qed

lemma step_moves_job:
  assumes r: "reach (queue_init D) (queue_step D) s" and step: "queue_step D s t"
  shows "(\<exists>j. get_job (system_db s) i = Some j \<and> (\<exists>j'. get_job (system_db t) i = Some j' \<and> (j' = j \<or> moved j j'))) \<or>
     get_job (system_db s) i = None \<and>
       (\<forall>j'. get_job (system_db t) i = Some j' \<longrightarrow> j_status j' = PENDING \<and> j_version j' = 1)"
proof -
  have sound: "step_sound D s t" by (rule queue_step_sound [OF step reach_ok [OF r]])
  show ?thesis
    by (rule rows_move_get_job [where B = UNIV])
      (use sound system_okD(2) [OF reach_ok [OF r]] in \<open>auto simp: step_sound_def system_ok_def dest: db_invD(1)\<close>)
qed

text \<open>
  C4: the system refines the life cycle of a job. Across any step of the system, looked at through one
  job id, either nothing changes, or the job makes one move of the abstract machine \<open>life\<close>, keeping
  its identity, recipient and payload and raising its version by one, or a new job appears, pending,
  with version one. No job ever disappears.
\<close>

theorem system_refines_life:
  assumes "reach (queue_init D) (queue_step D) s" "queue_step D s t"
  shows "case get_job (system_db s) i of
       None \<Rightarrow> (case get_job (system_db t) i of None \<Rightarrow> True | Some j' \<Rightarrow> j_status j' = PENDING \<and> j_version j' = 1)
     | Some j \<Rightarrow> (case get_job (system_db t) i of
           None \<Rightarrow> False
         | Some j' \<Rightarrow> j' = j \<or>
             life (j_status j) (j_status j') \<and> j_version j' = j_version j + 1 \<and> j_id j' = j_id j \<and>
             j_idempotency_key j' = j_idempotency_key j \<and> j_recipient j' = j_recipient j \<and> j_payload j' = j_payload j)"
  using step_moves_job [OF assms, of i] by (auto simp: moved_def split: option.split)

text \<open>
  C18: \<open>sent\<close> is final. Once a job is \<open>sent\<close> in a reachable state, its row is the same in every later
  state: it is never claimed, retried, dead-lettered or changed again, and its version never goes back.
\<close>

theorem sent_is_final:
  assumes r: "reach (queue_init D) (queue_step D) s" and run: "(queue_step D)\<^sup>*\<^sup>* s t"
    and j: "get_job (system_db s) i = Some j" "j_status j = SENT"
  shows "get_job (system_db t) i = Some j"
  using run
proof (induction rule: rtranclp_induct)
  case base
  with j show ?case by simp
next
  case (step t u)
  from step_moves_job [OF reach_run [OF step(1) r] step(2), of i] step.IH j(2) show ?case by (auto simp: moved_def)
qed

section \<open>No job is stuck\<close>

lemma all_expired_selected:
  assumes j: "j \<in> set (jobs s)" "lease_expired env j" "\<not> locked env (j_id j)"
    and room: "length (filter (\<lambda>k. j_status k = PROCESSING) (jobs s)) \<le> nat n"
  shows "\<exists>expired. select_expired env n s = Inr expired \<and> j \<in> set expired"
proof -
  let ?p = "\<lambda>k. lease_expired env k \<and> \<not> locked env (j_id k)"
  let ?all = "sort_key (\<lambda>k. coalesce (j_lease_expires_at k) 0) (sort_key (rank env \<circ> j_id) (filter ?p (jobs s)))"
  have fewer: "length (filter ?p js) \<le> length (filter (\<lambda>k. j_status k = PROCESSING) js)" for js
    by (induction js) (auto simp: lease_expired_def)
  have len: "length ?all \<le> nat n" using order_trans [OF fewer room] by simp
  have in_all: "j \<in> set ?all" using j by simp
  then have "?all \<noteq> []" by (auto simp del: set_sort)
  with len have "0 \<le> n" by (cases "0 \<le> n") auto
  with len in_all show ?thesis by (simp add: select_expired_def sql_select_def sql_limit_def)
qed

text \<open>Fresh identifiers always exist.\<close>

lemma ex_fresh_env: "\<exists>env. fresh_ids env s \<and> CHR ''|'' \<notin> set (gen_job_id env)"
proof -
  let ?X = "set (job_ids s) \<union> set (map o_id (webhook_outbox s))"
  define m where "m = Suc (Max (insert 0 (length ` ?X)))"
  have short: "length x < m" if "x \<in> ?X" for x
    using that by (simp add: m_def less_Suc_eq_le del: Un_iff)
  let ?long = "\<lambda>x. replicate m CHR ''a'' @ x"
  let ?env = "undefined\<lparr>gen_job_id := ?long [], gen_event := ?long\<rparr>"
  have new: "?long x \<notin> ?X" for x using short [of "?long x"] by auto
  have "fresh_ids ?env s \<and> CHR ''|'' \<notin> set (gen_job_id ?env)" using new new [of "[]"] by (auto simp: fresh_ids_def inj_def)
  then show ?thesis by blast
qed

text \<open>A pass of the reaper over a selection of expired rows.\<close>

lemma reaper_runs:
  fixes w :: "'r world"
  assumes inv: "db_inv {} (w_db w)" and fresh: "fresh_ids env (w_db w)"
    and expired: "select_expired env (reaper_batch_size c) (w_db w) = Inr expired"
  shows "\<exists>ts t. reaper_run_once c Commits env w = (Inr ts, w\<lparr>w_db := t\<rparr>) \<and> distinct (job_ids t) \<and>
     jobs t = update_where (\<lambda>k. j_id k \<in> set (map j_id expired)) (reaped_row env) (jobs (w_db w))"
proof -
  let ?url = "default_callback_url c"
  obtain t where t: "t = fold (reap_close env ?url) (reaped_pairs env expired (w_db w)) (reap_update env expired (w_db w))" by simp
  note reap = reap_expired_leases_eq [OF inv fresh expired, of ?url, folded t]
  obtain b where b: "reaper_block c env (w_db w) =
      Inr (map (job_transition \<circ> snd) (reaped_pairs env expired (w_db w)), t\<lparr>rate_limit_buckets := b\<rparr>)"
    by (simp add: reaper_block_def reap(1) delete_old_rate_limit_buckets_def Let_def)
  obtain ts where "reaper_run_once c Commits env w = (Inr ts, w\<lparr>w_db := t\<lparr>rate_limit_buckets := b\<rparr>\<rparr>)"
    using b by (simp add: reaper_run_once_def in_tx_def begin_tx_def)
  moreover have "jobs t = update_where (\<lambda>k. j_id k \<in> set (map j_id expired)) (reaped_row env) (jobs (w_db w))"
    by (simp add: t fold_reap_close(2) reap_update_def)
  moreover have "distinct (job_ids t)" using db_invD(1) [OF reap(2)] .
  ultimately show ?thesis by (intro exI [of _ ts] exI [of _ "t\<lparr>rate_limit_buckets := b\<rparr>"]) (simp add: job_ids_def)
qed

text \<open>
  No job is stuck. In any reachable state, a job whose worker crashed or hangs, so that its lease
  ran out, is taken back by the next reaper pass that has room for it: the pass commits, and
  the job is free again and due at once if it has attempts left, or else dead-lettered; the lost
  attempt still counts.
\<close>

theorem expired_job_is_recovered:
  assumes r: "reach (queue_init D) (queue_step D) s" and j: "get_job (system_db s) i = Some j"
    and late: "lease_expired env j" "\<not> locked env i"
    and room: "length (filter (\<lambda>k. j_status k = PROCESSING) (jobs (system_db s))) \<le> nat (reaper_batch_size (dp_settings D))"
    and fresh: "fresh_ids env (system_db s)"
  shows "\<exists>ts w r. reaper_run_once (dp_settings D) Commits env (sy_world s) = (Inr ts, w) \<and>
     (\<exists>ts'. queue_step D s (s\<lparr>sy_world := w, sy_tasks := sy_tasks s + mset ts'\<rparr>)) \<and> get_job (w_db w) i = Some r \<and>
     j_status r = (if j_attempts j < j_max_attempts j then PENDING else DEAD_LETTERED) \<and>
     j_claim_token r = None \<and> j_run_at r = now env \<and> j_attempts r = j_attempts j \<and> j_version r = j_version j + 1"
proof -
  let ?c = "dp_settings D" and ?db = "system_db s"
  have inv: "db_inv {} ?db" by (rule system_okD(2) [OF reach_ok [OF r]])
  have jin: "j \<in> set (jobs ?db)" "j_id j = i" using j by (auto simp: get_job_def dest!: first_SomeD)
  obtain expired where expired: "select_expired env (reaper_batch_size ?c) ?db = Inr expired" "j \<in> set expired"
    using all_expired_selected [OF jin(1) late(1) _ room] late(2) jin(2) by auto
  obtain ts t where run: "reaper_run_once ?c Commits env (sy_world s) = (Inr ts, (sy_world s)\<lparr>w_db := t\<rparr>)"
    and t: "distinct (job_ids t)" "jobs t = update_where (\<lambda>k. j_id k \<in> set (map j_id expired)) (reaped_row env) (jobs ?db)"
    using reaper_runs [of "sy_world s" env ?c expired] inv fresh expired(1) by (auto simp: system_db_def)
  let ?w = "(sy_world s)\<lparr>w_db := t\<rparr>"
  have "reaped_row env j \<in> set (jobs t)" using jin expired(2) by (force simp: t(2))
  then have "get_job (w_db ?w) i = Some (reaped_row env j)"
    using get_job_Some [of t "reaped_row env j"] t(1) jin(2) by (simp add: get_job_def)
  moreover have "exhausted False j = (\<not> j_attempts j < j_max_attempts j)" by (auto simp: exhausted_def)
  moreover have "j_claim_token (reaped_row env j) = None" "j_run_at (reaped_row env j) = now env"
    by (simp_all add: reaped_row_def)
  ultimately show ?thesis
    using run queue_step.reap_step [OF fresh run] by (intro exI [of _ ts] exI [of _ ?w] exI [of _ "reaped_row env j"]) (simp, blast)
qed

end
