(* ===== verification/Queue_Cache.thy ===== *)
theory Queue_Cache
  imports Queue_Properties
begin

text \<open>
  What a client of the running system is told. The cache is only a copy: in every reachable state an
  entry names a row under its own key, or is a tombstone, or is the view of a row as it is or as it
  was. The facts rest on what Redis may do by itself: lose entries, at any time, but not invent them.
\<close>

section \<open>Rows as they were\<close>

definition snapshot :: "job \<Rightarrow> job \<Rightarrow> bool" where
  "snapshot j' j \<longleftrightarrow>
     j_id j' = j_id j \<and> j_version j' \<le> j_version j \<and> (j_version j' = j_version j \<longrightarrow> j' = j) \<and>
     (j_status j' = SENT \<longrightarrow> j' = j)"

definition seen_row :: "db \<Rightarrow> job \<Rightarrow> bool" where
  "seen_row s j' \<longleftrightarrow> (\<exists>j\<in>set (jobs s). snapshot j' j)"

lemma seen_now: "j \<in> set (jobs s) \<Longrightarrow> seen_row s j"
  unfolding seen_row_def snapshot_def by (intro bexI [of _ j]) simp_all

lemma snapshot_moved:
  assumes "snapshot j' j" "moved j k"
  shows "snapshot j' k"
proof -
  have "\<not> life SENT (j_status k)" by blast
  then have "j_status j' \<noteq> SENT" using assms unfolding snapshot_def moved_def by metis
  with assms show ?thesis by (simp add: snapshot_def moved_def)
qed

lemma seen_row_moves:
  assumes "rows_move B s t" "seen_row s j'"
  shows "seen_row t j'"
proof -
  obtain j where j: "j \<in> set (jobs s)" "snapshot j' j" using assms(2) by (auto simp: seen_row_def)
  from assms(1) show ?thesis
  proof (cases rule: rows_move_cases)
    case (moves p f)
    have "(if p j then f j else j) \<in> set (jobs t)" using j(1) unfolding moves(1) set_update_where by (rule imageI)
    moreover have "snapshot j' (if p j then f j else j)"
      using j(2) moves(2) [OF j(1)] snapshot_moved by simp
    ultimately show ?thesis unfolding seen_row_def by (rule rev_bexI)
  next
    case (adds k)
    then show ?thesis using j by (auto simp: seen_row_def)
  qed
qed

lemma keyed_row_moves:
  assumes move: "rows_move B s t" and j: "j \<in> set (jobs s)"
  shows "\<exists>k\<in>set (jobs t). j_id k = j_id j \<and> j_idempotency_key k = j_idempotency_key j \<and> j_request_hash k = j_request_hash j"
  using move
proof (cases rule: rows_move_cases)
  case (moves p f)
  have "(if p j then f j else j) \<in> set (jobs t)" using j unfolding moves(1) set_update_where by (rule imageI)
  then show ?thesis using moves(2) [OF j] by (intro bexI [of _ "if p j then f j else j"]) (auto simp: moved_def)
next
  case (adds k)
  then show ?thesis using j by auto
qed

section \<open>True entries\<close>

definition true_entry :: "job_codec \<Rightarrow> settings \<Rightarrow> db \<Rightarrow> string \<Rightarrow> string \<Rightarrow> bool" where
  "true_entry K c s k t \<longleftrightarrow>
     (\<forall>key. k = idem_key c key \<longrightarrow> (\<exists>j\<in>set (jobs s). j_idempotency_key j = Some key \<and> t = j_id j @ ''|'' @ j_request_hash j)) \<and>
     (\<forall>i. k = job_key c i \<longrightarrow> after_bar t = [] \<or>
        (\<exists>j. seen_row s j \<and> j_id j = i \<and> t = show_int (j_version j) @ ''|'' @ jc_dump K (job_out_of j)))"

lemma true_entry_moves:
  assumes move: "rows_move B s t" and e: "true_entry K c s k x"
  shows "true_entry K c t k x"
  unfolding true_entry_def
proof (intro conjI allI impI)
  fix key assume "k = idem_key c key"
  with e obtain j where "j \<in> set (jobs s)" "j_idempotency_key j = Some key" "x = j_id j @ ''|'' @ j_request_hash j"
    by (auto simp: true_entry_def)
  with keyed_row_moves [OF move] show "\<exists>j\<in>set (jobs t). j_idempotency_key j = Some key \<and> x = j_id j @ ''|'' @ j_request_hash j"
    by metis
next
  fix i assume "k = job_key c i"
  with e seen_row_moves [OF move]
  show "after_bar x = [] \<or> (\<exists>j. seen_row t j \<and> j_id j = i \<and> x = show_int (j_version j) @ ''|'' @ jc_dump K (job_out_of j))"
    unfolding true_entry_def by metis
qed

lemma metrics_key_kinds [simp]:
  "metrics_key c \<noteq> job_key c i" "metrics_key c \<noteq> idem_key c k"
  "metrics_lock_key c \<noteq> job_key c i" "metrics_lock_key c \<noteq> idem_key c k"
  by (simp_all add: metrics_key_def metrics_lock_key_def job_key_def idem_key_def cache_key_def)

lemma true_entry_other [simp]:
  "true_entry K c s (rl_key c r) t" "true_entry K c s (metrics_key c) t" "true_entry K c s (metrics_lock_key c) t"
  by (simp_all add: true_entry_def)

lemma true_entry_tombstone [simp]: "true_entry K c s (job_key c i) (show_int v @ ''|'')"
  using entry_body_written [of v "[]"] by (simp add: true_entry_def del: append.simps)

lemma true_row_entries:
  assumes "redis_laws R"
  shows "row_entries R K c (true_entry K c)"
proof (rule row_entries.intro [OF assms row_entries_axioms.intro])
  fix j and s :: db assume "j \<in> set (jobs s)"
  then show "true_entry K c s (job_key c (j_id j)) (show_int (j_version j) @ ''|'' @ jc_dump K (job_out_of j))"
    using seen_now by (auto simp: true_entry_def)
next
  fix s s' :: db and k t assume e: "true_entry K c s k t" and sub: "set (jobs s) \<subseteq> set (jobs s')"
  have "seen_row s j \<Longrightarrow> seen_row s' j" for j using sub by (auto simp: seen_row_def)
  with e sub show "true_entry K c s' k t" unfolding true_entry_def by blast
qed (auto simp: true_entry_def)

section \<open>The steps keep the entries true\<close>

lemma metrics_get_keeps: "snd (metrics_get R M c e s) = s"
  by (simp add: metrics_get_def cache_call_def redis_get_def Let_def split_beta split: redis_fate.split)

context redis_laws
begin

lemma entries_set_nx:
  "entries R P n s \<Longrightarrow> n \<le> t \<Longrightarrow> P k v \<Longrightarrow> entries R P t (snd (redis_set_nx R t k v ttl s))"
  by (simp add: redis_set_nx_def entries_later entries_redis_set)

lemma entries_rebuild:
  assumes s: "entries R P n s" and n: "n \<le> re_now (sv_redis e 3)" and P: "\<And>t. P (metrics_key c) t"
  shows "entries R P (re_now (sv_redis e 3)) (snd (rebuild_metrics R M c e got computed s))"
proof -
  let ?E = "entries R P (re_now (sv_redis e 3))"
  note s' = entries_later [OF s n]
  have put: "?E (snd (cache_call en fate (redis_set R (re_now (sv_redis e 3)) (metrics_key c) v x) None s))" for en fate v x
    by (rule cache_call_keeps [where P = ?E]) (rule s' entries_redis_set [OF s n P])+
  have del: "?E (snd (cache_call en fate (\<lambda>s. (Reply (), rd_del R k s)) () s1))" if "?E s1" for en fate k s1
    by (rule cache_call_keeps [where P = ?E]) (simp_all add: that entries_del)
  show ?thesis using s' put del by (simp add: rebuild_metrics_def Let_def split: sum.split)
qed

lemma entries_metrics_writes:
  assumes s: "entries R P n s" and n: "n \<le> re_now e" and P: "\<And>t. P (metrics_key c) t" "\<And>t. P (metrics_lock_key c) t"
  shows "entries R P (re_now e) (snd (take_metrics_lock R c e s))" "entries R P (re_now e) (put_metrics R c e t s)"
    "entries R P (re_now e) (drop_metrics_lock R c e s)"
  unfolding take_metrics_lock_def put_metrics_def drop_metrics_lock_def
  by (rule cache_call_keeps [where P = "entries R P (re_now e)"];
      simp add: entries_later [OF s n] entries_set_nx [OF s n P(2)] entries_redis_set [OF s n P(1)] entries_del)+

lemma entries_get_or_compute:
  assumes s: "entries R P n s" and clock: "redis_clock n (sv_redis e) n'"
    and P: "\<And>t. P (metrics_key c) t" "\<And>t. P (metrics_lock_key c) t"
  shows "entries R P n' (snd (get_or_compute R M c e computed s))"
proof -
  have t: "n \<le> re_now (sv_redis e k)" "re_now (sv_redis e k) \<le> n'" for k
    using clock monoD [of "\<lambda>k. re_now (sv_redis e k)" 0 k] by (auto simp: redis_clock_def intro: order_trans)
  have le: "re_now (sv_redis e 1) \<le> re_now (sv_redis e 3)"
    using clock monoD [of "\<lambda>k. re_now (sv_redis e k)" 1 3] by (simp add: redis_clock_def)
  let ?lock = "cache_call (cache_enabled c) (re_fate (sv_redis e 1))
      (redis_set_nx R (re_now (sv_redis e 1)) (metrics_lock_key c) ''1'' lock_ttl_seconds) None s"
  have lock: "entries R P (re_now (sv_redis e 1)) (snd ?lock)"
    by (rule cache_call_keeps [where P = "entries R P (re_now (sv_redis e 1))"])
      (rule entries_later [OF s t(1)] entries_set_nx [OF s t(1) P(2)])+
  have rebuild: "entries R P n' (snd (rebuild_metrics R M c e got computed (snd ?lock)))" for got
    by (rule entries_later [OF entries_rebuild [OF lock le P(1)] t(2)])
  have stop: "entries R P n' s" "entries R P n' (snd ?lock)"
    by (rule entries_later [OF s], use t in \<open>meson order_trans\<close>) (rule entries_later [OF lock t(2)])
  obtain r0 where r0: "metrics_get R M c (sv_redis e 0) s = (r0, s)" using metrics_get_keeps by (metis prod.collapse)
  obtain l s2 where l: "?lock = (l, s2)" by (cases ?lock)
  obtain r2 where r2: "metrics_get R M c (sv_redis e 2) s2 = (r2, s2)" using metrics_get_keeps by (metis prod.collapse)
  show ?thesis
    using stop rebuild unfolding get_or_compute_def r0 l prod.case Let_def r2 snd_conv
    by (auto split: sum.split option.split)
qed

end

text \<open>What each step does to Redis.\<close>

lemma in_tx_redis: "in_tx fate block w = (r, w') \<Longrightarrow> w_redis w' = w_redis w"
  using in_tx_simps(3) [of fate block w] by simp

lemma deliver_step_redis:
  "w_redis (snd (deliver_step c L send lib e f w)) \<in>
     {w_redis w, w_redis (snd (rl_acquire L (we_limit e) (fl_job f) w)), w_redis (rl_release L (we_limit e) (fl_job f) w)}"
  by (cases "fl_phase f")
    (auto simp: deliver_step_def acquire_phase_def return_phase_def send_phase_def finalize_phase_def release_phase_def
      Let_def split_beta in_tx_redis dest: in_tx_redis
      split: sum.splits option.splits prod.splits after_release.splits)

lemma requeue_route_redis:
  "w_redis (snd (requeue_route R pu c e job_id extra w)) = w_redis w \<or>
     (\<exists>i v. w_redis (snd (requeue_route R pu c e job_id extra w)) = cache_invalidate_job R c (sv_redis e 0) i v (w_redis w))"
  by (auto simp: requeue_route_def dead_letters_requeue_def dest!: in_tx_redis
      split: option.split prod.split sum.split exn.split) blast

lemma world_redis:
  "receive_webhook pu c e u payload w = (r1, w1) \<Longrightarrow> w_redis w1 = w_redis w"
  "claim_batch c worker loop_id clock fate env w = (r2, w2) \<Longrightarrow> w_redis w2 = w_redis w"
  "reaper_run_once c fate env w = (r3, w3) \<Longrightarrow> w_redis w3 = w_redis w"
  by (auto simp: receive_webhook_def claim_batch_def reaper_run_once_def dest: in_tx_redis
      split: if_splits prod.splits sum.splits)

lemma redis_clockD:
  assumes "redis_clock n es n'"
  shows "n \<le> re_now (es k)" "re_now (es k) \<le> n'" "n \<le> n'" "mono (\<lambda>k. re_now (es k))" "n \<le> re_now (es 0)"
  using assms monoD [of "\<lambda>k. re_now (es k)" 0 k] unfolding redis_clock_def by (auto intro: order_trans)

context row_entries
begin

lemma cached_schedule_job:
  assumes w: "cached R P n w" and clock: "redis_clock n (sv_redis e) n'"
  shows "cached R P n' (snd (schedule_job R K digest pu url c e header body w))"
proof -
  note t = redis_clockD [OF clock]
  have "cached R P n' (snd (schedule R K digest pu c e q w))" for q
    by (rule cached_later [OF cached_schedule [OF w t(5,4)] t(2)])
  moreover have "cached R P n' w" by (rule cached_later [OF w t(3)])
  ultimately show ?thesis
    by (auto simp: schedule_job_def Let_def split_beta split: sum.split option.split)
qed

lemma cached_get_job_route:
  assumes w: "cached R P n w" and clock: "redis_clock n (sv_redis e) n'"
  shows "cached R P n' (snd (get_job_route R K pu c e job_id inc w))"
proof -
  note t = redis_clockD [OF clock]
  have "cached R P n' (snd (service_get R K c e 0 i inc w))" for i
    by (rule cached_later [OF cached_service_get [OF w t(1)] t(2)])
  moreover have "cached R P n' w" by (rule cached_later [OF w t(3)])
  ultimately show ?thesis
    by (auto simp: get_job_route_def split: option.split prod.split sum.split) (metis snd_conv)+
qed

end

section \<open>Every reachable state\<close>

definition cache_true :: "'r deployment \<Rightarrow> 'r system \<Rightarrow> bool" where
  "cache_true D s \<longleftrightarrow>
     cached (dp_redis D) (true_entry (dp_codec D) (dp_settings D)) (sy_now s) (sy_world s) \<and>
     (\<forall>j\<in>set (sy_readers s). seen_row (system_db s) j)"

text \<open>A deployment whose Redis obeys the laws, and by itself can only lose entries.\<close>

definition honest_redis :: "'r deployment \<Rightarrow> bool" where
  "honest_redis D \<longleftrightarrow> redis_laws (dp_redis D) \<and> (\<forall>x x'. dp_fault D x x' \<longrightarrow> forgets (dp_redis D) x x')"

lemma cached_moves:
  "cached R (true_entry K c) n w \<Longrightarrow> rows_move B (w_db w) (w_db w') \<Longrightarrow> w_redis w' = w_redis w \<Longrightarrow>
     cached R (true_entry K c) n w'"
  unfolding cached_def by (auto intro: entries_mono true_entry_moves)

text \<open>Steps that leave Redis alone, and steps that only change it.\<close>

lemma cache_true_same:
  assumes "cache_true D s" "rows_move B (system_db s) (system_db t)" "w_redis (sy_world t) = w_redis (sy_world s)"
    "sy_now t = sy_now s" "sy_readers t = sy_readers s"
  shows "cache_true D t"
  using assms seen_row_moves [OF assms(2)] cached_moves [of "dp_redis D" "dp_codec D" "dp_settings D" "sy_now s" "sy_world s" B "sy_world t"]
  by (simp add: cache_true_def system_db_def)

lemma cache_true_redis:
  assumes "cache_true D s" "rows_move B (system_db s) (system_db t)" "sy_readers t = sy_readers s"
    "cached (dp_redis D) (true_entry (dp_codec D) (dp_settings D)) (sy_now t) (sy_world t)"
  shows "cache_true D t"
  using assms seen_row_moves [OF assms(2)] by (simp add: cache_true_def)

lemma cache_true_step:
  assumes honest: "honest_redis D" and step: "queue_step D s t" and ok: "system_ok D s" and co: "cache_true D s"
  shows "cache_true D t"
proof -
  let ?R = "dp_redis D" and ?c = "dp_settings D"
  let ?P = "true_entry (dp_codec D) ?c"
  have laws: "redis_laws ?R" using honest by (simp add: honest_redis_def)
  note rows = true_row_entries [OF laws, of "dp_codec D" ?c]
  have move: "rows_move UNIV (system_db s) (system_db t)"
    using queue_step_sound [OF step ok] by (simp add: step_sound_def)
  have start: "cached ?R ?P (sy_now s) (sy_world s)" using co by (simp add: cache_true_def)
  have now: "entries ?R (?P (system_db t)) (sy_now s) (w_redis (sy_world s))"
    using start true_entry_moves [OF move] by (auto simp: cached_def system_db_def [of s] intro: entries_mono)
  note same = cache_true_same [OF co move] and changed = cache_true_redis [OF co move]
  from step show ?thesis
  proof cases
    case (schedule_step e n header body r w)
    have "cached ?R ?P n (snd (schedule_job ?R (dp_codec D) (dp_digest D) (dp_parse_uuid D) (dp_parse_url D) ?c e header body
        (sy_world s)))"
      by (rule row_entries.cached_schedule_job [OF rows start schedule_step(3)])
    then show ?thesis by (intro changed) (simp_all add: schedule_step)
  next
    case (get_step e n job_id inc r w)
    have "cached ?R ?P n (snd (get_job_route ?R (dp_codec D) (dp_parse_uuid D) ?c e job_id inc (sy_world s)))"
      by (rule row_entries.cached_get_job_route [OF rows start get_step(2)])
    then show ?thesis by (intro changed) (simp_all add: get_step)
  next
    case (metrics_step e n r w)
    have "w = snd (on_redis (get_or_compute ?R (dp_metrics_codec D) ?c e (compute_metrics e (sy_world s))) (sy_world s))"
      using metrics_step(3) by (auto simp: metrics_route_def metrics_snapshot_def split: prod.splits sum.splits)
    then show ?thesis
      using redis_laws.entries_get_or_compute [OF laws start [unfolded cached_def] metrics_step(2)]
      by (intro changed) (simp_all add: metrics_step(1) cached_def)
  next
    case (requeue_step e n job_id extra r' w)
    note t = redis_clockD [OF requeue_step(2)]
    have "w_redis w = w_redis (sy_world s) \<or>
        (\<exists>i v. w_redis w = cache_invalidate_job ?R ?c (sv_redis e 0) i v (w_redis (sy_world s)))"
      using requeue_route_redis [of ?R "dp_parse_uuid D" ?c e job_id extra "sy_world s"] requeue_step(3) by simp
    then have "entries ?R (?P (system_db t)) n (w_redis w)"
      using entries_later [OF now t(3)] entries_later [OF redis_laws.entries_invalidate [OF laws now t(1)] t(2)] by auto
    then show ?thesis by (intro changed) (simp_all add: requeue_step(1) cached_def)
  next
    case (receive_step e u payload r' w)
    from world_redis(1) [OF receive_step(2)] show ?thesis by (intro same) (simp_all add: receive_step(1))
  next
    case (read_step i j)
    then have "seen_row (system_db s) j" by (auto simp: get_job_def intro: seen_now dest!: first_SomeD)
    with co show ?thesis by (simp add: cache_true_def read_step(1))
  next
    case (put_step j re b w)
    have "seen_row (system_db s) j" using co put_step(2) by (simp add: cache_true_def)
    then have "?P (w_db (sy_world s)) (job_key ?c (jo_id (job_out_of j)))
        (show_int (jo_version (job_out_of j)) @ ''|'' @ jc_dump (dp_codec D) ((job_out_of j)\<lparr>jo_attempt_history := None\<rparr>))"
      by (auto simp: true_entry_def system_db_def)
    from redis_laws.entries_put_job [OF laws start [unfolded cached_def] put_step(3) this] put_step(4)
    show ?thesis by (intro changed) (auto simp: put_step(1) cached_def on_redis_def split: prod.splits)
  next
    case (put_key_step j k re x)
    have "?P (system_db t) (idem_key ?c k) (j_id j @ ''|'' @ j_request_hash j)"
      using put_key_step(1-3) by (auto simp: true_entry_def system_db_def)
    from redis_laws.entries_put_idempotency [OF laws now put_key_step(4) this]
    show ?thesis by (intro changed) (simp_all add: put_key_step(1,5) cached_def system_db_def)
  next
    case (late_drop_step j v re x)
    have "entries ?R (?P (system_db t)) (re_now re) x"
      unfolding late_drop_step(5) by (rule redis_laws.entries_invalidate [OF laws now late_drop_step(4)]) simp
    then show ?thesis by (intro changed) (simp_all add: late_drop_step(1) cached_def system_db_def)
  next
    case (metrics_key_step re x u)
    have "entries ?R (?P (system_db t)) (re_now re) x"
      using metrics_key_step(3) redis_laws.entries_metrics_writes [OF laws now metrics_key_step(2), of ?c] by auto
    then show ?thesis by (intro changed) (simp_all add: metrics_key_step(1) cached_def system_db_def)
  next
    case (claim_step worker loop_id clock fate env fs w)
    from world_redis(2) [OF claim_step(2)] show ?thesis by (intro same) (simp_all add: claim_step(1))
  next
    case (flight_step f we f' w)
    let ?n = "re_now (le_redis (we_limit we))"
    have "w_redis w \<in> {w_redis (sy_world s), w_redis (snd (rl_acquire (build_rate_limiter ?R ?c) (we_limit we) (fl_job f) (sy_world s))),
        w_redis (rl_release (build_rate_limiter ?R ?c) (we_limit we) (fl_job f) (sy_world s))}"
      using deliver_step_redis [of ?c "build_rate_limiter ?R ?c" "mock_send (failure_rate ?c)" "dp_exn_text D" we f "sy_world s"]
        flight_step(5) by (simp add: worker_step_def)
    then have "entries ?R (?P (system_db t)) ?n (w_redis w)"
      using entries_later [OF now flight_step(4)] redis_laws.entries_acquire [OF laws now flight_step(4)]
        redis_laws.entries_release [OF laws now flight_step(4)] by auto
    then show ?thesis by (intro changed) (simp_all add: flight_step(1) cached_def)
  next
    case (task_step task re x)
    obtain i v where task: "task = (i, v)" by (cases task)
    have "entries ?R (?P (system_db t)) (re_now re) x"
      unfolding task_step(4) run_task_def task prod.case
      by (rule redis_laws.entries_invalidate [OF laws now task_step(3)]) simp
    then show ?thesis by (intro changed) (simp_all add: task_step(1) cached_def system_db_def)
  next
    case (reap_step env fate ts w)
    from world_redis(3) [OF reap_step(3)] show ?thesis by (intro same) (simp_all add: reap_step(1))
  next
    case (redis_step x)
    have "entries ?R (?P (system_db t)) (sy_now s) x"
      using entries_forgets [OF now] honest redis_step(2) by (simp add: honest_redis_def)
    then show ?thesis by (intro changed) (simp_all add: redis_step(1) cached_def system_db_def)
  qed (rule same; simp)+
qed

lemma reach_cache_true:
  assumes "honest_redis D" "reach (queue_init D) (queue_step D) s"
  shows "cache_true D s"
  using assms(2)
proof (induction rule: reach.induct)
  case (reach_init s)
  then show ?case by (simp add: queue_init_def cache_true_def cached_def entries_def)
next
  case (reach_step s t)
  then show ?case using cache_true_step [OF assms(1) _ reach_ok] by blast
qed

section \<open>What a client is told\<close>

text \<open>The codec keeps what the client decides on: id, version and status.\<close>

definition codec_keeps_head :: "job_codec \<Rightarrow> bool" where
  "codec_keeps_head K \<longleftrightarrow> (\<forall>j. \<exists>out. jc_load K (jc_dump K j) = Inr out \<and> jo_id out = jo_id j \<and>
     jo_version out = jo_version j \<and> jo_status out = jo_status j)"

lemma head_id: "codec_keeps_head K \<Longrightarrow> codec_keeps_id K"
  unfolding codec_keeps_head_def codec_keeps_id_def by blast

definition true_view :: "db \<Rightarrow> uuid \<Rightarrow> job_out \<Rightarrow> bool" where
  "true_view s i out \<longleftrightarrow>
     jo_id out = i \<and> (\<exists>j. seen_row s j \<and> j_id j = i \<and> jo_version out = j_version j \<and> jo_status out = j_status j)"

lemma cached_read:
  assumes w: "cached R (true_entry K c) n w" and n: "n \<le> re_now e" and K: "codec_keeps_head K"
  shows "fst (cache_get_job R K c e i (w_redis w)) = Inr None \<or>
     (\<exists>out. fst (cache_get_job R K c e i (w_redis w)) = Inr (Some out) \<and> true_view (w_db w) i out)"
proof -
  have parse: "parse_entry K (Some t) = Inr None \<or> (\<exists>out. parse_entry K (Some t) = Inr (Some out) \<and> true_view (w_db w) i out)"
    if t: "rd_get R (re_now e) (job_key c i) (w_redis w) = Some t" for t
  proof -
    have "true_entry K c (w_db w) (job_key c i) t" using entriesD [OF w [unfolded cached_def] n t] .
    then consider "after_bar t = []" | j where "seen_row (w_db w) j" "j_id j = i"
        "t = show_int (j_version j) @ ''|'' @ jc_dump K (job_out_of j)"
      by (auto simp: true_entry_def)
    then show ?thesis
    proof cases
      case (2 j)
      obtain out where "jc_load K (jc_dump K (job_out_of j)) = Inr out" "jo_id out = j_id j"
        "jo_version out = j_version j" "jo_status out = j_status j"
        using K unfolding codec_keeps_head_def by (metis job_out_of_head)
      with 2(1,2) have "jc_load K (after_bar t) = Inr out" "true_view (w_db w) i out"
        unfolding 2(3) entry_body_written by (auto simp: true_view_def)
      then show ?thesis by (simp add: parse_entry_def)
    qed (simp add: parse_entry_def)
  qed
  have none: "parse_entry K None = Inr None" by (simp add: parse_entry_def)
  have "fst (cache_get_job R K c e i (w_redis w)) \<in>
      {parse_entry K None, parse_entry K (rd_get R (re_now e) (job_key c i) (w_redis w))}"
    by (simp add: cache_get_job_def cache_call_def redis_get_def Let_def split_beta split: redis_fate.split)
  with parse none show ?thesis by (cases "rd_get R (re_now e) (job_key c i) (w_redis w)") auto
qed

lemma service_get_true:
  assumes w: "cached R (true_entry K c) n w" and n: "n \<le> re_now (sv_redis e b)" and K: "codec_keeps_head K"
  shows "case fst (service_get R K c e b i inc w) of
       Inl x \<Rightarrow> x = OperationalError \<and> \<not> sv_read_ok e
     | Inr None \<Rightarrow> get_job (w_db w) i = None
     | Inr (Some out) \<Rightarrow> true_view (w_db w) i out"
proof -
  have row: "true_view (w_db w) i (job_out_of j)" "true_view (w_db w) i ((job_out_of j)\<lparr>jo_attempt_history := h\<rparr>)"
    if "get_job (w_db w) i = Some j" for j h
  proof -
    from that have j: "j \<in> set (jobs (w_db w))" "j_id j = i" by (auto simp: get_job_def dest!: first_SomeD)
    show "true_view (w_db w) i (job_out_of j)" "true_view (w_db w) i ((job_out_of j)\<lparr>jo_attempt_history := h\<rparr>)"
      unfolding true_view_def using j seen_now by (intro conjI exI [of _ j]; simp)+
  qed
  let ?read = "if inc then (Inr None, w) else on_redis (cache_get_job R K c (sv_redis e b) i) w"
  have "snd ?read = w" by (simp add: on_redis_def split_beta)
  then obtain r where g: "?read = (r, w)" by (metis prod.collapse)
  have "r = Inr None \<or> (\<exists>out. r = Inr (Some out) \<and> true_view (w_db w) i out)"
    using cached_read [OF w n K, of i] g by (auto split: if_splits simp: on_redis_def split_beta)
  then show ?thesis
    unfolding service_get_def g using row by (auto split: option.split)
qed

lemma true_view_row:
  assumes inv: "db_inv {} s" and v: "true_view s i out"
  shows "\<exists>j. get_job s i = Some j \<and> jo_id out = i \<and> jo_version out \<le> j_version j \<and>
     (jo_version out = j_version j \<longrightarrow> jo_status out = j_status j) \<and> (jo_status out = SENT \<longrightarrow> j_status j = SENT)"
proof -
  obtain k j where k: "snapshot k j" "j \<in> set (jobs s)" "j_id k = i" "jo_version out = j_version k" "jo_status out = j_status k"
    using v by (auto simp: true_view_def seen_row_def)
  have "get_job s i = Some j" using get_job_Some [OF db_invD(1) [OF inv] k(2)] k(1,3) by (simp add: snapshot_def)
  moreover have "jo_id out = i" using v by (simp add: true_view_def)
  ultimately show ?thesis using k unfolding snapshot_def by metis
qed

text \<open>
  C7: what a client reads is true. In any reachable state, with Redis losing entries and failing in
  any way, \<open>GET /v1/jobs/{id}\<close> answers \<open>200\<close> with a job that exists, in its present version or an older
  one, never a newer one, and with its present status if the version is the present one; it says \<open>sent\<close> only if the job is \<open>sent\<close> and
  the provider has delivered it exactly once. It answers \<open>404\<close> only if no such job exists, and fails
  only when the database does.
\<close>

theorem answers_are_true:
  assumes honest: "honest_redis D" and K: "codec_keeps_head (dp_codec D)"
    and r: "reach (queue_init D) (queue_step D) s" and clock: "redis_clock (sy_now s) (sv_redis e) n"
  shows "case fst (get_job_route (dp_redis D) (dp_codec D) (dp_parse_uuid D) (dp_settings D) e job_id inc (sy_world s)) of
       Answer code out \<Rightarrow> code = 200 \<and> dp_parse_uuid D job_id = Some (jo_id out) \<and>
         (\<exists>j. get_job (system_db s) (jo_id out) = Some j \<and> jo_version out \<le> j_version j \<and>
            (jo_version out = j_version j \<longrightarrow> jo_status out = j_status j) \<and>
            (jo_status out = SENT \<longrightarrow> j_status j = SENT \<and>
               length (filter (\<lambda>p. p_idempotency_key p = jo_id out) (mock_provider_log (system_db s))) = 1))
     | Rejected code m \<Rightarrow>
         (case dp_parse_uuid D job_id of None \<Rightarrow> code = 422 | Some i \<Rightarrow> code = 404 \<and> get_job (system_db s) i = None)
     | ServerError x \<Rightarrow> x = OperationalError \<and> \<not> sv_read_ok e"
proof (cases "dp_parse_uuid D job_id")
  case None
  then show ?thesis by (simp add: get_job_route_def validation_error_def)
next
  case (Some i)
  let ?get = "service_get (dp_redis D) (dp_codec D) (dp_settings D) e 0 i inc (sy_world s)"
  have w: "cached (dp_redis D) (true_entry (dp_codec D) (dp_settings D)) (sy_now s) (sy_world s)"
    using reach_cache_true [OF honest r] by (simp add: cache_true_def)
  have inv: "db_inv {} (w_db (sy_world s))" using system_okD(2) [OF reach_ok [OF r]] by (simp add: system_db_def)
  obtain x w' where g: "?get = (x, w')" by (cases ?get)
  note told = service_get_true [OF w redis_clockD(1) [OF clock] K, where b = 0 and inc = inc and i = i, unfolded g fst_conv]
  show ?thesis
  proof (cases x)
    case (Inl y)
    with told show ?thesis by (simp add: get_job_route_def Some g)
  next
    case (Inr o')
    show ?thesis
    proof (cases o')
      case None
      with told Inr show ?thesis by (simp add: get_job_route_def Some g system_db_def)
    next
      case (Some out)
      with told Inr have "true_view (w_db (sy_world s)) i out" by simp
      from true_view_row [OF inv this] sent_in_log [OF r, of i] provider_count [OF r, of i]
      show ?thesis using \<open>dp_parse_uuid D job_id = Some i\<close> Inr Some by (auto simp: get_job_route_def g system_db_def)
    qed
  qed
qed

lemma reach_coherent:
  assumes "honest_redis D" "codec_keeps_head (dp_codec D)" "reach (queue_init D) (queue_step D) s"
  shows "coherent (dp_redis D) (dp_codec D) (dp_settings D) (sy_now s) (sy_world s)"
proof -
  have "coherent_entry (dp_codec D) c db k t" if e: "true_entry (dp_codec D) c db k t" for c db k t
  proof -
    have "after_bar t = [] \<or> (\<exists>out. jc_load (dp_codec D) (after_bar t) = Inr out \<and> jo_id out = i)" if "k = job_key c i" for i
    proof -
      have "after_bar t = [] \<or> (\<exists>j. j_id j = i \<and> t = show_int (j_version j) @ ''|'' @ jc_dump (dp_codec D) (job_out_of j))"
        using e that unfolding true_entry_def by blast
      moreover have "\<exists>out. jc_load (dp_codec D) (jc_dump (dp_codec D) (job_out_of j)) = Inr out \<and> jo_id out = j_id j" for j
        using assms(2) unfolding codec_keeps_head_def by (metis job_out_of_head(1))
      ultimately show ?thesis by (metis entry_body_written)
    qed
    with e show ?thesis by (simp add: coherent_entry_def true_entry_def)
  qed
  with reach_cache_true [OF assms(1,3)] show ?thesis
    unfolding cache_true_def cached_def coherent_entries by (blast intro: entries_mono)
qed

text \<open>A validated request allows at least one attempt.\<close>

lemma request_attempts:
  assumes "parse_request parse_url body = Inr q" "merge_key header q = Some q'" "1 \<le> cfg_max_attempts c"
  shows "1 \<le> n_max_attempts (schedule_new_job c h q')"
proof -
  have "opt_all (\<lambda>n. 1 \<le> n \<and> n \<le> 20) (q_max_attempts q')"
    using parse_request_attempts [OF assms(1)] assms(2) by (auto simp: merge_key_def split: option.splits if_splits)
  with assms(3) show ?thesis by (auto simp: schedule_new_job_def opt_all_def split: option.splits)
qed

text \<open>
  C27: a retry is safe, everywhere. In any reachable state, with any Redis failures, a request whose
  idempotency key names an existing job changes no table and creates nothing: it is answered \<open>200\<close>
  with that very job if the request is the same, \<open>409\<close> if its fingerprint differs, and fails only
  when the database does; which of the two is the database's decision, not the cache's.
\<close>

theorem retry_is_safe:
  assumes honest: "honest_redis D" and K: "codec_keeps_head (dp_codec D)"
    and r: "reach (queue_init D) (queue_step D) s" and clock: "redis_clock (sy_now s) (sv_redis e) n"
    and ids: "ids_parse (dp_parse_uuid D) (system_db s)" and fresh: "fresh_ids (sv_env e) (system_db s)"
    and j: "j \<in> set (jobs (system_db s))" "j_idempotency_key j = Some k"
    and body: "parse_request (dp_parse_url D) body = Inr q" "opt_all (length_in 0 255) header"
    and q: "merge_key header q = Some q'" "q_idempotency_key q' = Some k"
    and now: "\<And>t. q_send_at q' = Some t \<Longrightarrow> sv_clock e - send_at_grace \<le> t"
  shows "w_db (snd (schedule_job (dp_redis D) (dp_codec D) (dp_digest D) (dp_parse_uuid D) (dp_parse_url D) (dp_settings D) e
       header body (sy_world s))) = system_db s \<and>
    (case fst (schedule_job (dp_redis D) (dp_codec D) (dp_digest D) (dp_parse_uuid D) (dp_parse_url D) (dp_settings D) e
       header body (sy_world s)) of
       Answer code out \<Rightarrow> code = 200 \<and> jo_id out = j_id j \<and> request_hash (dp_digest D) q' = j_request_hash j
     | Rejected code m \<Rightarrow> code = 409 \<and> request_hash (dp_digest D) q' \<noteq> j_request_hash j
     | ServerError x \<Rightarrow> x = OperationalError \<and> db_fails e)"
proof -
  let ?s = "schedule (dp_redis D) (dp_codec D) (dp_digest D) (dp_parse_uuid D) (dp_settings D) e q' (sy_world s)"
  have inv: "db_inv {} (w_db (sy_world s))" using system_okD(2) [OF reach_ok [OF r]] by (simp add: system_db_def)
  note attempts = request_attempts [OF body(1) q(1) system_okD(1) [OF reach_ok [OF r]]]
  have new: "gen_job_id (sv_env e) \<notin> set (job_ids (w_db (sy_world s)))"
    using fresh by (simp add: fresh_ids_def system_db_def)
  have "w_db (snd ?s) = w_db (sy_world s) \<and> (fst ?s = Inl OperationalError \<and> db_fails e \<or>
      (if j_request_hash j = request_hash (dp_digest D) q' then \<exists>out. fst ?s = Inr (out, False) \<and> jo_id out = j_id j
       else fst ?s = Inl (IdempotencyConflict (j_id j))))"
    by (rule schedule_replay [OF inv reach_coherent [OF honest K r] redis_clockD(1) [OF clock] ids [unfolded system_db_def]
          j [unfolded system_db_def] q(2) attempts new now refl])
  then show ?thesis
    using body q(1) by (auto simp: schedule_job_def Let_def split_beta schedule_reply_def system_db_def split: if_splits)
qed

end
