(* ===== verification/Post_Refinement.thy ===== *)
theory Post_Refinement
  imports Queue_Cache
begin

text \<open>
  What \<open>POST /v1/jobs\<close> promises, as an abstract machine: a map from idempotency keys to fingerprints,
  and one rule. The route over database and cache implements it in every reachable state.
\<close>

section \<open>The abstract machine\<close>

type_synonym key_map = "string \<rightharpoonup> string"

text \<open>A new key is \<open>201\<close> and remembered, a known one is \<open>200\<close>, or \<open>409\<close> if the fingerprint differs.\<close>

definition post_spec :: "key_map \<Rightarrow> string option \<Rightarrow> string \<Rightarrow> int \<times> key_map" where
  "post_spec M key h =
     (case key of
        None \<Rightarrow> (201, M)
      | Some k \<Rightarrow> (case M k of None \<Rightarrow> (201, M(k \<mapsto> h)) | Some h' \<Rightarrow> if h' = h then (200, M) else (409, M)))"

text \<open>The map that the jobs table is, and the status code of a reply.\<close>

definition known_keys :: "db \<Rightarrow> key_map" where
  "known_keys s k = map_option j_request_hash (get_job_by_idempotency_key s (Some k))"

fun status_of :: "'a reply \<Rightarrow> int" where
  "status_of (Answer code x) = code"
| "status_of (Rejected code m) = code"
| "status_of (ServerError x) = 500"

section \<open>Refinement\<close>

lemma known_keys_row:
  assumes "db_inv {} s" "j \<in> set (jobs s)" "j_idempotency_key j = Some k"
  shows "known_keys s k = Some (j_request_hash j)"
proof -
  let ?rows = "filter (\<lambda>j. j_idempotency_key j = Some k) (jobs s)"
  have "j \<in> set ?rows" using assms by simp
  then obtain j' where j': "first ?rows = Some j'" by (cases ?rows) auto
  then have "j' = j" using idempotency_key_unique [OF db_invD(2) [OF assms(1)]] assms(2,3) by (auto dest!: first_SomeD)
  with j' show ?thesis by (simp add: known_keys_def get_job_by_idempotency_key_def)
qed

lemma known_keys_None [simp]: "known_keys s k = None \<longleftrightarrow> Some k \<notin> set (map j_idempotency_key (jobs s))"
  by (auto simp: known_keys_def get_job_by_idempotency_key_def filter_empty_conv image_iff)

lemma known_keys_new: "Some k \<notin> j_idempotency_key ` set (jobs s) \<Longrightarrow> known_keys s k = None"
  by simp

lemma known_keys_append:
  assumes "case j_idempotency_key r of None \<Rightarrow> True | Some k \<Rightarrow> known_keys s k = None"
  shows "known_keys (s\<lparr>jobs := jobs s @ [r]\<rparr>) =
     (case j_idempotency_key r of None \<Rightarrow> known_keys s | Some k \<Rightarrow> (known_keys s)(k \<mapsto> j_request_hash r))"
proof
  fix k
  show "known_keys (s\<lparr>jobs := jobs s @ [r]\<rparr>) k =
     (case j_idempotency_key r of None \<Rightarrow> known_keys s | Some k \<Rightarrow> (known_keys s)(k \<mapsto> j_request_hash r)) k"
    using assms
    by (cases "filter (\<lambda>j. j_idempotency_key j = Some k) (jobs s)")
      (auto simp: known_keys_def get_job_by_idempotency_key_def split: option.splits)
qed

text \<open>
  The request that a post hands to the service: body and header pass validation, their keys agree, and
  \<open>send_at\<close> is not past.
\<close>

definition too_late :: "time \<Rightarrow> schedule_request \<Rightarrow> bool" where
  "too_late clock q \<longleftrightarrow> (case q_send_at q of None \<Rightarrow> False | Some t \<Rightarrow> t < clock - send_at_grace)"

definition accepted ::
  "(string \<Rightarrow> string option) \<Rightarrow> time \<Rightarrow> string option \<Rightarrow> raw_request \<Rightarrow> schedule_request option"
where
  "accepted parse_url clock header body =
     (case parse_request parse_url body of
        Inl x \<Rightarrow> None
      | Inr q \<Rightarrow>
          if \<not> opt_all (length_in 0 255) header then None
          else case merge_key header q of None \<Rightarrow> None | Some q' \<Rightarrow> if too_late clock q' then None else Some q')"

definition post_answer ::
  "(json \<Rightarrow> string) \<Rightarrow> (string \<Rightarrow> string option) \<Rightarrow> time \<Rightarrow> key_map \<Rightarrow> string option \<Rightarrow> raw_request \<Rightarrow> int \<times> key_map"
where
  "post_answer digest parse_url clock M header body =
     (case accepted parse_url clock header body of
        None \<Rightarrow> (422, M)
      | Some q \<Rightarrow> post_spec M (q_idempotency_key q) (request_hash digest q))"

lemma acceptedE:
  assumes "accepted parse_url clock header body = Some q'"
  obtains q where "parse_request parse_url body = Inr q" "opt_all (length_in 0 255) header" "merge_key header q = Some q'"
    "\<And>t. q_send_at q' = Some t \<Longrightarrow> clock - send_at_grace \<le> t"
  using assms by (auto simp: accepted_def too_late_def split: sum.splits if_splits option.splits)

lemma accepted_earlier:
  assumes "accepted parse_url u header body = Some q" "clock \<le> u"
  shows "accepted parse_url clock header body = Some q"
  using assms by (auto simp: accepted_def too_late_def split: sum.splits if_splits option.splits)

lemma schedule_job_refused:
  assumes "accepted parse_url (sv_clock e) header body = None"
  shows "\<exists>m. schedule_job R K digest parse_uuid parse_url c e header body w = (Rejected 422 m, w)"
  using assms
  by (auto simp: accepted_def too_late_def schedule_job_def validation_error_def schedule_def schedule_reply_def
      split: sum.splits if_splits option.splits)

lemma schedule_job_accepted:
  assumes "accepted parse_url (sv_clock e) header body = Some q"
  shows "schedule_job R K digest parse_uuid parse_url c e header body w =
     (schedule_reply (fst (schedule R K digest parse_uuid c e q w)), snd (schedule R K digest parse_uuid c e q w))"
  using assms by (auto simp: schedule_job_def Let_def split_beta elim!: acceptedE)

text \<open>An accepted request in a reachable state.\<close>

definition post_refines :: "service_env \<Rightarrow> key_map \<Rightarrow> int \<times> key_map \<Rightarrow> 'a reply \<Rightarrow> key_map \<Rightarrow> bool" where
  "post_refines e M spec reply M' \<longleftrightarrow>
     (status_of reply, M') = spec \<or> status_of reply = 500 \<and> M' \<in> {M, snd spec} \<and> db_fails e"

lemma accepted_refines:
  assumes honest: "honest_redis D" and K: "codec_keeps_head (dp_codec D)"
    and r: "reach (queue_init D) (queue_step D) s" and clock: "redis_clock (sy_now s) (sv_redis e) n"
    and ids: "ids_parse (dp_parse_uuid D) (system_db s)" and fresh: "fresh_ids (sv_env e) (system_db s)"
    and acc: "accepted (dp_parse_url D) (sv_clock e) header body = Some q"
  defines "sc \<equiv> schedule (dp_redis D) (dp_codec D) (dp_digest D) (dp_parse_uuid D) (dp_settings D) e q (sy_world s)"
  shows "post_refines e (known_keys (system_db s))
     (post_spec (known_keys (system_db s)) (q_idempotency_key q) (request_hash (dp_digest D) q))
     (schedule_reply (fst sc)) (known_keys (w_db (snd sc)))"
proof -
  let ?h = "request_hash (dp_digest D) q" and ?w = "sy_world s"
  obtain q0 where body: "parse_request (dp_parse_url D) body = Inr q0" "merge_key header q0 = Some q"
    and now: "\<And>t. q_send_at q = Some t \<Longrightarrow> sv_clock e - send_at_grace \<le> t"
    using acceptedE [OF acc] by blast
  have inv: "db_inv {} (w_db ?w)" using system_okD(2) [OF reach_ok [OF r]] by (simp add: system_db_def)
  note co = reach_coherent [OF honest K r] redis_clockD(1) [OF clock]
  note attempts = request_attempts [OF body system_okD(1) [OF reach_ok [OF r]]]
  have new: "gen_job_id (sv_env e) \<notin> set (job_ids (w_db ?w))" using fresh by (simp add: fresh_ids_def system_db_def)
  show ?thesis
  proof (cases "\<exists>j\<in>set (jobs (w_db ?w)). j_idempotency_key j = q_idempotency_key q \<and> q_idempotency_key q \<noteq> None")
    case True
    then obtain j k where j: "j \<in> set (jobs (w_db ?w))" "j_idempotency_key j = Some k" "q_idempotency_key q = Some k" by auto
    have "w_db (snd sc) = w_db ?w \<and> (fst sc = Inl OperationalError \<and> db_fails e \<or>
        (if j_request_hash j = ?h then \<exists>out. fst sc = Inr (out, False) \<and> jo_id out = j_id j
         else fst sc = Inl (IdempotencyConflict (j_id j))))"
      unfolding sc_def by (rule schedule_replay [OF inv co ids [unfolded system_db_def] j attempts new now refl])
    with known_keys_row [OF inv j(1,2)] show ?thesis
      by (auto simp: post_refines_def post_spec_def j(3) schedule_reply_def system_db_def split: if_splits)
  next
    case False
    then have key: "q_idempotency_key q = None \<or> q_idempotency_key q \<notin> set (map j_idempotency_key (jobs (w_db ?w)))"
      by auto
    let ?r = "new_row (sv_env e) (schedule_new_job (dp_settings D) ?h q)"
    have row: "n_idempotency_key (schedule_new_job (dp_settings D) ?h q) = q_idempotency_key q"
      "n_request_hash (schedule_new_job (dp_settings D) ?h q) = ?h"
      by (simp_all add: schedule_new_job_def)
    have spec: "post_spec (known_keys (system_db s)) (q_idempotency_key q) ?h =
        (201, known_keys ((w_db ?w)\<lparr>jobs := jobs (w_db ?w) @ [?r]\<rparr>))"
      using key by (cases "q_idempotency_key q"; subst known_keys_append)
        (simp_all add: row post_spec_def system_db_def known_keys_new)
    have sc: "sc = schedule_insert (dp_redis D) (dp_codec D) (dp_settings D) e ?h q ?w"
      unfolding sc_def by (rule schedule_misses [OF co(1) co(2) key now])
    show ?thesis
      unfolding sc spec
      using schedule_insert_new [OF key attempts new, where h = ?h and R = "dp_redis D" and K = "dp_codec D"]
      by (auto simp: post_refines_def schedule_reply_def db_fails_def system_db_def)
  qed
qed

text \<open>
  C6: \<open>POST /v1/jobs\<close> implements the abstract machine. In every reachable state, whatever is cached
  and whichever Redis calls fail, any request is answered with the status code that the machine gives,
  \<open>422\<close> for the ill-formed ones included, and leaves the keys of the jobs table as the machine leaves its
  map. Only when the database fails is the answer a \<open>500\<close>; then the request has taken effect as a whole
  or not at all, and a client that repeats it with its key is again told the truth.
\<close>

theorem post_refines_spec:
  assumes honest: "honest_redis D" and K: "codec_keeps_head (dp_codec D)"
    and r: "reach (queue_init D) (queue_step D) s" and clock: "redis_clock (sy_now s) (sv_redis e) n"
    and ids: "ids_parse (dp_parse_uuid D) (system_db s)" and fresh: "fresh_ids (sv_env e) (system_db s)"
    and run: "schedule_job (dp_redis D) (dp_codec D) (dp_digest D) (dp_parse_uuid D) (dp_parse_url D) (dp_settings D) e
       header body (sy_world s) = (reply, w')"
  defines "spec \<equiv> post_answer (dp_digest D) (dp_parse_url D) (sv_clock e) (known_keys (system_db s)) header body"
  shows "(status_of reply, known_keys (w_db w')) = spec \<or>
     status_of reply = 500 \<and> known_keys (w_db w') \<in> {known_keys (system_db s), snd spec} \<and> db_fails e"
proof (cases "accepted (dp_parse_url D) (sv_clock e) header body")
  case None
  obtain m where "reply = Rejected 422 m" "w' = sy_world s"
    using schedule_job_refused [where w = "sy_world s", OF None] run by (metis prod.inject)
  with None show ?thesis by (simp add: spec_def post_answer_def system_db_def)
next
  case (Some q)
  from accepted_refines [OF honest K r clock ids fresh Some] run show ?thesis
    by (auto simp: schedule_job_accepted [OF Some] spec_def post_answer_def Some post_refines_def)
qed

end
