(* ===== verification/Seed.thy ===== *)
theory Seed
  imports Post_Refinement
begin

text \<open>
  The seed script, \<open>seed.py\<close>: the requests it builds, and what the running API answers to them. It
  posts repeated and conflicting idempotency keys on purpose, so its outcomes test the contract of
  \<open>Post_Refinement\<close> on a whole sequence of posts.
\<close>

section \<open>The requests\<close>

definition seed_channels :: "string list" where
  "seed_channels = [''email'', ''sms'', ''push'']"

definition seed_priorities :: "string list" where
  "seed_priorities = [''low'', ''normal'', ''high'', ''critical'']"

definition payload_for :: "string \<Rightarrow> int \<Rightarrow> dict" where
  "payload_for channel n =
     (if channel = ''email''
      then [(''subject'', JStr (''Your listing #'' @ show_int n @ '' got a new enquiry'')), (''body'', JStr ''Log in to reply.'')]
      else if channel = ''sms'' then [(''text'', JStr (''Viewing #'' @ show_int n @ '' confirmed for tomorrow 10:00.''))]
      else [(''title'', JStr ''Price drop''), (''body'', JStr (''A saved property (#'' @ show_int n @ '') dropped 5%.''))])"

text \<open>Label, body and headers.\<close>

type_synonym seed_request = "string \<times> dict \<times> (string \<times> string) list"

text \<open>\<open>rng.choice(PRIORITIES)\<close> takes the element at the drawn index, here \<open>pick n\<close> for the \<open>n\<close>-th draw.\<close>

definition seed_immediate :: "(int \<Rightarrow> nat) \<Rightarrow> int \<Rightarrow> seed_request" where
  "seed_immediate pick n =
     (let channel = seed_channels ! nat (n mod 3) in
      (''immediate'',
       [(''recipient'', JStr (''user'' @ show_int n @ ''@example.com'')), (''channel'', JStr channel),
        (''payload'', JObj (payload_for channel n)), (''priority'', JStr (seed_priorities ! pick n))], []))"

definition seed_delayed :: "int \<Rightarrow> seed_request" where
  "seed_delayed n =
     (''delayed (delay_seconds)'',
      [(''recipient'', JStr (''later'' @ show_int n @ ''@example.com'')), (''channel'', JStr ''email''),
       (''payload'', JObj (payload_for ''email'' (100 + n))), (''delay_seconds'', JInt (20 * n))], [])"

definition seed_send_at :: "time \<Rightarrow> seed_request" where
  "seed_send_at send_at =
     (''delayed (send_at)'',
      [(''recipient'', JStr ''later-send-at@example.com''), (''channel'', JStr ''sms''),
       (''payload'', JObj (payload_for ''sms'' 200)), (''send_at'', JIso send_at), (''priority'', JStr ''high'')], [])"

definition seed_burst :: "int \<Rightarrow> seed_request" where
  "seed_burst n =
     (''rate-limited burst'',
      [(''recipient'', JStr ''busy-agent@example.com''), (''channel'', JStr ''push''),
       (''payload'', JObj (payload_for ''push'' (300 + n)))], [])"

definition order_key :: "int \<Rightarrow> string" where
  "order_key n = ''order-'' @ show_int n @ ''-receipt''"

definition seed_idempotent :: "int \<Rightarrow> seed_request list" where
  "seed_idempotent n =
     (let body = [(''recipient'', JStr (''order'' @ show_int n @ ''@example.com'')), (''channel'', JStr ''email''),
                  (''payload'', JObj [(''subject'', JStr (''Receipt for order '' @ show_int n))]), (''priority'', JStr ''high'')];
          headers = [(''Idempotency-Key'', order_key n)]
      in [(''idempotent (first)'', body, headers), (''idempotent (replay)'', body, headers)])"

definition seed_conflict :: seed_request where
  "seed_conflict =
     (''idempotent (conflicting reuse)'',
      [(''recipient'', JStr ''someone-else@example.com''), (''channel'', JStr ''email''), (''payload'', JObj [])],
      [(''Idempotency-Key'', ''order-1-receipt'')])"

definition seed_failures :: "seed_request list" where
  "seed_failures =
     [(''permanent failure'',
       [(''recipient'', JStr ''bounced@invalid.example''), (''channel'', JStr ''email''),
        (''payload'', JObj [(''simulate'', JStr ''permanent_failure''), (''subject'', JStr ''Hello'')])], []),
      (''poison message'',
       [(''recipient'', JStr ''user-poison@example.com''), (''channel'', JStr ''push''),
        (''payload'', JObj [(''simulate'', JStr ''poison'')]), (''max_attempts'', JInt 3)], [])]"

definition build_requests :: "(int \<Rightarrow> nat) \<Rightarrow> time \<Rightarrow> seed_request list" where
  "build_requests pick clock =
     map (seed_immediate pick) [1..24] @ map seed_delayed [1..3] @ [seed_send_at (clock + 120)] @
     map seed_burst [1..14] @ concat (map seed_idempotent [1..3]) @ [seed_conflict] @ seed_failures"

section \<open>Posting them\<close>

text \<open>What the route gets: the fields of a JSON body, and the header.\<close>

fun json_str :: "json \<Rightarrow> string option" where
  "json_str (JStr t) = Some t"
| "json_str _ = None"

fun json_time :: "json \<Rightarrow> time option" where
  "json_time (JIso t) = Some t"
| "json_time _ = None"

fun json_int :: "json \<Rightarrow> int option" where
  "json_int (JInt n) = Some n"
| "json_int _ = None"

fun json_obj :: "json \<Rightarrow> dict option" where
  "json_obj (JObj d) = Some d"
| "json_obj _ = None"

definition field :: "(json \<Rightarrow> 'a option) \<Rightarrow> dict \<Rightarrow> string \<Rightarrow> 'a option" where
  "field f d k = (case map_of d k of None \<Rightarrow> None | Some v \<Rightarrow> f v)"

definition posted_body :: "dict \<Rightarrow> raw_request" where
  "posted_body d =
     \<lparr> w_recipient = coalesce (field json_str d ''recipient'') [], w_channel = coalesce (field json_str d ''channel'') [],
       w_payload = coalesce (field json_obj d ''payload'') [],
       w_priority = map_option PyStr (field json_str d ''priority''), w_send_at = field json_time d ''send_at'',
       w_delay_seconds = map_option real_of_int (field json_int d ''delay_seconds''),
       w_max_attempts = field json_int d ''max_attempts'', w_callback_url = field json_str d ''callback_url'',
       w_idempotency_key = field json_str d ''idempotency_key'' \<rparr>"

type_synonym post = "string \<times> raw_request \<times> string option"

definition seed_post :: "seed_request \<Rightarrow> post" where
  "seed_post r = (case r of (label, body, headers) \<Rightarrow> (label, posted_body body, map_of headers ''Idempotency-Key''))"

text \<open>
  The loop of \<open>main\<close>: post one after the other and note label and status. Between two posts anything
  can happen that takes no idempotency key: workers deliver, other clients read or post without keys,
  Redis loses entries. No post is later than \<open>u\<close> or meets a failing database.
\<close>

inductive posts :: "'r deployment \<Rightarrow> time \<Rightarrow> post list \<Rightarrow> 'r system \<Rightarrow> (string \<times> int) list \<Rightarrow> 'r system \<Rightarrow> bool" for D u where
  posts_done: "posts D u [] s [] s"
| posts_next: "redis_clock (sy_now s) (sv_redis e) n \<Longrightarrow> ids_parse (dp_parse_uuid D) (system_db s) \<Longrightarrow>
     fresh_ids (sv_env e) (system_db s) \<Longrightarrow> \<not> db_fails e \<Longrightarrow> sv_clock e \<le> u \<Longrightarrow>
     schedule_job (dp_redis D) (dp_codec D) (dp_digest D) (dp_parse_uuid D) (dp_parse_url D) (dp_settings D) e header body
       (sy_world s) = (reply, w) \<Longrightarrow>
     posts D u ps (s\<lparr>sy_world := w, sy_now := n\<rparr>) outs t \<Longrightarrow>
     posts D u ((label, body, header) # ps) s ((label, status_of reply) # outs) t"
| posts_meanwhile: "queue_step D s s' \<Longrightarrow> known_keys (system_db s') = known_keys (system_db s) \<Longrightarrow>
     posts D u ps s' outs t \<Longrightarrow> posts D u ps s outs t"

text \<open>The abstract machine on a sequence of posts.\<close>

fun spec_outcomes :: "(json \<Rightarrow> string) \<Rightarrow> (string \<Rightarrow> string option) \<Rightarrow> time \<Rightarrow> key_map \<Rightarrow> post list \<Rightarrow> (string \<times> int) list" where
  "spec_outcomes digest parse_url u M [] = []"
| "spec_outcomes digest parse_url u M ((label, body, header) # ps) =
     (case post_answer digest parse_url u M header body of
        (code, M') \<Rightarrow> (label, code) # spec_outcomes digest parse_url u M' ps)"

definition all_accepted :: "(string \<Rightarrow> string option) \<Rightarrow> time \<Rightarrow> post list \<Rightarrow> bool" where
  "all_accepted parse_url u ps \<longleftrightarrow> (\<forall>(label, body, header)\<in>set ps. accepted parse_url u header body \<noteq> None)"

lemma posts_follow_spec:
  assumes honest: "honest_redis D" and K: "codec_keeps_head (dp_codec D)"
    and run: "posts D u ps s outs t" and r: "reach (queue_init D) (queue_step D) s"
    and acc: "all_accepted (dp_parse_url D) u ps"
  shows "outs = spec_outcomes (dp_digest D) (dp_parse_url D) u (known_keys (system_db s)) ps"
  using run r acc
proof (induction rule: posts.induct)
  case (posts_done s)
  show ?case by simp
next
  case (posts_next s e n header body reply w ps outs t label)
  let ?M = "known_keys (system_db s)"
  obtain q where q: "accepted (dp_parse_url D) u header body = Some q" using posts_next.prems(2) by (auto simp: all_accepted_def)
  note now = accepted_earlier [OF q posts_next.hyps(5)]
  have answer: "(status_of reply, known_keys (w_db w)) = post_answer (dp_digest D) (dp_parse_url D) u ?M header body"
    using accepted_refines [OF honest K posts_next.prems(1) posts_next.hyps(1-3) now] posts_next.hyps(4,6)
    by (auto simp: schedule_job_accepted [OF now] post_answer_def q post_refines_def)
  have step: "queue_step D s (s\<lparr>sy_world := w, sy_now := n\<rparr>)"
    by (rule queue_step.schedule_step [OF posts_next.hyps(3,1,6)])
  have "all_accepted (dp_parse_url D) u ps" using posts_next.prems(2) by (simp add: all_accepted_def)
  from posts_next.IH [OF reach_step [OF posts_next.prems(1) step] this] show ?case
    by (simp add: answer [unfolded system_db_def, symmetric] system_db_def)
next
  case (posts_meanwhile s s' ps outs t)
  from posts_meanwhile.IH [OF reach_step [OF posts_meanwhile.prems(1) posts_meanwhile.hyps(1)] posts_meanwhile.prems(2)]
  show ?case by (simp add: posts_meanwhile.hyps(2))
qed


section \<open>What the seed is answered\<close>

definition seed_status :: "string \<Rightarrow> int" where
  "seed_status label =
     (if label = ''idempotent (replay)'' then 200 else if label = ''idempotent (conflicting reuse)'' then 409 else 201)"

lemma show_nat_length: "length (show_nat n) \<le> n + 1"
proof (induction n rule: show_nat.induct)
  case (1 n)
  then show ?case by (cases "n < 10") (simp_all add: show_nat.simps [of n])
qed

lemma show_int_length: "0 \<le> n \<Longrightarrow> length (show_int n) \<le> nat n + 1"
  using show_nat_length by (simp add: show_int_def)

text \<open>A post without a key that is accepted: \<open>201\<close>, and the map stays.\<close>

definition keyless :: "(string \<Rightarrow> string option) \<Rightarrow> time \<Rightarrow> post \<Rightarrow> bool" where
  "keyless parse_url u p \<longleftrightarrow>
     (case p of (label, body, header) \<Rightarrow> \<exists>q. accepted parse_url u header body = Some q \<and> q_idempotency_key q = None)"

lemma spec_keyless:
  assumes "\<forall>p\<in>set ps. keyless parse_url u p"
  shows "spec_outcomes digest parse_url u M (ps @ rest) = map (\<lambda>(label, _). (label, 201)) ps @ spec_outcomes digest parse_url u M rest"
  using assms by (induction ps) (auto simp: keyless_def post_answer_def post_spec_def)

lemmas read_post = seed_post_def posted_body_def field_def accepted_def parse_request_def field_check_def opt_all_def
  merge_key_def too_late_def

lemma seed_priority: "pick < 4 \<Longrightarrow> \<exists>p. priority_parse (PyStr (seed_priorities ! pick)) = Inr p"
proof -
  assume "pick < 4"
  have "seed_priorities = map priority_dump all_priorities" by code_simp
  moreover have "length all_priorities = 4" by (simp add: all_priorities_def)
  ultimately have "seed_priorities ! pick = priority_dump (all_priorities ! pick)"
    using \<open>pick < 4\<close> by (metis nth_map)
  then show ?thesis using priority_parse_roundtrip [of "all_priorities ! pick"] by metis
qed

lemma keyless_immediate:
  assumes "1 \<le> n" "n \<le> 24" "pick n < 4"
  shows "keyless parse_url u (seed_post (seed_immediate pick n))"
proof -
  have "nat (n mod 3) = 0 \<or> nat (n mod 3) = 1 \<or> nat (n mod 3) = 2" by linarith
  then have channel: "parse_channel (seed_channels ! nat (n mod 3)) \<noteq> None"
    by (auto simp: seed_channels_def parse_channel_def all_channels_def)
  have "length_in 1 320 (''user'' @ show_int n @ ''@example.com'')"
    using show_int_length [of n] assms by (simp add: length_in_def)
  with channel seed_priority [OF assms(3)] show ?thesis
    by (auto simp: keyless_def seed_immediate_def Let_def read_post)
qed

lemma seed_literals:
  "parse_channel ''email'' = Some EMAIL" "parse_channel ''sms'' = Some SMS" "parse_channel ''push'' = Some PUSH"
  "priority_parse (PyStr ''high'') = Inr HIGH" "order_key 1 = ''order-1-receipt''"
  by code_simp+

lemma keyless_delayed:
  assumes "1 \<le> n" "n \<le> 3"
  shows "keyless parse_url u (seed_post (seed_delayed n))"
  using show_int_length [of n] assms
  by (simp add: keyless_def seed_delayed_def read_post seed_literals length_in_def max_delay_seconds_def)

lemma keyless_send_at: "u - send_at_grace \<le> t \<Longrightarrow> keyless parse_url u (seed_post (seed_send_at t))"
  by (simp add: keyless_def seed_send_at_def read_post seed_literals length_in_def del: priority_parse.simps)

lemma keyless_burst: "keyless parse_url u (seed_post (seed_burst n))"
  by (simp add: keyless_def seed_burst_def read_post seed_literals length_in_def)

lemma keyless_failures: "r \<in> set seed_failures \<Longrightarrow> keyless parse_url u (seed_post r)"
  by (auto simp: keyless_def seed_failures_def read_post seed_literals length_in_def)

text \<open>The posts with a key.\<close>

definition order_request :: "int \<Rightarrow> schedule_request" where
  "order_request n =
     \<lparr> q_recipient = ''order'' @ show_int n @ ''@example.com'', q_channel = EMAIL,
       q_payload = [(''subject'', JStr (''Receipt for order '' @ show_int n))], q_priority = HIGH, q_send_at = None,
       q_delay_seconds = None, q_max_attempts = None, q_callback_url = None, q_idempotency_key = Some (order_key n) \<rparr>"

definition conflict_request :: schedule_request where
  "conflict_request =
     \<lparr> q_recipient = ''someone-else@example.com'', q_channel = EMAIL, q_payload = [], q_priority = NORMAL, q_send_at = None,
       q_delay_seconds = None, q_max_attempts = None, q_callback_url = None, q_idempotency_key = Some (order_key 1) \<rparr>"

lemma accepted_order:
  assumes "1 \<le> n" "n \<le> 3" "r \<in> set (seed_idempotent n)"
  shows "case seed_post r of (label, body, header) \<Rightarrow> accepted parse_url u header body = Some (order_request n)"
proof -
  have "length (show_int n) \<le> 4" using show_int_length [of n] assms by simp
  with assms(3) show ?thesis
    by (auto simp: seed_idempotent_def Let_def read_post seed_literals length_in_def order_request_def order_key_def
        simp del: priority_parse.simps)
qed

lemma accepted_conflict:
  "case seed_post seed_conflict of (label, body, header) \<Rightarrow> accepted parse_url u header body = Some conflict_request"
  by (simp add: seed_conflict_def read_post seed_literals length_in_def conflict_request_def)

lemma spec_order:
  assumes "1 \<le> n" "n \<le> 3" "M (order_key n) = None"
  shows "spec_outcomes digest parse_url u M (map seed_post (seed_idempotent n) @ rest) =
     [(''idempotent (first)'', 201), (''idempotent (replay)'', 200)] @
     spec_outcomes digest parse_url u (M(order_key n \<mapsto> request_hash digest (order_request n))) rest"
proof -
  obtain body headers where r: "seed_idempotent n = [(''idempotent (first)'', body, headers), (''idempotent (replay)'', body, headers)]"
    by (rule that [OF seed_idempotent_def [of n, unfolded Let_def]])
  have key: "q_idempotency_key (order_request n) = Some (order_key n)" by (simp add: order_request_def)
  have "accepted parse_url u (map_of headers ''Idempotency-Key'') (posted_body body) = Some (order_request n)"
    using accepted_order [OF assms(1,2), of "(''idempotent (first)'', body, headers)" parse_url u]
    by (simp only: r list.set insert_iff simp_thms seed_post_def prod.case)
  then show ?thesis by (simp add: r seed_post_def post_answer_def post_spec_def key assms(3))
qed

lemma order_key_inject [simp]: "order_key n = order_key m \<longleftrightarrow> n = m"
proof -
  have "show_int n = show_int m \<longleftrightarrow> n = m" by (metis option.inject read_show_int)
  then show ?thesis by (simp add: order_key_def)
qed

text \<open>The requests up to the first key, which all are without one.\<close>

definition seed_first :: "(int \<Rightarrow> nat) \<Rightarrow> time \<Rightarrow> seed_request list" where
  "seed_first pick clock =
     map (seed_immediate pick) [1..24] @ map seed_delayed [1..3] @ [seed_send_at (clock + 120)] @ map seed_burst [1..14]"

lemma build_requests_split:
  "build_requests pick clock =
     seed_first pick clock @ seed_idempotent 1 @ seed_idempotent 2 @ seed_idempotent 3 @ [seed_conflict] @ seed_failures"
proof -
  have "concat (map seed_idempotent [1..3]) = seed_idempotent 1 @ seed_idempotent 2 @ seed_idempotent 3"
    by (simp add: upto.simps)
  then show ?thesis by (simp only: build_requests_def seed_first_def append_assoc)
qed

lemma keyless_first:
  assumes "\<And>n. pick n < 4" "u \<le> clock + 120"
  shows "\<forall>p\<in>set (map seed_post (seed_first pick clock)). keyless parse_url u p"
  using keyless_immediate [of _ pick] keyless_delayed keyless_send_at [of u "clock + 120"] keyless_burst assms
  by (auto simp: seed_first_def send_at_grace_def)

lemma seed_accepted:
  assumes "\<And>n. pick n < 4" "u \<le> clock + 120"
  shows "all_accepted parse_url u (map seed_post (build_requests pick clock))"
proof -
  have keyless: "case p of (label, body, header) \<Rightarrow> accepted parse_url u header body \<noteq> None" if "keyless parse_url u p" for p
    using that by (auto simp: keyless_def)
  have "case seed_post r of (label, body, header) \<Rightarrow> accepted parse_url u header body \<noteq> None"
    if "r \<in> set (build_requests pick clock)" for r
  proof -
    have orders: "case seed_post r of (label, body, header) \<Rightarrow> accepted parse_url u header body \<noteq> None"
      if "1 \<le> n" "n \<le> 3" "r \<in> set (seed_idempotent n)" for n
      using accepted_order [OF that, of parse_url u] by (auto split: prod.splits)
    have "r \<in> set (seed_first pick clock) \<or> r \<in> set seed_failures \<or> r = seed_conflict \<or>
        r \<in> set (seed_idempotent 1) \<or> r \<in> set (seed_idempotent 2) \<or> r \<in> set (seed_idempotent 3)"
      using that unfolding build_requests_split set_append by auto
    then show ?thesis
      using keyless_first [where parse_url = parse_url, OF assms] keyless keyless_failures [of r parse_url u] accepted_conflict [of parse_url u]
        orders [of 1] orders [of 2] orders [of 3]
      by (elim disjE) (auto split: prod.splits)
  qed
  then show ?thesis by (auto simp: all_accepted_def)
qed

lemma spec_seed:
  assumes pick: "\<And>n. pick n < 4" and u: "u \<le> clock + 120"
    and unused: "\<And>n. 1 \<le> n \<Longrightarrow> n \<le> 3 \<Longrightarrow> M (order_key n) = None"
    and hash: "request_hash digest conflict_request \<noteq> request_hash digest (order_request 1)"
  shows "spec_outcomes digest parse_url u M (map seed_post (build_requests pick clock)) =
     map (\<lambda>(label, _). (label, seed_status label)) (map seed_post (build_requests pick clock))"
proof -
  let ?h = "\<lambda>n. request_hash digest (order_request n)"
  let ?M = "M(order_key 1 \<mapsto> ?h 1, order_key 2 \<mapsto> ?h 2, order_key 3 \<mapsto> ?h 3)"
  have free: "M (order_key 1) = None" "M (order_key 2) = None" "M (order_key 3) = None" using unused by simp_all
  have Z: "\<forall>p\<in>set (map seed_post seed_failures). keyless parse_url u p" using keyless_failures by auto
  have conflict: "spec_outcomes digest parse_url u ?M (seed_post seed_conflict # rest) =
      (''idempotent (conflicting reuse)'', 409) # spec_outcomes digest parse_url u ?M rest" for rest
    using accepted_conflict [of parse_url u] hash
    by (auto simp: seed_conflict_def seed_post_def post_answer_def post_spec_def conflict_request_def)
  let ?one = "map (\<lambda>(label, _). (label, 201))" and ?pair = "[(''idempotent (first)'', 201), (''idempotent (replay)'', 200)]"
  let ?out = "map (\<lambda>(label, _). (label, seed_status label))"
  have "spec_outcomes digest parse_url u M (map seed_post (build_requests pick clock)) =
      ?one (map seed_post (seed_first pick clock)) @ ?pair @ ?pair @ ?pair @ (''idempotent (conflicting reuse)'', 409) # ?one (map seed_post seed_failures)"
    unfolding build_requests_split
    using spec_keyless [OF keyless_first [OF pick u]] spec_keyless [OF Z, where rest = "[]"] spec_order [where n = 1] spec_order [where n = 2]
      spec_order [where n = 3] free conflict
    by simp
  moreover have "?one (map seed_post (seed_first pick clock)) = ?out (map seed_post (seed_first pick clock))" "?one (map seed_post seed_failures) = ?out (map seed_post seed_failures)"
    by (auto simp: seed_first_def seed_post_def seed_status_def seed_immediate_def seed_delayed_def seed_send_at_def seed_burst_def
        seed_failures_def Let_def)
  moreover have "?out (map seed_post (seed_idempotent n)) = ?pair" for n
    by (simp add: seed_idempotent_def Let_def seed_post_def seed_status_def)
  moreover have "?out [seed_post seed_conflict] = [(''idempotent (conflicting reuse)'', 409)]"
    by (simp add: seed_conflict_def seed_post_def seed_status_def)
  ultimately show ?thesis by (simp add: build_requests_split)
qed

text \<open>
  C40: the seed script meets every answer it is built for. Run against any reachable system in which
  its three keys are unused, with a healthy database but Redis in any state, and with workers and
  other clients active between its posts, it is answered \<open>200\<close> for the three replays, \<open>409\<close> for the
  conflicting reuse, and \<open>201\<close> for each of the other requests.
\<close>

theorem seed_outcomes:
  assumes honest: "honest_redis D" and K: "codec_keeps_head (dp_codec D)" and r: "reach (queue_init D) (queue_step D) s"
    and run: "posts D (clock + 120) (map seed_post (build_requests pick clock)) s outs t" and pick: "\<And>n. pick n < 4"
    and unused: "\<And>n. 1 \<le> n \<Longrightarrow> n \<le> 3 \<Longrightarrow> get_job_by_idempotency_key (system_db s) (Some (order_key n)) = None"
    and hash: "request_hash (dp_digest D) conflict_request \<noteq> request_hash (dp_digest D) (order_request 1)"
  shows "outs = map (\<lambda>(label, body, headers). (label, seed_status label)) (build_requests pick clock)"
proof -
  have "outs = spec_outcomes (dp_digest D) (dp_parse_url D) (clock + 120) (known_keys (system_db s)) (map seed_post (build_requests pick clock))"
    by (rule posts_follow_spec [OF honest K run r seed_accepted [OF pick order_refl]])
  also have "\<dots> = map (\<lambda>(label, _). (label, seed_status label)) (map seed_post (build_requests pick clock))"
    by (rule spec_seed [OF pick order_refl _ hash]) (simp add: known_keys_def unused)
  finally show ?thesis by (simp add: comp_def seed_post_def split_beta)
qed

end
