(* ===== verification/Processes.thy ===== *)
theory Processes
  imports Queue_Cache
begin

text \<open>
  What the API process builds, and the worker process, \<open>worker/main.py\<close>: it starts the claim loops of \<open>worker/loop.py\<close>, the reaper and
  the webhook dispatcher, stops them on a signal or when idle, and exits when all have returned. Each
  loop is a small state machine: at the head of its \<open>while not stop.is_set()\<close>, busy with a batch,
  asleep in \<open>sleep_or_stop\<close>, or returned. The clients of Postgres and Redis are built here too.
\<close>

section \<open>Clients\<close>

text \<open>The arguments of \<open>create_async_engine\<close> and of \<open>Redis.from_url\<close>.\<close>

record engine_options =
  eo_url :: string
  eo_pool_size :: int
  eo_max_overflow :: int
  eo_pool_timeout :: real
  eo_pool_pre_ping :: bool

definition create_engine :: "settings \<Rightarrow> engine_options" where
  "create_engine c =
     \<lparr> eo_url = database_url c, eo_pool_size = db_pool_size c, eo_max_overflow = db_max_overflow c,
       eo_pool_timeout = db_pool_timeout c, eo_pool_pre_ping = True \<rparr>"

record redis_options =
  ro_url :: string
  ro_decode_responses :: bool
  ro_socket_timeout :: real
  ro_connect_timeout :: real
  ro_ssl_ca_certs :: "string option"
  ro_health_check_interval :: int

record cache_client =
  cc_redis :: "redis_options option"
  cc_prefix :: string

text \<open>\<open>Cache.from_settings\<close>; \<open>ca_bundle\<close> is \<open>certifi.where()\<close>.\<close>

definition cache_from_settings :: "string \<Rightarrow> settings \<Rightarrow> cache_client" where
  "cache_from_settings ca_bundle c =
     (if \<not> cache_enabled c then \<lparr>cc_redis = None, cc_prefix = redis_key_prefix c\<rparr>
      else
        \<lparr> cc_redis = Some
            \<lparr> ro_url = redis_url c, ro_decode_responses = True, ro_socket_timeout = redis_socket_timeout c,
              ro_connect_timeout = redis_connect_timeout c,
              ro_ssl_ca_certs = (if take 9 (redis_url c) = ''rediss://'' then Some ca_bundle else None),
              ro_health_check_interval = 30 \<rparr>,
          cc_prefix = redis_key_prefix c \<rparr>)"

definition client_enabled :: "cache_client \<Rightarrow> bool" where
  "client_enabled cl \<longleftrightarrow> cc_redis cl \<noteq> None"

text \<open>So the flag \<open>cache_enabled\<close> that the models of the cache test is the property \<open>Cache.enabled\<close>.\<close>

lemma client_enabled_settings [simp]: "client_enabled (cache_from_settings ca c) = cache_enabled c"
  by (simp add: client_enabled_def cache_from_settings_def)

section \<open>Loops\<close>

datatype loop_phase = AtHead | Busy "flight list" | Asleep real | Returned

datatype poll_phase = Polling | Napping real | Ended

text \<open>
  \<open>Worker._loop\<close>: one round from the head of the loop to its first suspension after the claim. \<open>u\<close> is
  the sample of \<open>random.uniform(0.5, 1.5)\<close>.
\<close>

definition worker_loop_head ::
  "settings \<Rightarrow> string \<Rightarrow> string \<Rightarrow> bool \<Rightarrow> time \<Rightarrow> tx_fate \<Rightarrow> txenv \<Rightarrow> real \<Rightarrow> 'r world \<Rightarrow> loop_phase \<times> 'r world"
where
  "worker_loop_head c worker loop_id stop clock fate env u w =
     (if stop then (Returned, w)
      else case claim_batch c worker (Some loop_id) clock fate env w of
             (Inl x, w1) \<Rightarrow> (Asleep (poll_interval c * u), w1)
           | (Inr fs, w1) \<Rightarrow> (if fs = [] then Asleep (poll_interval c * u) else Busy fs, w1))"

text \<open>\<open>Reaper.run\<close> and \<open>WebhookDispatcher.run\<close>: one round, with the invalidations the reaper hands over.\<close>

definition reaper_head ::
  "settings \<Rightarrow> bool \<Rightarrow> tx_fate \<Rightarrow> txenv \<Rightarrow> 'r world \<Rightarrow> poll_phase \<times> (uuid \<times> int) list \<times> 'r world"
where
  "reaper_head c stop fate env w =
     (if stop then (Ended, [], w)
      else case reaper_run_once c fate env w of
             (Inl x, w1) \<Rightarrow> (Napping (reaper_interval c), [], w1)
           | (Inr (reaped, tasks), w1) \<Rightarrow> (Napping (reaper_interval c), tasks, w1))"

definition dispatcher_head ::
  "settings \<Rightarrow> bool \<Rightarrow> tx_fate \<Rightarrow> txenv \<Rightarrow> (outbox_event \<Rightarrow> dispatch_env) \<Rightarrow>
   (outbox_event list \<Rightarrow> outbox_event list) \<Rightarrow> 'r world \<Rightarrow> poll_phase \<times> 'r world"
where
  "dispatcher_head c stop fate env plan finish_order w =
     (if stop then (Ended, w)
      else let (r, s') = dispatcher_run_once c env fate plan finish_order (w_db w);
               sent = (case r of Inl x \<Rightarrow> 0 | Inr n \<Rightarrow> n)
           in (if sent = 0 then Napping (webhook_poll_interval c) else Polling, w\<lparr>w_db := s'\<rparr>))"

section \<open>The process\<close>

record process_state =
  pr_worker_id :: string
  pr_idle_limit :: "time option"
  pr_stop :: bool
  pr_loops :: "loop_phase list"
  pr_reaper :: "poll_phase"
  pr_dispatcher :: "poll_phase"
  pr_tasks :: "(uuid \<times> int) list"
  pr_last_activity :: time
  pr_exited :: bool

text \<open>\<open>main\<close>: the command line can override the number of loops.\<close>

definition override_concurrency :: "int option \<Rightarrow> settings \<Rightarrow> settings" where
  "override_concurrency arg c =
     (case arg of None \<Rightarrow> c | Some n \<Rightarrow> if n = 0 then c else c\<lparr>worker_concurrency := n\<rparr>)"

section \<open>The API process\<close>

text \<open>
  What the \<open>lifespan\<close> of \<open>api/main.py\<close> puts into \<open>app.state\<close>: the clients, and the services, each with what
  its constructor is given (a \<open>JobCache\<close> is the cache with the settings).
\<close>

record app_state =
  app_settings :: settings
  app_engine :: engine_options
  app_cache :: cache_client
  app_job_service :: "engine_options \<times> (cache_client \<times> settings) \<times> settings"
  app_metrics_service :: "engine_options \<times> cache_client \<times> int"
  app_dead_letter_service :: "engine_options \<times> (cache_client \<times> settings)"

definition start_app :: "string \<Rightarrow> settings \<Rightarrow> app_state" where
  "start_app ca_bundle c =
     (let engine = create_engine c; cache = cache_from_settings ca_bundle c; job_cache = (cache, c)
      in \<lparr> app_settings = c, app_engine = engine, app_cache = cache, app_job_service = (engine, job_cache, c),
           app_metrics_service = (engine, cache, cache_metrics_ttl c), app_dead_letter_service = (engine, job_cache) \<rparr>)"

text \<open>
  An API process and a worker process with the same settings meet in the same database, the same Redis and
  the same keys, whatever number of loops the command line asks for: the entry that a worker
  invalidates is the one that the API reads.
\<close>

lemma processes_meet:
  "app_engine (start_app ca c) = create_engine (override_concurrency arg c)"
  "app_cache (start_app ca c) = cache_from_settings ca (override_concurrency arg c)"
  "fst (app_job_service (start_app ca c)) = app_engine (start_app ca c)"
  "fst (fst (snd (app_job_service (start_app ca c)))) = app_cache (start_app ca c)"
  "cache_key (cc_prefix (app_cache (start_app ca c))) [''job'', i] = job_key (override_concurrency arg c) i"
  by (simp_all add: start_app_def Let_def override_concurrency_def create_engine_def cache_from_settings_def job_key_def
      split: option.split)

section \<open>Starting and stopping\<close>

definition start_process :: "settings \<Rightarrow> time option \<Rightarrow> time \<Rightarrow> process_state" where
  "start_process c exit_when_idle clock =
     \<lparr> pr_worker_id = worker_id c, pr_idle_limit = exit_when_idle, pr_stop = False,
       pr_loops = replicate (nat (worker_concurrency c)) AtHead, pr_reaper = Polling, pr_dispatcher = Polling,
       pr_tasks = [], pr_last_activity = clock, pr_exited = False \<rparr>"

definition loop_name :: "process_state \<Rightarrow> nat \<Rightarrow> string" where
  "loop_name p k = pr_worker_id p @ ''/'' @ show_int (int k)"

text \<open>\<open>idle_watch\<close> stops the process when the last claimed batch is too long ago.\<close>

definition too_idle :: "process_state \<Rightarrow> time \<Rightarrow> bool" where
  "too_idle p clock \<longleftrightarrow> (case pr_idle_limit p of None \<Rightarrow> False | Some d \<Rightarrow> d < clock - pr_last_activity p)"

text \<open>
  \<open>run_worker\<close> returns when all its tasks have, and its \<open>CacheInvalidator\<close> is drained, that is, none of
  its background invalidations is left.
\<close>

definition may_exit :: "process_state \<Rightarrow> bool" where
  "may_exit p \<longleftrightarrow> \<not> pr_exited p \<and> (\<forall>ph\<in>set (pr_loops p). ph = Returned) \<and> pr_reaper p = Ended \<and>
     pr_dispatcher p = Ended \<and> pr_tasks p = []"

text \<open>
  The steps of a process on the world, at a clock reading of Redis. A loop that is asleep wakes when
  its time is over or when \<open>stop\<close> is set, so at any time.
\<close>

inductive process_step ::
  "'r deployment \<Rightarrow> process_state \<times> 'r world \<times> int \<Rightarrow> process_state \<times> 'r world \<times> int \<Rightarrow> bool" for D
where
  signal_step: "\<not> pr_stop p \<Longrightarrow> process_step D (p, w, n) (p\<lparr>pr_stop := True\<rparr>, w, n)"
| idle_step: "\<not> pr_stop p \<Longrightarrow> too_idle p clock \<Longrightarrow> process_step D (p, w, n) (p\<lparr>pr_stop := True\<rparr>, w, n)"
| head_step: "k < length (pr_loops p) \<Longrightarrow> pr_loops p ! k = AtHead \<Longrightarrow> 1 / 2 \<le> u \<Longrightarrow> u \<le> 3 / 2 \<Longrightarrow>
     worker_loop_head (dp_settings D) (pr_worker_id p) (loop_name p k) (pr_stop p) clock fate env u w = (ph, w') \<Longrightarrow>
     process_step D (p, w, n)
       (p\<lparr>pr_loops := (pr_loops p)[k := ph],
          pr_last_activity := (case ph of Busy fs \<Rightarrow> clock' | _ \<Rightarrow> pr_last_activity p)\<rparr>, w', n)"
| deliver_step: "k < length (pr_loops p) \<Longrightarrow> pr_loops p ! k = Busy fs \<Longrightarrow> i < length fs \<Longrightarrow> fl_phase (fs ! i) \<noteq> Done \<Longrightarrow>
     fresh_ids (we_env we) (w_db w) \<Longrightarrow> n \<le> re_now (le_redis (we_limit we)) \<Longrightarrow>
     worker_step D we (fs ! i) w = (f, w') \<Longrightarrow>
     process_step D (p, w, n)
       (p\<lparr>pr_loops := (pr_loops p)[k := Busy (fs[i := f\<lparr>fl_tasks := []\<rparr>])], pr_tasks := pr_tasks p @ fl_tasks f\<rparr>,
        w', re_now (le_redis (we_limit we)))"
| batch_done_step: "k < length (pr_loops p) \<Longrightarrow> pr_loops p ! k = Busy fs \<Longrightarrow> \<forall>f\<in>set fs. fl_phase f = Done \<Longrightarrow>
     process_step D (p, w, n) (p\<lparr>pr_loops := (pr_loops p)[k := AtHead]\<rparr>, w, n)"
| wake_step: "k < length (pr_loops p) \<Longrightarrow> pr_loops p ! k = Asleep d \<Longrightarrow>
     process_step D (p, w, n) (p\<lparr>pr_loops := (pr_loops p)[k := AtHead]\<rparr>, w, n)"
| reaper_step: "pr_reaper p = Polling \<Longrightarrow> fresh_ids env (w_db w) \<Longrightarrow>
     reaper_head (dp_settings D) (pr_stop p) fate env w = (ph', tasks, w') \<Longrightarrow>
     process_step D (p, w, n) (p\<lparr>pr_reaper := ph', pr_tasks := pr_tasks p @ tasks\<rparr>, w', n)"
| reaper_wake_step: "pr_reaper p = Napping d \<Longrightarrow> process_step D (p, w, n) (p\<lparr>pr_reaper := Polling\<rparr>, w, n)"
| dispatcher_step: "pr_dispatcher p = Polling \<Longrightarrow> (\<And>evs. mset (finish_order evs) = mset evs) \<Longrightarrow>
     dispatcher_head (dp_settings D) (pr_stop p) fate env plan finish_order w = (ph', w') \<Longrightarrow>
     process_step D (p, w, n) (p\<lparr>pr_dispatcher := ph'\<rparr>, w', n)"
| dispatcher_wake_step: "pr_dispatcher p = Napping d \<Longrightarrow> process_step D (p, w, n) (p\<lparr>pr_dispatcher := Polling\<rparr>, w, n)"
| invalidate_step: "task \<in> set (pr_tasks p) \<Longrightarrow> n \<le> re_now re \<Longrightarrow>
     process_step D (p, w, n)
       (p\<lparr>pr_tasks := remove1 task (pr_tasks p)\<rparr>,
        w\<lparr>w_redis := run_task (dp_redis D) (dp_settings D) re task (w_redis w)\<rparr>, re_now re)"
| exit_step: "may_exit p \<Longrightarrow> process_step D (p, w, n) (p\<lparr>pr_exited := True\<rparr>, w, n)"

section \<open>Shutting down\<close>

text \<open>
  What is left to do once \<open>stop\<close> is set, as a number that every step lowers. A step of a flight hands
  over at most one invalidation, so it counts double.
\<close>

definition flight_work :: "flight \<Rightarrow> nat" where
  "flight_work f = 2 * steps_left (fl_phase f) + length (fl_tasks f)"

fun loop_work :: "loop_phase \<Rightarrow> nat" where
  "loop_work AtHead = 1"
| "loop_work (Busy fs) = 2 + sum_list (map flight_work fs)"
| "loop_work (Asleep d) = 2"
| "loop_work Returned = 0"

fun poll_work :: "poll_phase \<Rightarrow> nat" where
  "poll_work Polling = 1"
| "poll_work (Napping d) = 2"
| "poll_work Ended = 0"

definition shutdown_work :: "process_state \<Rightarrow> nat" where
  "shutdown_work p =
     sum_list (map loop_work (pr_loops p)) + poll_work (pr_reaper p) + poll_work (pr_dispatcher p) + length (pr_tasks p) +
     (if pr_exited p then 0 else 1)"

lemma sum_list_update_nat:
  fixes g :: "'a \<Rightarrow> nat"
  assumes "k < length xs"
  shows "sum_list (map g (xs[k := y])) + g (xs ! k) = sum_list (map g xs) + g y"
  using assms by (induction xs arbitrary: k) (auto split: nat.split)

lemma deliver_step_tasks: "length (fl_tasks (fst (deliver_step c L send lib e f w))) \<le> length (fl_tasks f) + 1"
  by (cases "fl_phase f")
    (auto simp: deliver_step_def acquire_phase_def return_phase_def send_phase_def finalize_phase_def release_phase_def
      record_outcome_def invalidate_later_def count_stat_def abandon_def Let_def
      split: sum.splits option.splits prod.splits after_release.splits)

lemma deliver_step_work:
  assumes "fl_phase f \<noteq> Done"
  shows "flight_work ((fst (deliver_step c L send lib e f w))\<lparr>fl_tasks := []\<rparr>) +
      length (fl_tasks (fst (deliver_step c L send lib e f w))) < flight_work f"
proof -
  have "0 < steps_left (fl_phase f)" using assms by (cases "steps_left (fl_phase f)") auto
  with step_progress [of c L send lib e f w] deliver_step_tasks [of c L send lib e f w] show ?thesis
    by (simp add: flight_work_def)
qed

lemma shutdown_progress:
  assumes step: "process_step D (p, w, n) (p', w', n')" and stop: "pr_stop p"
  shows "shutdown_work p' < shutdown_work p \<and> pr_stop p'"
proof -
  note upd = sum_list_update_nat [where g = loop_work]
  from step show ?thesis
  proof cases
    case (head_step k u clock fate env ph clock')
    with stop have "ph = Returned" by (simp add: worker_loop_head_def)
    with head_step upd [of k "pr_loops p" Returned] stop show ?thesis by (simp add: shutdown_work_def)
  next
    case (deliver_step k fs i we f)
    have f: "f = fst (worker_step D we (fs ! i) w)" using deliver_step(9) by simp
    have "flight_work (f\<lparr>fl_tasks := []\<rparr>) + length (fl_tasks f) < flight_work (fs ! i)"
      unfolding f worker_step_def by (rule deliver_step_work [OF deliver_step(6)])
    with sum_list_update_nat [OF deliver_step(5), of flight_work "f\<lparr>fl_tasks := []\<rparr>"]
      upd [OF deliver_step(3), of "Busy (fs[i := f\<lparr>fl_tasks := []\<rparr>])"] deliver_step(1,4) stop
    show ?thesis by (simp add: shutdown_work_def)
  next
    case (batch_done_step k fs)
    with upd [OF batch_done_step(4), of AtHead] stop show ?thesis by (simp add: shutdown_work_def)
  next
    case (wake_step k d)
    with upd [OF wake_step(4), of AtHead] stop show ?thesis by (simp add: shutdown_work_def)
  next
    case (reaper_step env fate ph' tasks)
    with stop show ?thesis by (simp add: reaper_head_def shutdown_work_def)
  next
    case (dispatcher_step finish_order fate env plan ph')
    with stop show ?thesis by (simp add: dispatcher_head_def shutdown_work_def)
  next
    case (invalidate_step task re)
    then have "0 < length (pr_tasks p)" by (cases "pr_tasks p") auto
    with invalidate_step stop show ?thesis by (simp add: shutdown_work_def length_remove1)
  qed (use stop in \<open>simp_all add: shutdown_work_def may_exit_def\<close>)
qed

lemma process_can_move:
  assumes "\<not> pr_exited p"
  shows "\<exists>q. process_step D (p, w, n) q"
proof -
  obtain env where env: "fresh_ids env (w_db w)" using ex_fresh_env by blast
  consider k where "k < length (pr_loops p)" "pr_loops p ! k \<noteq> Returned"
    | "pr_reaper p \<noteq> Ended" | "pr_dispatcher p \<noteq> Ended" | "pr_tasks p \<noteq> []" | "may_exit p"
    using assms unfolding may_exit_def by (metis in_set_conv_nth)
  then show ?thesis
  proof cases
    case (1 k)
    show ?thesis
    proof (cases "pr_loops p ! k")
      case AtHead
      obtain ph w' where "worker_loop_head (dp_settings D) (pr_worker_id p) (loop_name p k) (pr_stop p) 0 Commits env 1 w = (ph, w')"
        by (cases "worker_loop_head (dp_settings D) (pr_worker_id p) (loop_name p k) (pr_stop p) 0 Commits env 1 w")
      moreover have "(1 / 2 :: real) \<le> 1" "(1 :: real) \<le> 3 / 2" by simp_all
      ultimately show ?thesis using process_step.head_step [OF 1(1) AtHead] by blast
    next
      case (Busy fs)
      show ?thesis
      proof (cases "\<forall>f\<in>set fs. fl_phase f = Done")
        case True
        from process_step.batch_done_step [OF 1(1) Busy this] show ?thesis by blast
      next
        case False
        then obtain i where i: "i < length fs" "fl_phase (fs ! i) \<noteq> Done" by (auto simp: in_set_conv_nth)
        let ?we = "undefined\<lparr>we_env := env, we_limit := undefined\<lparr>le_redis := undefined\<lparr>re_now := n\<rparr>\<rparr>\<rparr>"
        obtain f w' where "worker_step D ?we (fs ! i) w = (f, w')" by (cases "worker_step D ?we (fs ! i) w")
        moreover have "fresh_ids (we_env ?we) (w_db w)" "n \<le> re_now (le_redis (we_limit ?we))" using env by simp_all
        ultimately show ?thesis using process_step.deliver_step [OF 1(1) Busy i] by blast
      qed
    next
      case (Asleep d)
      from process_step.wake_step [OF 1(1) this] show ?thesis by blast
    qed (use 1 in simp)
  next
    case 2
    obtain ph ts w' where "reaper_head (dp_settings D) (pr_stop p) Commits env w = (ph, ts, w')"
      by (cases "reaper_head (dp_settings D) (pr_stop p) Commits env w")
    then show ?thesis using 2 process_step.reaper_step [OF _ env] process_step.reaper_wake_step by (cases "pr_reaper p") blast+
  next
    case 3
    obtain ph w' where "dispatcher_head (dp_settings D) (pr_stop p) Commits env undefined id w = (ph, w')"
      by (cases "dispatcher_head (dp_settings D) (pr_stop p) Commits env undefined id w")
    then show ?thesis
      using 3 process_step.dispatcher_step [where finish_order = id] process_step.dispatcher_wake_step
      by (cases "pr_dispatcher p") (auto, blast+)
  next
    case 4
    then have "hd (pr_tasks p) \<in> set (pr_tasks p)" by simp
    moreover have "n \<le> re_now (undefined\<lparr>re_now := n\<rparr>)" by simp
    ultimately show ?thesis using process_step.invalidate_step by blast
  next
    case 5
    from process_step.exit_step [OF this] show ?thesis by blast
  qed
qed

text \<open>The flights that a process has under way.\<close>

fun phase_flights :: "loop_phase \<Rightarrow> flight list" where
  "phase_flights (Busy fs) = fs"
| "phase_flights _ = []"

definition flights_of :: "process_state \<Rightarrow> flight list" where
  "flights_of p = concat (map phase_flights (pr_loops p))"

definition jobs_in_flight :: "process_state \<Rightarrow> uuid set" where
  "jobs_in_flight p = (\<lambda>f. j_id (fl_job f)) ` set (flights_of p)"

definition phase_jobs :: "loop_phase \<Rightarrow> uuid set" where
  "phase_jobs ph = (\<lambda>f. j_id (fl_job f)) ` set (phase_flights ph)"

lemma jobs_in_flight_phases: "jobs_in_flight p = \<Union> (phase_jobs ` set (pr_loops p))"
  by (auto simp: jobs_in_flight_def flights_of_def phase_jobs_def)

lemma jobs_in_flight_update:
  assumes "phase_jobs ph \<subseteq> phase_jobs (pr_loops p ! k)" "k < length (pr_loops p)" "pr_loops p' = (pr_loops p)[k := ph]"
  shows "jobs_in_flight p' \<subseteq> jobs_in_flight p"
proof -
  have "phase_jobs ` set (pr_loops p') \<subseteq> phase_jobs ` insert ph (set (pr_loops p))"
    unfolding assms(3) by (rule image_mono [OF set_update_subset_insert])
  moreover have "phase_jobs ph \<subseteq> jobs_in_flight p"
    using assms(1) nth_mem [OF assms(2)] unfolding jobs_in_flight_phases by blast
  ultimately show ?thesis unfolding jobs_in_flight_phases by blast
qed

lemma shutdown_claims_nothing:
  assumes step: "process_step D (p, w, n) (p', w', n')" and stop: "pr_stop p"
  shows "jobs_in_flight p' \<subseteq> jobs_in_flight p"
proof -
  have same: "jobs_in_flight p' \<subseteq> jobs_in_flight p" if "pr_loops p' = pr_loops p"
    using that by (simp add: jobs_in_flight_def flights_of_def)
  from step show ?thesis
  proof cases
    case (head_step k u clock fate env ph clock')
    with stop have "ph = Returned" by (simp add: worker_loop_head_def)
    with head_step show ?thesis by (intro jobs_in_flight_update [of Returned p k]) (simp_all add: phase_jobs_def)
  next
    case (deliver_step k fs i we f)
    have "fl_job f = fl_job (fs ! i)"
      using deliver_step(9) deliver_step_job [where f = "fs ! i"] unfolding worker_step_def by (metis fst_conv)
    then have "j_id (fl_job f) \<in> (\<lambda>f. j_id (fl_job f)) ` set fs" using deliver_step(5) by auto
    moreover have "(\<lambda>f. j_id (fl_job f)) ` set (fs[i := f\<lparr>fl_tasks := []\<rparr>]) \<subseteq>
        (\<lambda>f. j_id (fl_job f)) ` insert (f\<lparr>fl_tasks := []\<rparr>) (set fs)"
      by (rule image_mono [OF set_update_subset_insert])
    ultimately have "phase_jobs (Busy (fs[i := f\<lparr>fl_tasks := []\<rparr>])) \<subseteq> phase_jobs (Busy fs)"
      by (simp add: phase_jobs_def insert_absorb)
    with deliver_step show ?thesis by (intro jobs_in_flight_update [of "Busy (fs[i := f\<lparr>fl_tasks := []\<rparr>])" p k]) simp_all
  next
    case (batch_done_step k fs)
    then show ?thesis by (intro jobs_in_flight_update [of AtHead p k]) (simp_all add: phase_jobs_def)
  next
    case (wake_step k d)
    then show ?thesis by (intro jobs_in_flight_update [of AtHead p k]) (simp_all add: phase_jobs_def)
  qed (rule same; simp)+
qed

definition exit_ok :: "process_state \<Rightarrow> bool" where
  "exit_ok p \<longleftrightarrow> (pr_exited p \<longrightarrow> pr_stop p \<and> flights_of p = [] \<and> pr_tasks p = [] \<and> pr_reaper p = Ended \<and>
     pr_dispatcher p = Ended \<and> (\<forall>k<length (pr_loops p). pr_loops p ! k = Returned))"

lemma exited_stays:
  assumes "exit_ok p" "pr_exited p"
  shows "\<not> process_step D (p, w, n) (p', w', n')"
proof
  assume "process_step D (p, w, n) (p', w', n')"
  then show False
    by cases (use assms in \<open>auto simp: exit_ok_def may_exit_def\<close>)
qed

lemma exit_ok_step:
  assumes step: "process_step D (p, w, n) (p', w', n')" and stop: "pr_stop p" and ok: "exit_ok p"
  shows "exit_ok p'"
proof (cases "pr_exited p")
  case True
  with exited_stays [OF ok] step show ?thesis by blast
next
  case False
  from step show ?thesis
  proof cases
    case exit_step
    then have "flights_of p = []" by (auto simp: flights_of_def may_exit_def)
    with exit_step stop show ?thesis by (auto simp: exit_ok_def may_exit_def flights_of_def)
  qed (use False in \<open>auto simp: exit_ok_def\<close>)
qed

text \<open>A loop keeps its batch, flight by flight, until each of its deliveries has ended.\<close>

definition has_batch :: "process_state \<Rightarrow> nat \<Rightarrow> job list \<Rightarrow> bool" where
  "has_batch p k js \<longleftrightarrow> k < length (pr_loops p) \<and> (\<exists>gs. pr_loops p ! k = Busy gs \<and> map fl_job gs = js)"

definition batch_ended :: "process_state \<Rightarrow> nat \<Rightarrow> job list \<Rightarrow> bool" where
  "batch_ended p k js \<longleftrightarrow>
     (\<exists>gs. pr_loops p ! k = Busy gs \<and> map fl_job gs = js \<and> (\<forall>f\<in>set gs. fl_phase f = Done))"

lemma batch_kept:
  assumes step: "process_step D (p, w, n) (p', w', n')" and batch: "has_batch p k js"
  shows "has_batch p' k js \<or> batch_ended p k js"
proof -
  obtain gs where gs: "k < length (pr_loops p)" "pr_loops p ! k = Busy gs" "map fl_job gs = js"
    using batch by (auto simp: has_batch_def)
  have other: "has_batch p' k js" if "pr_loops p' = (pr_loops p)[l := ph]" "l \<noteq> k" for l ph
    using that gs by (auto simp: has_batch_def)
  have same: "has_batch p' k js" if "pr_loops p' = pr_loops p"
    using that gs by (auto simp: has_batch_def)
  from step show ?thesis
  proof cases
    case (head_step l u clock fate env ph clock')
    then have "l \<noteq> k" using gs(2) by auto
    with other [of l ph] head_step show ?thesis by simp
  next
    case (deliver_step l fs i we f)
    show ?thesis
    proof (cases "l = k")
      case True
      have "fl_job f = fl_job (fs ! i)"
        using deliver_step(9) deliver_step_job [where f = "fs ! i"] unfolding worker_step_def by (metis fst_conv)
      then have "map fl_job (fs[i := f\<lparr>fl_tasks := []\<rparr>]) = map fl_job fs"
        using deliver_step(5) by (simp add: map_update list_update_same_conv)
      with True gs deliver_step(1,3,4) show ?thesis by (auto simp: has_batch_def)
    next
      case False
      with other [of l "Busy (fs[i := f\<lparr>fl_tasks := []\<rparr>])"] deliver_step(1) show ?thesis by simp
    qed
  next
    case (batch_done_step l fs)
    show ?thesis
    proof (cases "l = k")
      case True
      with gs batch_done_step(5,6) show ?thesis by (auto simp: batch_ended_def)
    next
      case False
      with other [of l AtHead] batch_done_step(1) show ?thesis by simp
    qed
  next
    case (wake_step l d)
    then have "l \<noteq> k" using gs(2) by auto
    with other [of l AtHead] wake_step(1) show ?thesis by simp
  qed (rule disjI1, rule same, simp)+
qed

lemma batch_ends_first:
  assumes run: "(process_step D)\<^sup>*\<^sup>* x y" and batch: "has_batch (fst x) k js"
  shows "has_batch (fst y) k js \<or> (\<exists>z. (process_step D)\<^sup>*\<^sup>* x z \<and> (process_step D)\<^sup>*\<^sup>* z y \<and> batch_ended (fst z) k js)"
  using run
proof (induction rule: rtranclp_induct)
  case base
  with batch show ?case by simp
next
  case (step y z)
  obtain p w n p' w' n' where yz: "y = (p, w, n)" "z = (p', w', n')" by (cases y; cases z) auto
  from step.IH show ?case
  proof
    assume "has_batch (fst y) k js"
    with batch_kept [OF step.hyps(2) [unfolded yz]] have "has_batch (fst z) k js \<or> batch_ended (fst y) k js" by (simp add: yz)
    with step.hyps show ?thesis by blast
  next
    assume "\<exists>v. (process_step D)\<^sup>*\<^sup>* x v \<and> (process_step D)\<^sup>*\<^sup>* v y \<and> batch_ended (fst v) k js"
    with step.hyps(2) show ?thesis by (meson rtranclp.rtrancl_into_rtrancl)
  qed
qed


end
