(* ===== verification/Fleet.thy ===== *)
theory Fleet
  imports Processes
begin

text \<open>
  Any number of worker processes beside the API, all on one database and one Redis: the deployment as
  it runs. Every step of a process is steps of the system of \<open>Queue_System\<close>, so what holds of every
  reachable state there holds of every fleet.
\<close>

section \<open>Fleets\<close>

record 'r fleet =
  ft_processes :: "process_state list"
  ft_world :: "'r world"
  ft_now :: int
  ft_readers :: "job list"

text \<open>
  The system a fleet is: the flights and the tasks of all its processes together. A pass of a dispatcher
  is one step of its process, so between steps no claimed event is open.
\<close>

definition fleet_system :: "'r fleet \<Rightarrow> 'r system" where
  "fleet_system F =
     \<lparr> sy_world = ft_world F, sy_flights = (\<Sum>p\<leftarrow>ft_processes F. mset (flights_of p)), sy_now = ft_now F,
       sy_tasks = (\<Sum>p\<leftarrow>ft_processes F. mset (pr_tasks p)), sy_readers = ft_readers F,
       sy_events = {#} \<rparr>"

text \<open>
  A process takes a step, starts, or is killed; or a request to the API, or Redis itself, changes the
  world. Requests and Redis are the steps of the system that leave flights and tasks alone.
\<close>

inductive fleet_step :: "'r deployment \<Rightarrow> 'r fleet \<Rightarrow> 'r fleet \<Rightarrow> bool" for D where
  process_moves: "i < length (ft_processes F) \<Longrightarrow>
     process_step D (ft_processes F ! i, ft_world F, ft_now F) (p, w, n) \<Longrightarrow>
     fleet_step D F (F\<lparr>ft_processes := (ft_processes F)[i := p], ft_world := w, ft_now := n\<rparr>)"
| process_starts: "p = start_process (override_concurrency arg (dp_settings D)) exit_when_idle clock \<Longrightarrow>
     fleet_step D F (F\<lparr>ft_processes := ft_processes F @ [p]\<rparr>)"
| process_killed: "fleet_step D F (F\<lparr>ft_processes := take i (ft_processes F) @ drop (Suc i) (ft_processes F)\<rparr>)"
| request_served: "queue_step D (fleet_system F) s \<Longrightarrow> sy_flights s = sy_flights (fleet_system F) \<Longrightarrow>
     sy_tasks s = sy_tasks (fleet_system F) \<Longrightarrow> sy_events s = {#} \<Longrightarrow>
     fleet_step D F (F\<lparr>ft_world := sy_world s, ft_now := sy_now s, ft_readers := sy_readers s\<rparr>)"

definition fleet_init :: "'r deployment \<Rightarrow> 'r fleet \<Rightarrow> bool" where
  "fleet_init D F \<longleftrightarrow> ft_processes F = [] \<and> queue_init D (fleet_system F)"

section \<open>A step of a process is steps of the system\<close>

text \<open>The system around one process, with the flights \<open>A\<close> and tasks \<open>B\<close> of the others.\<close>

definition system_around :: "flight multiset \<Rightarrow> (uuid \<times> int) multiset \<Rightarrow> job list \<Rightarrow> process_state \<Rightarrow> 'r world \<Rightarrow> int \<Rightarrow> 'r system" where
  "system_around A B rs p w n =
     \<lparr> sy_world = w, sy_flights = A + mset (flights_of p), sy_now = n, sy_tasks = B + mset (pr_tasks p), sy_readers = rs, sy_events = {#} \<rparr>"

lemma system_around_simps [simp]:
  "sy_world (system_around A B rs p w n) = w" "sy_now (system_around A B rs p w n) = n"
  "sy_flights (system_around A B rs p w n) = A + mset (flights_of p)"
  "sy_tasks (system_around A B rs p w n) = B + mset (pr_tasks p)"
  "sy_readers (system_around A B rs p w n) = rs" "sy_events (system_around A B rs p w n) = {#}" "system_db (system_around A B rs p w n) = w_db w"
  by (simp_all add: system_around_def system_db_def)

lemma flights_update:
  assumes "k < length (pr_loops p)" "pr_loops p' = (pr_loops p)[k := ph]"
  obtains C where "mset (flights_of p) = C + mset (phase_flights (pr_loops p ! k))"
    "mset (flights_of p') = C + mset (phase_flights ph)"
proof -
  let ?C = "mset (concat (map phase_flights (take k (pr_loops p)))) + mset (concat (map phase_flights (drop (Suc k) (pr_loops p))))"
  have "mset (flights_of p) = ?C + mset (phase_flights (pr_loops p ! k))"
    unfolding flights_of_def by (subst id_take_nth_drop [OF assms(1)]) simp
  moreover have "mset (flights_of p') = ?C + mset (phase_flights ph)"
    unfolding flights_of_def assms(2) by (simp add: upd_conv_take_nth_drop [OF assms(1)])
  ultimately show thesis by (rule that)
qed

lemma flights_of_cong [simp]:
  "flights_of (p\<lparr>pr_stop := a\<rparr>) = flights_of p" "flights_of (p\<lparr>pr_reaper := b\<rparr>) = flights_of p"
  "flights_of (p\<lparr>pr_dispatcher := b\<rparr>) = flights_of p" "flights_of (p\<lparr>pr_tasks := ts\<rparr>) = flights_of p"
  "flights_of (p\<lparr>pr_exited := a\<rparr>) = flights_of p" "flights_of (p\<lparr>pr_last_activity := t\<rparr>) = flights_of p"
  by (simp_all add: flights_of_def)

text \<open>A pass of the dispatcher: a poll, then its dispatches one by one.\<close>

lemma dispatch_all_runs:
  "sy_events s = E + mset evs \<Longrightarrow> (queue_step D)\<^sup>*\<^sup>* s
     (s\<lparr>sy_world := (sy_world s)\<lparr>w_db := snd (dispatch_all (dp_settings D) plan evs err (system_db s))\<rparr>, sy_events := E\<rparr>)"
proof (induction evs arbitrary: err s)
  case Nil
  then have "s\<lparr>sy_world := (sy_world s)\<lparr>w_db := system_db s\<rparr>, sy_events := E\<rparr> = s" by (simp add: system_db_def)
  then show ?case by simp
next
  case (Cons ev evs)
  obtain d t where d: "dispatch (dp_settings D) (plan ev) ev (system_db s) = (d, t)"
    by (cases "dispatch (dp_settings D) (plan ev) ev (system_db s)")
  let ?s = "s\<lparr>sy_world := (sy_world s)\<lparr>w_db := t\<rparr>, sy_events := sy_events s - {#ev#}\<rparr>"
  have evs: "ev \<in># sy_events s" "sy_events ?s = E + mset evs" using Cons.prems by simp_all
  obtain err' where "dispatch_all (dp_settings D) plan (ev # evs) err (system_db s) = dispatch_all (dp_settings D) plan evs err' t"
    using d by (cases d) auto
  with Cons.IH [OF evs(2), of err'] have "(queue_step D)\<^sup>*\<^sup>* ?s
      (s\<lparr>sy_world := (sy_world s)\<lparr>w_db := snd (dispatch_all (dp_settings D) plan (ev # evs) err (system_db s))\<rparr>, sy_events := E\<rparr>)"
    by simp
  with queue_step.dispatch_step [OF evs(1) d] show ?case by (rule converse_rtranclp_into_rtranclp)
qed

lemma dispatcher_runs:
  assumes "dispatcher_run_once (dp_settings D) env fate plan order (system_db s) = (r, t)"
    and order: "\<And>evs. mset (order evs) = mset evs"
  shows "(queue_step D)\<^sup>*\<^sup>* s (s\<lparr>sy_world := (sy_world s)\<lparr>w_db := t\<rparr>\<rparr>)"
proof -
  let ?c = "dp_settings D"
  obtain evs t1 where poll: "begin_tx fate (claim_outbox_events env (webhook_batch_size ?c) (webhook_timeout_seconds ?c * 2))
      (system_db s) = (evs, t1)"
    by (cases "begin_tx fate (claim_outbox_events env (webhook_batch_size ?c) (webhook_timeout_seconds ?c * 2)) (system_db s)")
  let ?s = "s\<lparr>sy_world := (sy_world s)\<lparr>w_db := t1\<rparr>, sy_events := sy_events s + mset (new_events evs)\<rparr>"
  note step = queue_step.poll_outbox_step [OF poll]
  show ?thesis
  proof (cases evs)
    case (Inl x)
    then have "t = t1" using assms(1) by (simp add: dispatcher_run_once_def poll)
    moreover have "?s = s\<lparr>sy_world := (sy_world s)\<lparr>w_db := t1\<rparr>\<rparr>" using Inl by (simp add: new_events_def)
    ultimately show ?thesis using step by simp
  next
    case (Inr es)
    then have t: "t = snd (dispatch_all ?c plan (order es) None t1)"
      using assms(1) by (auto simp: dispatcher_run_once_def poll split: prod.splits option.splits)
    have "sy_events ?s = sy_events s + mset (order es)" using Inr order by (simp add: new_events_def)
    from dispatch_all_runs [OF this, of D plan None]
    have "(queue_step D)\<^sup>*\<^sup>* ?s (s\<lparr>sy_world := (sy_world s)\<lparr>w_db := t\<rparr>\<rparr>)" by (simp add: t)
    with step show ?thesis by (rule converse_rtranclp_into_rtranclp)
  qed
qed

lemma head_runs:
  assumes head: "worker_loop_head (dp_settings D) (pr_worker_id p) loop_id stop clock fate env u w = (ph, w')"
    and k: "k < length (pr_loops p)" "pr_loops p ! k = AtHead"
  shows "(queue_step D)\<^sup>*\<^sup>* (system_around A B rs p w n)
     (system_around A B rs (p\<lparr>pr_loops := (pr_loops p)[k := ph], pr_last_activity := t\<rparr>) w' n)"
proof -
  let ?p = "p\<lparr>pr_loops := (pr_loops p)[k := ph], pr_last_activity := t\<rparr>"
  have "mset (flights_of ?p) = mset (flights_of p) + mset (phase_flights ph)"
    by (rule flights_update [OF k(1), of ?p ph]) (simp_all add: k(2))
  then have around: "system_around A B rs ?p w' n = (system_around A B rs p w n)\<lparr>sy_world := w',
      sy_flights := sy_flights (system_around A B rs p w n) + mset (phase_flights ph)\<rparr>"
    by (simp add: system_around_def add.assoc)
  show ?thesis
  proof (cases stop)
    case True
    then have "ph = Returned" "w' = w" using head by (simp_all add: worker_loop_head_def)
    then show ?thesis unfolding around by (simp add: system_around_def)
  next
    case False
    obtain fs where claim: "claim_batch (dp_settings D) (pr_worker_id p) (Some loop_id) clock fate env w = (fs, w')"
      and ph: "phase_flights ph = new_flights fs"
      using head False by (auto simp: worker_loop_head_def new_flights_def split: prod.splits sum.splits if_splits)
    have "queue_step D (system_around A B rs p w n) ((system_around A B rs p w n)\<lparr>sy_world := w',
        sy_flights := sy_flights (system_around A B rs p w n) + mset (new_flights fs)\<rparr>)"
      by (rule queue_step.claim_step) (use claim in simp)
    then show ?thesis unfolding around ph by (rule r_into_rtranclp)
  qed
qed

lemma deliver_runs:
  assumes k: "k < length (pr_loops p)" "pr_loops p ! k = Busy fs" "i < length fs"
    and step: "fresh_ids (we_env we) (w_db w)" "n \<le> re_now (le_redis (we_limit we))" "worker_step D we (fs ! i) w = (f, w')"
  shows "queue_step D (system_around A B rs p w n)
     (system_around A B rs (p\<lparr>pr_loops := (pr_loops p)[k := Busy (fs[i := f\<lparr>fl_tasks := []\<rparr>])], pr_tasks := pr_tasks p @ fl_tasks f\<rparr>)
        w' (re_now (le_redis (we_limit we))))"
proof -
  let ?p = "p\<lparr>pr_loops := (pr_loops p)[k := Busy (fs[i := f\<lparr>fl_tasks := []\<rparr>])], pr_tasks := pr_tasks p @ fl_tasks f\<rparr>"
  let ?s = "system_around A B rs p w n"
  obtain C where C: "mset (flights_of p) = C + mset fs" "mset (flights_of ?p) = C + mset (fs[i := f\<lparr>fl_tasks := []\<rparr>])"
    by (rule flights_update [OF k(1), of ?p "Busy (fs[i := f\<lparr>fl_tasks := []\<rparr>])"]) (simp_all add: k(2))
  have here: "fs ! i \<in># mset fs" using k(3) by simp
  then have "mset (flights_of ?p) = add_mset (f\<lparr>fl_tasks := []\<rparr>) (mset (flights_of p) - {#fs ! i#})"
    unfolding C by (simp add: mset_update [OF k(3)])
  moreover have "fs ! i \<in># mset (flights_of p)" using here unfolding C by simp
  ultimately have "system_around A B rs ?p w' (re_now (le_redis (we_limit we))) =
      ?s\<lparr>sy_world := w', sy_flights := add_mset (f\<lparr>fl_tasks := []\<rparr>) (sy_flights ?s - {#fs ! i#}),
         sy_tasks := sy_tasks ?s + mset (fl_tasks f), sy_now := re_now (le_redis (we_limit we))\<rparr>"
    by (simp add: system_around_def add.assoc)
  moreover have "fs ! i \<in># sy_flights ?s" using \<open>fs ! i \<in># mset (flights_of p)\<close> by simp
  ultimately show ?thesis
    using queue_step.flight_step [of "fs ! i" ?s we D f w'] step by simp
qed

lemma process_runs:
  assumes "process_step D (p, w, n) (p', w', n')"
  shows "(queue_step D)\<^sup>*\<^sup>* (system_around A B rs p w n) (system_around A B rs p' w' n')"
  using assms
proof cases
  case (head_step k u clock fate env ph clock')
  then show ?thesis by (simp add: head_runs)
next
  case (deliver_step k fs i we f)
  from deliver_runs [OF deliver_step(3-5,7-9)] show ?thesis unfolding deliver_step(1,2) by (rule r_into_rtranclp)
next
  case (batch_done_step k fs)
  obtain C where "mset (flights_of p) = C + mset fs" "mset (flights_of p') = C"
    by (rule flights_update [OF batch_done_step(4), of p' AtHead]) (simp_all add: batch_done_step)
  then have "queue_step D (system_around A B rs p w n) ((system_around A B rs p w n)\<lparr>sy_flights := A + mset (flights_of p'),
      sy_tasks := B + mset (pr_tasks p), sy_events := {#}\<rparr>)"
    by (intro queue_step.crash_step) simp_all
  then show ?thesis by (simp add: batch_done_step system_around_def)
next
  case (wake_step k d)
  have "mset (flights_of p') = mset (flights_of p)"
    by (rule flights_update [OF wake_step(4), of p' AtHead]) (simp_all add: wake_step)
  then show ?thesis by (simp add: wake_step(1-3) system_around_def)
next
  case (reaper_step env fate ph' tasks)
  let ?s = "system_around A B rs p w n"
  show ?thesis
  proof (cases "pr_stop p")
    case True
    with reaper_step show ?thesis by (simp add: reaper_head_def system_around_def)
  next
    case False
    obtain r where run: "reaper_run_once (dp_settings D) fate env w = (r, w')" and tasks: "tasks = new_tasks r"
      using reaper_step(5) False by (auto simp: reaper_head_def new_tasks_def split: prod.splits sum.splits)
    have "queue_step D ?s (?s\<lparr>sy_world := w', sy_tasks := sy_tasks ?s + mset (new_tasks r)\<rparr>)"
      by (rule queue_step.reap_step [where env = env and fate = fate]) (simp_all add: reaper_step run)
    then show ?thesis by (simp add: reaper_step(1,2) tasks system_around_def add.assoc)
  qed
next
  case (dispatcher_step order fate env plan ph')
  let ?s = "system_around A B rs p w n"
  show ?thesis
  proof (cases "pr_stop p")
    case True
    with dispatcher_step show ?thesis by (simp add: dispatcher_head_def system_around_def)
  next
    case False
    obtain r t where run: "dispatcher_run_once (dp_settings D) env fate plan order (w_db w) = (r, t)" and w': "w' = w\<lparr>w_db := t\<rparr>"
      using dispatcher_step(5) False by (auto simp: dispatcher_head_def split: prod.splits)
    have "(queue_step D)\<^sup>*\<^sup>* ?s (?s\<lparr>sy_world := (sy_world ?s)\<lparr>w_db := t\<rparr>\<rparr>)"
      by (rule dispatcher_runs [OF _ dispatcher_step(4)]) (use run in simp)
    then show ?thesis by (simp add: dispatcher_step(1,2) w' system_around_def)
  qed
next
  case (invalidate_step task re)
  let ?s = "system_around A B rs p w n"
  have "queue_step D ?s (?s\<lparr>sy_world := (sy_world ?s)\<lparr>w_redis := run_task (dp_redis D) (dp_settings D) re task (w_redis (sy_world ?s))\<rparr>,
      sy_tasks := sy_tasks ?s - {#task#}, sy_now := re_now re\<rparr>)"
    by (rule queue_step.task_step) (use invalidate_step in simp_all)
  then show ?thesis using invalidate_step(4) by (simp add: invalidate_step(1-3) system_around_def)
qed (simp_all add: system_around_def)

section \<open>A fleet is the system\<close>

lemma sum_list_at:
  fixes g :: "'a \<Rightarrow> 'b multiset"
  assumes "i < length xs"
  obtains C where "(\<Sum>x\<leftarrow>xs. g x) = C + g (xs ! i)" "\<And>y. (\<Sum>x\<leftarrow>xs[i := y]. g x) = C + g y"
    "(\<Sum>x\<leftarrow>take i xs @ drop (Suc i) xs. g x) = C"
proof
  let ?C = "(\<Sum>x\<leftarrow>take i xs. g x) + (\<Sum>x\<leftarrow>drop (Suc i) xs. g x)"
  show "(\<Sum>x\<leftarrow>xs. g x) = ?C + g (xs ! i)" by (subst id_take_nth_drop [OF assms]) simp
  show "(\<Sum>x\<leftarrow>xs[i := y]. g x) = ?C + g y" for y by (simp add: upd_conv_take_nth_drop [OF assms])
  show "(\<Sum>x\<leftarrow>take i xs @ drop (Suc i) xs. g x) = ?C" by simp
qed

lemma fleet_system_simps [simp]:
  "sy_world (fleet_system F) = ft_world F" "sy_now (fleet_system F) = ft_now F" "sy_readers (fleet_system F) = ft_readers F"
  by (simp_all add: fleet_system_def)

lemma fleet_step_runs:
  assumes "fleet_step D F G"
  shows "(queue_step D)\<^sup>*\<^sup>* (fleet_system F) (fleet_system G)"
  using assms
proof cases
  case (process_moves i p w n)
  let ?ps = "ft_processes F"
  obtain A where A: "(\<Sum>q\<leftarrow>?ps. mset (flights_of q)) = A + mset (flights_of (?ps ! i))"
    "\<And>y. (\<Sum>q\<leftarrow>?ps[i := y]. mset (flights_of q)) = A + mset (flights_of y)"
    using sum_list_at [OF process_moves(2), of "\<lambda>q. mset (flights_of q)"] by blast
  obtain B where B: "(\<Sum>q\<leftarrow>?ps. mset (pr_tasks q)) = B + mset (pr_tasks (?ps ! i))"
    "\<And>y. (\<Sum>q\<leftarrow>?ps[i := y]. mset (pr_tasks q)) = B + mset (pr_tasks y)"
    using sum_list_at [OF process_moves(2), of "\<lambda>q. mset (pr_tasks q)"] by blast
  have "fleet_system F = system_around A B (ft_readers F) (?ps ! i) (ft_world F) (ft_now F)"
    "fleet_system G = system_around A B (ft_readers F) p w n"
    by (simp_all add: process_moves(1) fleet_system_def system_around_def A B)
  with process_runs [OF process_moves(3)] show ?thesis by simp
next
  case (process_starts p arg exit_when_idle clock)
  have "flights_of p = []" "pr_tasks p = []"
    by (auto simp: process_starts(2) start_process_def flights_of_def)
  then show ?thesis by (simp add: process_starts(1) fleet_system_def)
next
  case (process_killed i)
  show ?thesis
  proof (cases "i < length (ft_processes F)")
    case True
    have sub: "(\<Sum>q\<leftarrow>take i (ft_processes F) @ drop (Suc i) (ft_processes F). g q) \<subseteq># (\<Sum>q\<leftarrow>ft_processes F. g q)"
      for g :: "process_state \<Rightarrow> 'c multiset"
      by (rule sum_list_at [OF True, of g]) (metis mset_subset_eq_add_left)
    have "queue_step D (fleet_system F) ((fleet_system F)\<lparr>sy_flights := sy_flights (fleet_system G), sy_tasks := sy_tasks (fleet_system G),
        sy_events := {#}\<rparr>)"
      by (rule queue_step.crash_step) (use sub in \<open>simp_all add: process_killed fleet_system_def del: sum_list_append map_append\<close>)
    moreover have "(fleet_system F)\<lparr>sy_flights := sy_flights (fleet_system G), sy_tasks := sy_tasks (fleet_system G), sy_events := {#}\<rparr> =
        fleet_system G"
      by (simp add: process_killed fleet_system_def)
    ultimately show ?thesis by simp
  qed (simp add: process_killed fleet_system_def)
next
  case (request_served s)
  have "fleet_system G = s" using request_served(3-5) by (simp add: request_served(1) fleet_system_def)
  with request_served(2) show ?thesis by simp
qed

text \<open>
  C11: a fleet is the system. Every run of any number of worker processes, each with its claim loops,
  reaper, dispatcher, background invalidations and shutdown, started and killed at any time, beside any
  requests, is a run of the system of flights; so every state a fleet can reach is a state for which
  the invariants of the system hold.
\<close>

theorem fleet_refines_system:
  assumes "reach (fleet_init D) (fleet_step D) F" "(fleet_step D)\<^sup>*\<^sup>* F G"
  shows "reach (queue_init D) (queue_step D) (fleet_system F) \<and> (queue_step D)\<^sup>*\<^sup>* (fleet_system F) (fleet_system G)"
proof
  show "reach (queue_init D) (queue_step D) (fleet_system F)"
    using assms(1)
  proof (induction rule: reach.induct)
    case (reach_init F)
    then show ?case by (simp add: fleet_init_def reach.reach_init)
  next
    case (reach_step F G)
    from reach_run [OF fleet_step_runs [OF reach_step(2)] reach_step(3)] show ?case .
  qed
  show "(queue_step D)\<^sup>*\<^sup>* (fleet_system F) (fleet_system G)"
    using assms(2) by (induction rule: rtranclp_induct) (auto intro: rtranclp_trans fleet_step_runs)
qed

end
