(* ===== verification/Progress.thy ===== *)
theory Progress
  imports Queue_Cache
begin

text \<open>
  No job is lost: from every reachable state every job can still be finished. Claims and passes of the
  reaper are enough for that, so it holds even if every worker that ever claims the job crashes.
\<close>

section \<open>Claims and passes of the reaper\<close>

text \<open>
  The runs in which every worker crashes right after its claim: of the steps of the system they have
  only claims, in which no flight ever moves on, and passes of the reaper.
\<close>

inductive claim_or_reap :: "'r deployment \<Rightarrow> 'r system \<Rightarrow> 'r system \<Rightarrow> bool" for D where
  only_claims: "claim_batch (dp_settings D) worker loop_id clock fate env (sy_world s) = (fs, w) \<Longrightarrow>
     claim_or_reap D s (s\<lparr>sy_world := w, sy_flights := sy_flights s + mset (new_flights fs)\<rparr>)"
| only_reaps: "fresh_ids env (system_db s) \<Longrightarrow> reaper_run_once (dp_settings D) fate env (sy_world s) = (ts, w) \<Longrightarrow>
     claim_or_reap D s (s\<lparr>sy_world := w, sy_tasks := sy_tasks s + mset (new_tasks ts)\<rparr>)"

lemma claim_or_reap_step: "claim_or_reap D s t \<Longrightarrow> queue_step D s t"
  by (cases rule: claim_or_reap.cases) (auto intro: queue_step.claim_step queue_step.reap_step)

lemma claim_or_reap_runs: "(claim_or_reap D)\<^sup>*\<^sup>* s t \<Longrightarrow> (queue_step D)\<^sup>*\<^sup>* s t"
  by (erule rtranclp_mono [THEN predicate2D, rotated]) (auto intro: claim_or_reap_step)

section \<open>One pass gets nearer\<close>

definition jobs_in :: "job_status \<Rightarrow> db \<Rightarrow> nat" where
  "jobs_in st s = length (filter (\<lambda>j. j_status j = st) (jobs s))"

lemma fewer_after_update:
  assumes "x \<in> set xs" "p x" "Q x" "\<And>y. y \<in> set xs \<Longrightarrow> p y \<Longrightarrow> \<not> Q (f y)"
  shows "length (filter Q (update_where p f xs)) < length (filter Q xs)"
proof -
  have "length (filter Q (update_where p f ys)) \<le> length (filter Q ys) \<and>
      (x \<in> set ys \<longrightarrow> length (filter Q (update_where p f ys)) < length (filter Q ys))" if "set ys \<subseteq> set xs" for ys
    using that
  proof (induction ys)
    case (Cons y ys)
    then have "length (filter Q (update_where p f ys)) \<le> length (filter Q ys)"
      "x \<in> set ys \<longrightarrow> length (filter Q (update_where p f ys)) < length (filter Q ys)" by simp_all
    with assms(2-4) Cons.prems show ?case by (auto simp: update_where_def)
  qed (simp add: update_where_def)
  with assms(1) show ?thesis by blast
qed

text \<open>A selection of some rows, and what its update does to a row \<open>j\<close> that qualified.\<close>

lemma selected_pass:
  assumes ids: "distinct (map j_id (jobs s))" and sel: "sql_select n key tie p (jobs s) = Inr sel" and n: "1 \<le> n"
    and j: "j \<in> set (jobs s)" "p j"
    and f: "\<And>k. p k \<Longrightarrow> j_status k = st \<and> j_status (f k) \<noteq> st" and t: "jobs t = update_where (\<lambda>k. j_id k \<in> set (map j_id sel)) f (jobs s)"
  shows "j \<in> set sel \<and> f j \<in> set (jobs t) \<or> j \<in> set (jobs t) \<and> jobs_in st t < jobs_in st s"
proof -
  let ?hit = "\<lambda>k. j_id k \<in> set (map j_id sel)"
  have sub: "set sel \<subseteq> set (jobs s)" "\<And>k. k \<in> set sel \<Longrightarrow> p k" using sql_selectD [OF sel] by auto
  have hit: "?hit k \<longleftrightarrow> k \<in> set sel" if "k \<in> set (jobs s)" for k by (rule selected_row [OF ids that sub(1)])
  have "filter p (jobs s) \<noteq> []" using j by (auto simp: filter_empty_conv)
  then have "0 < length sel" using sql_select_length [OF sel] n by (cases "filter p (jobs s)") auto
  then obtain k where k: "k \<in> set sel" by (cases sel) auto
  have row: "(if ?hit j then f j else j) \<in> set (jobs t)" unfolding t set_update_where using j(1) by (rule imageI)
  have "jobs_in st t < jobs_in st s"
    unfolding jobs_in_def t
    by (rule fewer_after_update [where x = k]) (use k sub hit f in auto)
  with row hit [OF j(1)] show ?thesis by (auto split: if_splits)
qed

text \<open>What a claim and a pass of the reaper make of a row.\<close>

definition claimed_copy :: "job \<Rightarrow> job \<Rightarrow> bool" where
  "claimed_copy j k \<longleftrightarrow> j_id k = j_id j \<and> j_status k = PROCESSING \<and> j_attempts k = j_attempts j + 1 \<and> j_max_attempts k = j_max_attempts j"

definition reaped_copy :: "job \<Rightarrow> job \<Rightarrow> bool" where
  "reaped_copy j k \<longleftrightarrow> j_id k = j_id j \<and> j_status k = (if j_attempts j < j_max_attempts j then PENDING else DEAD_LETTERED) \<and>
     j_attempts k = j_attempts j \<and> j_max_attempts k = j_max_attempts j \<and> j_payload k = j_payload j"

text \<open>A step that reaches \<open>P\<close> for the row \<open>j\<close>, or leaves \<open>j\<close> alone and takes another row out of its way.\<close>

definition nearer :: "job_status \<Rightarrow> ('r system \<Rightarrow> job \<Rightarrow> bool) \<Rightarrow> job \<Rightarrow> 'r system \<Rightarrow> 'r system \<Rightarrow> bool" where
  "nearer st P j s t \<longleftrightarrow> (\<exists>k\<in>set (jobs (system_db t)). P t k) \<or>
     j \<in> set (jobs (system_db t)) \<and> jobs_in st (system_db t) < jobs_in st (system_db s)"

text \<open>The row that a claim returns is in the hands of a flight that has the whole lease before it.\<close>

definition in_flight :: "settings \<Rightarrow> job \<Rightarrow> 'r system \<Rightarrow> job \<Rightarrow> bool" where
  "in_flight c j t k \<longleftrightarrow> claimed_copy j k \<and> j_claim_token k \<noteq> None \<and> j_payload k = j_payload j \<and>
     start_flight [] (lease_seconds c) k \<in># sy_flights t"

lemma system_ids: "reach (queue_init D) (queue_step D) s \<Longrightarrow> distinct (map j_id (jobs (system_db s)))"
  using db_invD(1) [OF system_okD(2) [OF reach_ok]] by (simp add: job_ids_def)

lemma claim_pass:
  assumes r: "reach (queue_init D) (queue_step D) s" and batch: "1 \<le> batch_size (dp_settings D)"
    and j: "j \<in> set (jobs (system_db s))" "j_status j = PENDING"
  shows "\<exists>t. claim_or_reap D s t \<and> nearer PENDING (in_flight (dp_settings D) j) j s t"
proof -
  let ?c = "dp_settings D" and ?db = "system_db s"
  let ?env = "undefined\<lparr>now := j_run_at j, locked := (\<lambda>_. False)\<rparr>"
  obtain due where due: "select_due ?env (batch_size ?c) ?db = Inr due"
    using sql_select_total [of "batch_size ?c"] batch unfolding select_due_def by fastforce
  let ?f = "claim_row ?env [] (lease_seconds ?c)"
  let ?t = "?db\<lparr>jobs := update_where (\<lambda>k. j_id k \<in> set (map j_id due)) ?f (jobs ?db)\<rparr>"
  obtain cs where claim: "claim_due_jobs ?env [] (batch_size ?c) (lease_seconds ?c) ?db = Inr (cs, ?t)"
    by (simp add: claim_due_jobs_def due Let_def)
  have cs: "set cs = ?f ` set due"
    using claim_due_jobsE [OF claim system_ids [OF r, folded job_ids_def]] due by (metis sum.inject(2))
  let ?fs = "map (start_flight [] (lease_seconds ?c)) cs"
  have "claim_batch ?c [] None 0 Commits ?env (sy_world s) = (Inr ?fs, (sy_world s)\<lparr>w_db := ?t\<rparr>)"
    using claim by (simp add: claim_batch_def in_tx_def begin_tx_def str_or_def system_db_def)
  note step = claim_or_reap.only_claims [OF this]
  let ?u = "s\<lparr>sy_world := (sy_world s)\<lparr>w_db := ?t\<rparr>, sy_flights := sy_flights s + mset (new_flights (Inr ?fs))\<rparr>"
  have db: "system_db ?u = ?t" by (simp add: system_db_def)
  have "j \<in> set due \<and> ?f j \<in> set (jobs ?t) \<or> j \<in> set (jobs ?t) \<and> jobs_in PENDING ?t < jobs_in PENDING ?db"
    by (rule selected_pass [where f = ?f, OF system_ids [OF r] due [unfolded select_due_def] batch j(1)])
      (use j(2) in \<open>auto simp: is_due_def\<close>)
  moreover have "in_flight ?c j ?u (?f j)" if "j \<in> set due"
    using that cs by (auto simp: in_flight_def claimed_copy_def claim_row_def new_flights_def)
  ultimately have "nearer PENDING (in_flight ?c j) j s ?u" unfolding nearer_def db by blast
  with step show ?thesis by blast
qed

lemma reap_pass:
  assumes r: "reach (queue_init D) (queue_step D) s" and batch: "1 \<le> reaper_batch_size (dp_settings D)"
    and j: "j \<in> set (jobs (system_db s))" "j_status j = PROCESSING"
  shows "\<exists>t. claim_or_reap D s t \<and> nearer PROCESSING (\<lambda>t. reaped_copy j) j s t"
proof -
  let ?c = "dp_settings D" and ?db = "system_db s"
  have inv: "db_inv {} ?db" by (rule system_okD(2) [OF reach_ok [OF r]])
  obtain e0 where e0: "fresh_ids e0 ?db" using ex_fresh_env by blast
  let ?env = "e0\<lparr>now := coalesce (j_lease_expires_at j) 0 + 1, locked := (\<lambda>_. False)\<rparr>"
  have fresh: "fresh_ids ?env ?db" using e0 by (simp add: fresh_ids_def)
  have late: "lease_expired ?env j"
    using db_invD(5) [OF inv j(1)] j(2) by (auto simp: lease_expired_def row_ok_def claimed_def)
  obtain expired where expired: "select_expired ?env (reaper_batch_size ?c) ?db = Inr expired"
    using sql_select_total [of "reaper_batch_size ?c"] batch unfolding select_expired_def by fastforce
  obtain ts t where run: "reaper_run_once ?c Commits ?env (sy_world s) = (Inr ts, (sy_world s)\<lparr>w_db := t\<rparr>)"
    and t: "jobs t = update_where (\<lambda>k. j_id k \<in> set (map j_id expired)) (reaped_row ?env) (jobs ?db)"
    using reaper_runs [of "sy_world s" ?env ?c expired] inv fresh expired by (auto simp: system_db_def)
  let ?u = "s\<lparr>sy_world := (sy_world s)\<lparr>w_db := t\<rparr>, sy_tasks := sy_tasks s + mset (new_tasks (Inr ts))\<rparr>"
  have db: "system_db ?u = t" by (simp add: system_db_def)
  have "j \<in> set expired \<and> reaped_row ?env j \<in> set (jobs t) \<or> j \<in> set (jobs t) \<and> jobs_in PROCESSING t < jobs_in PROCESSING ?db"
    by (rule selected_pass [where f = "reaped_row ?env", OF system_ids [OF r] expired [unfolded select_expired_def] batch j(1)])
      (use late in \<open>auto simp: t, auto simp: lease_expired_def reaped_row_def\<close>)
  moreover have "reaped_copy j (reaped_row ?env j)" by (simp add: reaped_copy_def reaped_row_def exhausted_def)
  ultimately have "nearer PROCESSING (\<lambda>t. reaped_copy j) j s ?u" unfolding nearer_def db by blast
  with claim_or_reap.only_reaps [OF fresh run] show ?thesis by blast
qed

lemma reach_runs:
  assumes "(queue_step D)\<^sup>*\<^sup>* s t" "reach (queue_init D) (queue_step D) s"
  shows "reach (queue_init D) (queue_step D) t"
  using assms by (induction rule: rtranclp_induct) (auto intro: reach_step)

lemma reach_claims:
  "(claim_or_reap D)\<^sup>*\<^sup>* s t \<Longrightarrow> reach (queue_init D) (queue_step D) s \<Longrightarrow> reach (queue_init D) (queue_step D) t"
  by (rule reach_runs [OF claim_or_reap_runs])

section \<open>A job can always be finished\<close>

lemma eventually_by_passes:
  assumes pass: "\<And>s. reach (queue_init D) (queue_step D) s \<Longrightarrow> j \<in> set (jobs (system_db s)) \<Longrightarrow>
      \<exists>t. claim_or_reap D s t \<and> nearer st P j s t"
  shows "reach (queue_init D) (queue_step D) s \<Longrightarrow> j \<in> set (jobs (system_db s)) \<Longrightarrow>
     \<exists>t k. (claim_or_reap D)\<^sup>*\<^sup>* s t \<and> k \<in> set (jobs (system_db t)) \<and> P t k"
proof (induction "jobs_in st (system_db s)" arbitrary: s rule: less_induct)
  case less
  obtain t where t: "claim_or_reap D s t" "nearer st P j s t" using pass [OF less.prems] by blast
  from t(2) show ?case
    unfolding nearer_def
  proof
    assume "\<exists>k\<in>set (jobs (system_db t)). P t k"
    with t(1) show ?case by blast
  next
    assume "j \<in> set (jobs (system_db t)) \<and> jobs_in st (system_db t) < jobs_in st (system_db s)"
    with less.hyps [of t] reach_step [OF less.prems(1) claim_or_reap_step [OF t(1)]] show ?case
      using converse_rtranclp_into_rtranclp [where r = "claim_or_reap D", OF t(1)] by blast
  qed
qed

text \<open>One round: claimed, and taken back with one attempt used up.\<close>

lemma crash_round:
  assumes batch: "1 \<le> batch_size (dp_settings D)" "1 \<le> reaper_batch_size (dp_settings D)"
    and r: "reach (queue_init D) (queue_step D) s" and j: "j \<in> set (jobs (system_db s))" "j_status j = PENDING"
  shows "\<exists>t k. (claim_or_reap D)\<^sup>*\<^sup>* s t \<and> k \<in> set (jobs (system_db t)) \<and>
     j_id k = j_id j \<and> j_attempts k = j_attempts j + 1 \<and> j_max_attempts k = j_max_attempts j \<and>
     j_status k = (if j_attempts j + 1 < j_max_attempts j then PENDING else DEAD_LETTERED)"
proof -
  obtain t k where t: "(claim_or_reap D)\<^sup>*\<^sup>* s t" "k \<in> set (jobs (system_db t))" "claimed_copy j k"
    using eventually_by_passes [OF claim_pass [OF _ batch(1) _ j(2)] r j(1)] unfolding in_flight_def by blast
  have "j_status k = PROCESSING" using t(3) by (simp add: claimed_copy_def)
  from eventually_by_passes [OF reap_pass [OF _ batch(2) _ this] reach_claims [OF t(1) r] t(2)]
  obtain u l where u: "(claim_or_reap D)\<^sup>*\<^sup>* t u" "l \<in> set (jobs (system_db u))" "reaped_copy k l" by blast
  from rtranclp_trans [OF t(1) u(1)] u(2,3) t(3) show ?thesis
    by (intro exI [of _ u] exI [of _ l]) (simp add: claimed_copy_def reaped_copy_def)
qed

lemma pending_job_finishes:
  assumes batch: "1 \<le> batch_size (dp_settings D)" "1 \<le> reaper_batch_size (dp_settings D)"
  shows "reach (queue_init D) (queue_step D) s \<Longrightarrow> j \<in> set (jobs (system_db s)) \<Longrightarrow> j_status j = PENDING \<Longrightarrow>
     \<exists>t k. (claim_or_reap D)\<^sup>*\<^sup>* s t \<and> k \<in> set (jobs (system_db t)) \<and> j_id k = j_id j \<and> j_status k = DEAD_LETTERED \<and>
       j_attempts k = max (j_attempts j + 1) (j_max_attempts j)"
proof (induction "nat (j_max_attempts j - j_attempts j)" arbitrary: s j rule: less_induct)
  case less
  obtain t k where t: "(claim_or_reap D)\<^sup>*\<^sup>* s t" "k \<in> set (jobs (system_db t))"
    and k: "j_id k = j_id j" "j_attempts k = j_attempts j + 1" "j_max_attempts k = j_max_attempts j"
      "j_status k = (if j_attempts j + 1 < j_max_attempts j then PENDING else DEAD_LETTERED)"
    using crash_round [OF batch less.prems] by blast
  show ?case
  proof (cases "j_attempts j + 1 < j_max_attempts j")
    case True
    with k have "nat (j_max_attempts k - j_attempts k) < nat (j_max_attempts j - j_attempts j)" "j_status k = PENDING" by simp_all
    from less.hyps [OF this(1) reach_claims [OF t(1) less.prems(1)] t(2) this(2)]
    obtain u l where "(claim_or_reap D)\<^sup>*\<^sup>* t u" "l \<in> set (jobs (system_db u))" "j_id l = j_id k" "j_status l = DEAD_LETTERED"
      "j_attempts l = max (j_attempts k + 1) (j_max_attempts k)" by blast
    with rtranclp_trans [OF t(1)] True k show ?thesis by (intro exI [of _ u] exI [of _ l]) auto
  next
    case False
    with t k show ?thesis by (intro exI [of _ t] exI [of _ k]) auto
  qed
qed

lemma get_job_row:
  assumes "reach (queue_init D) (queue_step D) s" "j \<in> set (jobs (system_db s))"
  shows "get_job (system_db s) (j_id j) = Some j"
  using get_job_Some [OF _ assms(2)] system_ids [OF assms(1)] by (simp add: job_ids_def)


end
