(* ===== verification/Outbox_Progress.thy ===== *)
theory Outbox_Progress
  imports Progress
begin

text \<open>
  No webhook event is lost in the outbox: a pending event can be delivered with one success of its
  receiver, and without one it is given up, after the configured number of attempts, even if the
  computation of its backoff fails; and what is dispatched is what was recorded.
\<close>

section \<open>Passes of a dispatcher\<close>

text \<open>
  Runs of polls and of dispatches of the events they claimed, each after a POST that ends in \<open>answer\<close>: a
  receiver that refuses every event, say, or one that accepts it.
\<close>

definition accepts :: "http_outcome \<Rightarrow> bool" where
  "accepts out \<longleftrightarrow> post_error out = Inr None"

definition refuses :: "http_outcome \<Rightarrow> bool" where
  "refuses out \<longleftrightarrow> (\<exists>err. post_error out = Inr (Some err))"

inductive webhook_pass :: "'r deployment \<Rightarrow> (http_outcome \<Rightarrow> bool) \<Rightarrow> 'r system \<Rightarrow> 'r system \<Rightarrow> bool" for D answer where
  polls: "begin_tx fate (claim_outbox_events env (webhook_batch_size (dp_settings D)) (webhook_timeout_seconds (dp_settings D) * 2))
       (system_db s) = (evs, t) \<Longrightarrow>
     webhook_pass D answer s (s\<lparr>sy_world := (sy_world s)\<lparr>w_db := t\<rparr>, sy_events := sy_events s + mset (new_events evs)\<rparr>)"
| posts: "ev \<in># sy_events s \<Longrightarrow> answer (de_http de) \<Longrightarrow> dispatch (dp_settings D) de ev (system_db s) = (d, t) \<Longrightarrow>
     webhook_pass D answer s (s\<lparr>sy_world := (sy_world s)\<lparr>w_db := t\<rparr>, sy_events := sy_events s - {#ev#}\<rparr>)"

lemma webhook_pass_step: "webhook_pass D answer s t \<Longrightarrow> queue_step D s t"
  by (erule webhook_pass.cases) (auto intro: queue_step.poll_outbox_step queue_step.dispatch_step)

section \<open>Claimed\<close>

definition due_events :: "time \<Rightarrow> db \<Rightarrow> nat" where
  "due_events n s = length (filter (\<lambda>q. o_status q = OutboxPending \<and> o_next_attempt_at q \<le> n) (webhook_outbox s))"

definition counted_up :: "outbox_row \<Rightarrow> outbox_row \<Rightarrow> bool" where
  "counted_up r k \<longleftrightarrow> o_id k = o_id r \<and> o_status k = OutboxPending \<and> o_attempts k = o_attempts r + 1"

definition event_claimed_as :: "outbox_row \<Rightarrow> 'r system \<Rightarrow> outbox_row \<Rightarrow> bool" where
  "event_claimed_as r t k \<longleftrightarrow> counted_up r k \<and> outbox_event_of k \<in># sy_events t"

text \<open>A poll claims the event, or others that were due before it.\<close>

lemma poll_pass:
  assumes batch: "1 \<le> webhook_batch_size (dp_settings D)" and timeout: "0 < webhook_timeout_seconds (dp_settings D)"
    and r: "r \<in> set (webhook_outbox (system_db s))" "o_status r = OutboxPending"
  shows "\<exists>t. webhook_pass D answer s t \<and> ((\<exists>k\<in>set (webhook_outbox (system_db t)). event_claimed_as r t k) \<or>
     r \<in> set (webhook_outbox (system_db t)) \<and>
       due_events (o_next_attempt_at r) (system_db t) < due_events (o_next_attempt_at r) (system_db s))"
proof -
  let ?c = "dp_settings D" and ?db = "system_db s" and ?n = "o_next_attempt_at r"
  let ?env = "undefined\<lparr>now := ?n, locked := (\<lambda>_. False)\<rparr>" and ?lease = "webhook_timeout_seconds ?c * 2"
  obtain due where due: "select_due_events ?env (webhook_batch_size ?c) ?db = Inr due"
    using sql_select_total [of "webhook_batch_size ?c"] batch unfolding select_due_events_def by fastforce
  let ?hit = "\<lambda>q. o_id q \<in> set (map o_id due)"
  let ?t = "?db\<lparr>webhook_outbox := update_where ?hit (lease_row ?env ?lease) (webhook_outbox ?db)\<rparr>"
  obtain evs where claim: "claim_outbox_events ?env (webhook_batch_size ?c) ?lease ?db = Inr (evs, ?t)"
    and evs: "set evs = outbox_event_of ` lease_row ?env ?lease ` {q \<in> set (webhook_outbox ?db). ?hit q}"
    by (simp add: claim_outbox_events_def due Let_def returning_def)
  from claim have "begin_tx Commits (claim_outbox_events ?env (webhook_batch_size ?c) ?lease) ?db = (Inr evs, ?t)"
    by (simp add: begin_tx_def)
  note step = webhook_pass.polls [OF this, of answer]
  let ?u = "s\<lparr>sy_world := (sy_world s)\<lparr>w_db := ?t\<rparr>, sy_events := sy_events s + mset (new_events (Inr evs))\<rparr>"
  have "filter (\<lambda>q. outbox_due ?env q \<and> \<not> locked ?env (o_id q)) (webhook_outbox ?db) \<noteq> []"
    using r by (auto simp: filter_empty_conv outbox_due_def)
  then have "0 < length due" using sql_select_length [OF due [unfolded select_due_events_def]] batch by auto
  then obtain k where k: "k \<in> set due" by (cases due) auto
  note k' = select_due_eventsD [OF due k]
  have "due_events ?n ?t < due_events ?n ?db"
    unfolding due_events_def
    by (simp, rule fewer_after_update [where x = k]) (use k k' timeout in \<open>auto simp: outbox_due_def lease_row_def\<close>)
  moreover have "(if ?hit r then lease_row ?env ?lease r else r) \<in> set (webhook_outbox ?t)"
    using r(1) by (simp add: rev_image_eqI)
  moreover have "event_claimed_as r ?u (lease_row ?env ?lease r)" if "?hit r"
  proof -
    have "outbox_event_of (lease_row ?env ?lease r) \<in> set evs" unfolding evs using r(1) that by blast
    with r(2) show ?thesis by (simp add: event_claimed_as_def counted_up_def lease_row_def new_events_def)
  qed
  ultimately have "(\<exists>k\<in>set (webhook_outbox ?t). event_claimed_as r ?u k) \<or>
      r \<in> set (webhook_outbox ?t) \<and> due_events ?n ?t < due_events ?n ?db"
    by (auto split: if_splits)
  with step show ?thesis by (intro exI [of _ ?u]) (simp add: system_db_def)
qed

lemma event_claimed:
  assumes batch: "1 \<le> webhook_batch_size (dp_settings D)" and timeout: "0 < webhook_timeout_seconds (dp_settings D)"
    and pending: "o_status r = OutboxPending"
  shows "r \<in> set (webhook_outbox (system_db s)) \<Longrightarrow>
     \<exists>t k. (webhook_pass D answer)\<^sup>*\<^sup>* s t \<and> k \<in> set (webhook_outbox (system_db t)) \<and> event_claimed_as r t k"
proof (induction "due_events (o_next_attempt_at r) (system_db s)" arbitrary: s rule: less_induct)
  case less
  obtain t where t: "webhook_pass D answer s t" and "(\<exists>k\<in>set (webhook_outbox (system_db t)). event_claimed_as r t k) \<or>
     r \<in> set (webhook_outbox (system_db t)) \<and>
       due_events (o_next_attempt_at r) (system_db t) < due_events (o_next_attempt_at r) (system_db s)"
    using poll_pass [OF batch timeout less.prems pending, of answer] by blast
  then show ?case
  proof (elim disjE conjE)
    assume "\<exists>k\<in>set (webhook_outbox (system_db t)). event_claimed_as r t k"
    with t show ?thesis by blast
  next
    assume "r \<in> set (webhook_outbox (system_db t))"
      "due_events (o_next_attempt_at r) (system_db t) < due_events (o_next_attempt_at r) (system_db s)"
    from less.hyps [OF this(2,1)] show ?thesis
      using converse_rtranclp_into_rtranclp [where r = "webhook_pass D answer", OF t] by blast
  qed
qed

section \<open>Dispatched\<close>

definition answered :: "http_outcome \<Rightarrow> dispatch_env" where
  "answered out = \<lparr>de_http = out, de_env = undefined, de_fate = Commits, de_sample = 0\<rparr>"

lemma dispatch_success:
  assumes k: "k \<in> set (webhook_outbox (system_db s))" "outbox_event_of k \<in># sy_events s"
  shows "\<exists>t q. webhook_pass D accepts s t \<and> q \<in> set (webhook_outbox (system_db t)) \<and> o_id q = o_id k \<and>
     o_status q = OutboxDelivered \<and> o_attempts q = o_attempts k"
proof -
  let ?t = "mark_delivered undefined (o_id k) (system_db s)"
  have "dispatch (dp_settings D) (answered (HttpResponse True 200)) (outbox_event_of k) (system_db s) = (Inr (), ?t)"
    by (simp add: dispatch_def answered_def post_error_def begin_tx_def)
  note step = webhook_pass.posts [where answer = accepts, OF k(2) _ this]
  have "delivered_row undefined k \<in> set (webhook_outbox ?t)"
    using k(1) by (simp add: mark_delivered_def rev_image_eqI)
  then show ?thesis
    by (intro exI conjI) (rule step, simp add: accepts_def answered_def post_error_def, simp add: system_db_def,
      simp_all add: delivered_row_def)
qed

text \<open>Without a success the event is given up, put back, or, when the backoff overflows, left as it is.\<close>

lemma dispatch_failure:
  assumes k: "k \<in> set (webhook_outbox (system_db s))" "o_status k = OutboxPending" "outbox_event_of k \<in># sy_events s"
  shows "\<exists>t q. webhook_pass D refuses s t \<and> q \<in> set (webhook_outbox (system_db t)) \<and> o_id q = o_id k \<and> o_attempts q = o_attempts k \<and>
     o_status q = (if webhook_max_attempts (dp_settings D) \<le> o_attempts k then OutboxFailed else OutboxPending)"
proof -
  let ?c = "dp_settings D" and ?de = "answered (HttpResponse False 500)" and ?err = "''HTTP '' @ show_int 500"
  have attempts: "e_attempts (outbox_event_of k) = o_attempts k" by (simp add: outbox_event_of_def)
  obtain d t where t: "dispatch ?c ?de (outbox_event_of k) (system_db s) = (d, t)"
    and q: "\<exists>q\<in>set (webhook_outbox t). o_id q = o_id k \<and> o_attempts q = o_attempts k \<and>
      o_status q = (if webhook_max_attempts ?c \<le> o_attempts k then OutboxFailed else OutboxPending)"
  proof (cases "retry_delay_of ?c (outbox_event_of k) 0")
    case (Inl x)
    then have "dispatch ?c ?de (outbox_event_of k) (system_db s) = (Inl x, system_db s)"
      by (simp add: dispatch_def answered_def post_error_def begin_tx_def)
    moreover have "\<not> webhook_max_attempts ?c \<le> o_attempts k" using Inl by (auto simp: retry_delay_of_def attempts)
    ultimately show thesis using k by (intro that [of "Inl x" "system_db s"]) auto
  next
    case (Inr delay)
    let ?t = "mark_attempt_failed undefined (o_id k) ?err delay (system_db s)"
    have "dispatch ?c ?de (outbox_event_of k) (system_db s) = (Inr (), ?t)"
      using Inr by (simp add: dispatch_def answered_def post_error_def begin_tx_def)
    moreover have "attempt_failed_row undefined ?err delay k \<in> set (webhook_outbox ?t)"
      using k(1) by (simp add: mark_attempt_failed_def rev_image_eqI)
    moreover have "delay = None \<longleftrightarrow> webhook_max_attempts ?c \<le> o_attempts k"
      using Inr by (auto simp: retry_delay_of_def attempts bind_result_Inr_iff split: if_splits)
    ultimately show thesis 
      by (intro that [of "Inr ()" ?t] bexI [of _ "attempt_failed_row undefined ?err delay k"]) (simp_all add: attempt_failed_row_def)
  qed
  have "refuses (de_http ?de)" by (simp add: refuses_def answered_def post_error_def)
  from webhook_pass.posts [where answer = refuses, OF k(3) this t] q show ?thesis by (fastforce simp: system_db_def)
qed

lemma event_given_up:
  assumes batch: "1 \<le> webhook_batch_size (dp_settings D)" and timeout: "0 < webhook_timeout_seconds (dp_settings D)"
  shows "r \<in> set (webhook_outbox (system_db s)) \<Longrightarrow> o_status r = OutboxPending \<Longrightarrow>
     \<exists>t q. (webhook_pass D refuses)\<^sup>*\<^sup>* s t \<and> q \<in> set (webhook_outbox (system_db t)) \<and> o_id q = o_id r \<and> o_status q = OutboxFailed \<and>
       o_attempts q = max (o_attempts r + 1) (webhook_max_attempts (dp_settings D))"
proof (induction "nat (webhook_max_attempts (dp_settings D) - o_attempts r)" arbitrary: s r rule: less_induct)
  case less
  let ?max = "webhook_max_attempts (dp_settings D)"
  obtain t k where t: "(webhook_pass D refuses)\<^sup>*\<^sup>* s t" and k: "k \<in> set (webhook_outbox (system_db t))" "event_claimed_as r t k"
    using event_claimed [OF batch timeout less.prems(2,1)] by blast
  then obtain u q where u: "webhook_pass D refuses t u" and q: "q \<in> set (webhook_outbox (system_db u))" "o_id q = o_id r"
      "o_attempts q = o_attempts r + 1" "o_status q = (if ?max \<le> o_attempts r + 1 then OutboxFailed else OutboxPending)"
    using dispatch_failure [of k t D] by (auto simp: event_claimed_as_def counted_up_def)
  have run: "(webhook_pass D refuses)\<^sup>*\<^sup>* s u" using t u by (rule rtranclp.rtrancl_into_rtrancl)
  show ?case
  proof (cases "?max \<le> o_attempts r + 1")
    case True
    with run q show ?thesis by (intro exI [of _ u] exI [of _ q]) (simp add: max_def)
  next
    case False
    with q have "nat (?max - o_attempts q) < nat (?max - o_attempts r)" "o_status q = OutboxPending" by simp_all
    from less.hyps [OF this(1) q(1) this(2)] obtain v p where "(webhook_pass D refuses)\<^sup>*\<^sup>* u v" "p \<in> set (webhook_outbox (system_db v))"
      "o_id p = o_id q" "o_status p = OutboxFailed" "o_attempts p = max (o_attempts q + 1) ?max" by blast
    with rtranclp_trans [OF run] False q(2,3) show ?thesis by (intro exI [of _ v] exI [of _ p]) auto
  qed
qed


section \<open>What is dispatched and given up\<close>

text \<open>
  C32: in every reachable state what a dispatcher holds is what was recorded: each claimed event is a row of the
  outbox, with the job, the kind, the payload and the receiver written with the result of its attempt,
  claimed under a number that the row has reached; and an event has been given up only after at
  least \<open>webhook_max_attempts\<close> claims, wherever dispatchers overlap, crash or answer late.
\<close>

theorem events_stay_as_recorded:
  assumes "reach (queue_init D) (queue_step D) s"
  shows "(\<forall>ev\<in>#sy_events s. \<exists>r\<in>set (webhook_outbox (system_db s)). e_id ev = o_id r \<and> e_job_id ev = o_job_id r \<and>
       e_event ev = event_value (o_event r) \<and> e_payload ev = o_payload r \<and> e_target_url ev = o_target_url r \<and>
       e_attempts ev \<le> o_attempts r) \<and>
    (\<forall>r\<in>set (webhook_outbox (system_db s)). o_status r = OutboxFailed \<longrightarrow> webhook_max_attempts (dp_settings D) \<le> o_attempts r)"
proof -
  have "outbox_ok (dp_settings D) (system_db s) (sy_events s)" by (rule system_okD(5) [OF reach_ok [OF assms]])
  moreover have "e_id ev = o_id r \<and> e_job_id ev = o_job_id r \<and> e_event ev = event_value (o_event r) \<and>
      e_payload ev = o_payload r \<and> e_target_url ev = o_target_url r \<and> e_attempts ev \<le> o_attempts r"
    if "event_of_row ev r" for ev r
    using that by (cases ev) (simp add: event_of_row_def outbox_event_of_def)
  ultimately show ?thesis unfolding outbox_ok_def by blast
qed

end
