(* ===== verification/Delivery_Progress.thy ===== *)
theory Delivery_Progress
  imports Progress
begin

text \<open>
  Every job that has an attempt left can still be delivered, in that attempt: it is claimed, the limiter
  admits it in a new window, the provider accepts it, and the result is recorded before the lease ends.
\<close>

section \<open>Steps with Redis up or down\<close>

text \<open>
  Runs of claims, passes of the reaper and steps of deliveries, in which every call of the limiter to Redis has one
  fate: it is answered, or fails before it arrives, or its reply is lost.
\<close>

inductive delivers :: "'r deployment \<Rightarrow> redis_fate \<Rightarrow> 'r system \<Rightarrow> 'r system \<Rightarrow> bool" for D fate where
  passes: "claim_or_reap D s t \<Longrightarrow> delivers D fate s t"
| flies: "f \<in># sy_flights s \<Longrightarrow> fresh_ids (we_env we) (system_db s) \<Longrightarrow> re_fate (le_redis (we_limit we)) = fate \<Longrightarrow>
     sy_now s \<le> re_now (le_redis (we_limit we)) \<Longrightarrow> worker_step D we f (sy_world s) = (f', w) \<Longrightarrow>
     delivers D fate s
       (s\<lparr>sy_world := w, sy_flights := add_mset (f'\<lparr>fl_tasks := []\<rparr>) (sy_flights s - {#f#}),
          sy_tasks := sy_tasks s + mset (fl_tasks f'), sy_now := re_now (le_redis (we_limit we))\<rparr>)"

lemma delivers_step: "delivers D fate s t \<Longrightarrow> queue_step D s t"
  by (cases rule: delivers.cases) (auto intro: claim_or_reap_step queue_step.flight_step)

lemma reach_delivers:
  "(delivers D fate)\<^sup>*\<^sup>* s t \<Longrightarrow> reach (queue_init D) (queue_step D) s \<Longrightarrow> reach (queue_init D) (queue_step D) t"
  by (induction rule: rtranclp_induct) (auto intro: reach_step delivers_step)

lemma passes_run: "(claim_or_reap D)\<^sup>*\<^sup>* s t \<Longrightarrow> (delivers D fate)\<^sup>*\<^sup>* s t"
  by (erule rtranclp_mono [THEN predicate2D, rotated]) (auto intro: delivers.passes)

section \<open>The steps of one flight\<close>

lemma flight_moves:
  assumes f: "f \<in># sy_flights s" and fresh: "fresh_ids (we_env we) (system_db s)" and n: "sy_now s \<le> re_now (le_redis (we_limit we))"
    and step: "worker_step D we f (sy_world s) = (f', w)" and fate: "re_fate (le_redis (we_limit we)) = fate"
  shows "\<exists>t. delivers D fate s t \<and> sy_world t = w \<and> (fl_tasks f' = [] \<longrightarrow> f' \<in># sy_flights t)"
proof -
  have "f'\<lparr>fl_tasks := []\<rparr> = f'" if "fl_tasks f' = []" using that by (cases f') simp
  with delivers.flies [OF f fresh fate n step] show ?thesis by (intro exI conjI) (assumption, simp_all)
qed

text \<open>A window of the Postgres limiter that starts after all recorded ones has room.\<close>

lemma new_window_admits:
  assumes window: "0 < rate_limit_window_seconds c"
  shows "\<exists>T b. \<forall>e w. w_db w = s \<longrightarrow> le_fate e = Commits \<longrightarrow> now (le_env e) = T \<longrightarrow>
     postgres_acquire c e j w = (Inr None, \<lparr>w_db = s\<lparr>rate_limit_buckets := b\<rparr>, w_redis = w_redis w\<rparr>)"
proof -
  let ?win = "rate_limit_window_seconds c" and ?bs = "rate_limit_buckets s"
  let ?m = "Max (insert 0 (b_window_start ` set ?bs))"
  obtain N :: int where "?m / ?win < of_int N" using ex_less_of_int by blast
  then have N: "?m < of_int N * ?win" using window by (simp add: field_simps)
  have old: "b_window_start b < of_int N * ?win" if "b \<in> set ?bs" for b
    using that N by (intro le_less_trans [OF Max_ge N]) auto
  let ?T = "of_int N * ?win" and ?new = "\<lparr>b_recipient = j_recipient j, b_window_start = of_int N * ?win, b_count = 1\<rparr>"
  have start: "window_start_at ?win ?T = ?T" using window by (simp add: window_start_at_def)
  have none: "filter (\<lambda>b. b_recipient b = j_recipient j \<and> b_window_start b = ?T) ?bs = []"
    using old by (force simp: filter_empty_conv)
  have "postgres_acquire c e j w = (Inr None, \<lparr>w_db = s\<lparr>rate_limit_buckets := ?bs @ [?new]\<rparr>, w_redis = w_redis w\<rparr>)"
    if "w_db w = s" "le_fate e = Commits" "now (le_env e) = ?T" for e w
    using that window start none
    by (simp add: postgres_acquire_def in_tx_def begin_tx_def try_acquire_rate_limit_def Let_def)
  then show ?thesis by (intro exI [of _ ?T] exI [of _ "?bs @ [?new]"]) blast
qed

text \<open>The script of the Redis limiter admits once all recorded slots have left the window.\<close>

lemma trimmed_set_admits:
  assumes laws: "redis_laws R" and limit: "1 \<le> limit"
  shows "\<exists>n s'. n0 \<le> n \<and> acquire_script R n key window limit i s = (Reply (True, 0), s')"
proof -
  let ?members = "{m. rd_zscore R n0 key m s \<noteq> None}"
  let ?last = "Max (insert 0 ((\<lambda>m. the (rd_zscore R n0 key m s)) ` ?members))"
  let ?n = "max n0 (?last + window)"
  let ?s1 = "rd_zremrangebyscore R ?n key (?n - window) s"
  have "x \<le> ?n - window" if x: "rd_zscore R ?n key m s = Some x" for m x
  proof -
    have "rd_zscore R n0 key m s = Some x" by (rule redis_laws.zscore_earlier [OF laws _ x]) simp
    then have "x \<in> (\<lambda>m. the (rd_zscore R n0 key m s)) ` ?members" by force
    then have "x \<le> ?last" using redis_laws.zset_finite [OF laws, of n0 key s] by (intro Max_ge) simp_all
    then show ?thesis by simp
  qed
  then have gone: "rd_zscore R ?n key m ?s1 = None" for m
    by (simp add: redis_laws.zscore_zremrangebyscore [OF laws] split: option.split)
  then have "rd_zcard R ?n key ?s1 = 0" by (simp add: redis_laws.zcard [OF laws])
  with gone limit show ?thesis
    by (intro exI [of _ ?n] exI conjI) (simp, simp add: acquire_script_def Let_def)
qed

text \<open>So whichever limiter the settings choose, and whatever happens to its call, it admits in time.\<close>

lemma limiter_admits:
  fixes R :: "'r redis_cmds" and w :: "'r world"
  assumes laws: "redis_laws R" and window: "0 < rate_limit_window_seconds c" and limit: "1 \<le> rate_limit_per_hour c"
  shows "\<exists>T n. n0 \<le> n \<and> (\<forall>e. le_fate e = Commits \<longrightarrow> now (le_env e) = T \<longrightarrow> re_now (le_redis e) = n \<longrightarrow>
     (\<exists>b x. rl_acquire (build_rate_limiter R c) e j w = (Inr None, \<lparr>w_db = (w_db w)\<lparr>rate_limit_buckets := b\<rparr>, w_redis = x\<rparr>)))"
proof -
  have world: "w'\<lparr>w_db := d\<rparr> = \<lparr>w_db = d, w_redis = w_redis w'\<rparr>" "w'\<lparr>w_redis := x\<rparr> = \<lparr>w_db = w_db w', w_redis = x\<rparr>"
    for w' :: "'r world" and d x by simp_all
  obtain T b where pg: "\<And>e (w' :: 'r world). w_db w' = w_db w \<Longrightarrow> le_fate e = Commits \<Longrightarrow> now (le_env e) = T \<Longrightarrow>
     postgres_acquire c e j w' = (Inr None, \<lparr>w_db = (w_db w)\<lparr>rate_limit_buckets := b\<rparr>, w_redis = w_redis w'\<rparr>)"
    using new_window_admits [OF window, of "w_db w" j] by blast
  obtain n s' where n: "n0 \<le> n" and script: "acquire_script R n (rl_key c (j_recipient j)) (window_ms c)
      (rate_limit_per_hour c) (j_id j) (w_redis w) = (Reply (True, 0), s')"
    using trimmed_set_admits [OF laws limit] by blast
  have admitted: "\<exists>b x. rl_acquire (build_rate_limiter R c) e j w = (Inr None, \<lparr>w_db = (w_db w)\<lparr>rate_limit_buckets := b\<rparr>, w_redis = x\<rparr>)"
    if e: "le_fate e = Commits" "now (le_env e) = T" "re_now (le_redis e) = n" for e
  proof -
    note pg = pg [OF _ e(1,2)]
    have script_ok: "redis_acquire R c e j w = (Inr None, \<lparr>w_db = (w_db w)\<lparr>rate_limit_buckets := rate_limit_buckets (w_db w)\<rparr>, w_redis = s'\<rparr>)"
      if "re_fate (le_redis e) = RedisOk"
      using that script e(3) by (simp add: redis_acquire_def cache_call_def some_reply_def world)
    have "\<exists>x. redis_acquire R c e j w = postgres_acquire c e j (w\<lparr>w_redis := x\<rparr>)" if "re_fate (le_redis e) \<noteq> RedisOk"
      using that by (cases "re_fate (le_redis e)") (auto simp: redis_acquire_def cache_call_def intro: exI [of _ "w_redis w"])
    then have "\<exists>b x. redis_acquire R c e j w = (Inr None, \<lparr>w_db = (w_db w)\<lparr>rate_limit_buckets := b\<rparr>, w_redis = x\<rparr>)"
      using script_ok pg by (cases "re_fate (le_redis e) = RedisOk") fastforce+
    moreover have "\<exists>b x. postgres_acquire c e j w = (Inr None, \<lparr>w_db = (w_db w)\<lparr>rate_limit_buckets := b\<rparr>, w_redis = x\<rparr>)"
      using pg [OF refl] by blast
    ultimately show ?thesis by (simp add: build_rate_limiter_def redis_limiter_def postgres_limiter_def)
  qed
  with n show ?thesis by (intro exI [of _ T] exI [of _ n]) blast
qed

lemma provider_accepts:
  assumes payload: "map_of (j_payload j) ''simulate'' \<notin> {Some (JStr ''poison''), Some (JStr ''permanent_failure'')}"
  shows "\<exists>e r t. timed_send (mock_send p) e j s = (Inr r, t) \<and> jobs t = jobs s \<and> webhook_outbox t = webhook_outbox s"
proof -
  obtain i :: int where i: "i \<notin> set (map p_id (mock_provider_log s))"
    using ex_new_if_finite [OF infinite_UNIV_int finite_set] by blast
  let ?e = "\<lparr>se_sample = p, se_fate = Commits, se_env = undefined\<lparr>gen_serial := i\<rparr>, se_timely = True, se_cut = False\<rparr>"
  obtain r t where "record_send (se_env ?e) j s = Inr (r, t)"
    using i by (cases "record_send (se_env ?e) j s") (auto simp: record_send_def Let_def split: option.splits if_splits)
  then have "timed_send (mock_send p) ?e j s = (Inr r, t)"
    using payload by (auto simp: timed_send_def mock_send_def begin_tx_def Let_def)
  moreover from this have "jobs t = jobs s \<and> webhook_outbox t = webhook_outbox s"
    using timed_mock.send_same [where e = ?e and j = j and s = s and failure = p] by simp
  ultimately show ?thesis by blast
qed

text \<open>A flight that starts with its whole lease, in three steps: admitted, accepted, recorded.\<close>

definition can_be_sent :: "settings \<Rightarrow> job \<Rightarrow> bool" where
  "can_be_sent c j \<longleftrightarrow>
     map_of (j_payload j) ''simulate'' \<notin> {Some (JStr ''poison''), Some (JStr ''permanent_failure'')} \<and>
     load_settings c = Inr c \<and> 0 < rate_limit_window_seconds c \<and> 1 \<le> rate_limit_per_hour c"

definition flight_env :: "redis_fate \<Rightarrow> txenv \<Rightarrow> send_env \<Rightarrow> time \<Rightarrow> int \<Rightarrow> worker_env" where
  "flight_env fate env send T n =
     \<lparr>we_clock = 0, we_limit = \<lparr>le_redis = \<lparr>re_fate = fate, re_now = n\<rparr>, le_fate = Commits, le_env = env\<lparr>now := T\<rparr>\<rparr>,
      we_send = send, we_fate = Commits, we_env = env, we_sample = 0\<rparr>"

lemma flight_env_simps [simp]:
  "we_clock (flight_env fate env send T n) = 0" "le_fate (we_limit (flight_env fate env send T n)) = Commits"
  "re_fate (le_redis (we_limit (flight_env fate env send T n))) = fate" "re_now (le_redis (we_limit (flight_env fate env send T n))) = n"
  "now (le_env (we_limit (flight_env fate env send T n))) = T" "we_send (flight_env fate env send T n) = send"
  "we_fate (flight_env fate env send T n) = Commits" "we_env (flight_env fate env send T n) = env"
  by (simp_all add: flight_env_def)

lemma flight_admitted:
  assumes laws: "redis_laws (dp_redis D)" and ok: "can_be_sent (dp_settings D) k" and token: "j_claim_token k \<noteq> None"
    and f: "start_flight [] (lease_seconds (dp_settings D)) k \<in># sy_flights s"
  shows "\<exists>t f. delivers D fate s t \<and> f \<in># sy_flights t \<and> fl_job f = k \<and> fl_phase f = Sending \<and> fl_tasks f = [] \<and>
     jobs (system_db t) = jobs (system_db s) \<and> webhook_outbox (system_db t) = webhook_outbox (system_db s)"
proof -
  let ?c = "dp_settings D" and ?f = "start_flight [] (lease_seconds (dp_settings D)) k"
  have c: "0 < rate_limit_window_seconds ?c" "1 \<le> rate_limit_per_hour ?c" using ok by (simp_all add: can_be_sent_def)
  obtain T n where n: "sy_now s \<le> n" and admits: "\<forall>e. le_fate e = Commits \<longrightarrow> now (le_env e) = T \<longrightarrow> re_now (le_redis e) = n \<longrightarrow>
     (\<exists>b x. rl_acquire (build_rate_limiter (dp_redis D) ?c) e k (sy_world s) =
       (Inr None, \<lparr>w_db = (w_db (sy_world s))\<lparr>rate_limit_buckets := b\<rparr>, w_redis = x\<rparr>))"
    using limiter_admits [OF laws c, of "sy_now s" k "sy_world s"] by blast
  obtain env where env: "fresh_ids env (system_db s)" using ex_fresh_env by blast
  let ?e = "flight_env fate env undefined T n"
  obtain b x where acquired: "rl_acquire (build_rate_limiter (dp_redis D) ?c) (we_limit ?e) k (sy_world s) =
      (Inr None, \<lparr>w_db = (w_db (sy_world s))\<lparr>rate_limit_buckets := b\<rparr>, w_redis = x\<rparr>)"
    using admits by fastforce
  have "has_budget ?c (lease_seconds ?c) 0" using ok by (simp add: can_be_sent_def has_budget_def load_settings_def split: if_splits)
  then have "worker_step D ?e ?f (sy_world s) =
      (?f\<lparr>fl_phase := Sending\<rparr>, \<lparr>w_db = (w_db (sy_world s))\<lparr>rate_limit_buckets := b\<rparr>, w_redis = x\<rparr>)"
    using acquired token by (auto simp: worker_step_def deliver_step_def acquire_phase_def start_flight_def)
  from flight_moves [OF f _ _ this] env n obtain t where "delivers D fate s t" "?f\<lparr>fl_phase := Sending\<rparr> \<in># sy_flights t"
    "sy_world t = \<lparr>w_db = (w_db (sy_world s))\<lparr>rate_limit_buckets := b\<rparr>, w_redis = x\<rparr>"
    by (auto simp: start_flight_def)
  then show ?thesis by (intro exI [of _ t] exI [of _ "?f\<lparr>fl_phase := Sending\<rparr>"]) (simp add: start_flight_def system_db_def)
qed

lemma flight_accepted:
  assumes ok: "can_be_sent (dp_settings D) k"
    and f: "f \<in># sy_flights s" "fl_job f = k" "fl_phase f = Sending" "fl_tasks f = []"
  shows "\<exists>t g rp. delivers D fate s t \<and> g \<in># sy_flights t \<and> fl_job g = k \<and> fl_phase g = Finalizing rp \<and>
     sp_error rp = None \<and> \<not> sp_refund_slot rp \<and> jobs (system_db t) = jobs (system_db s)"
proof -
  obtain e r u where sent: "timed_send (mock_send (failure_rate (dp_settings D))) e k (system_db s) = (Inr r, u)"
    and u: "jobs u = jobs (system_db s)"
    using provider_accepts ok unfolding can_be_sent_def by blast
  obtain env where env: "fresh_ids env (system_db s)" using ex_fresh_env by blast
  let ?e = "flight_env fate env e 0 (sy_now s)" and ?rp = "report_of (dp_exn_text D) (Inr r)"
  obtain g where step: "worker_step D ?e f (sy_world s) = (g, (sy_world s)\<lparr>w_db := u\<rparr>)"
    and g: "fl_job g = k" "fl_phase g = Finalizing ?rp" "fl_tasks g = []"
    using sent f(2-4) by (simp add: worker_step_def deliver_step_def send_phase_def Let_def system_db_def count_stat_def)
  from flight_moves [OF f(1) _ _ step] env g(3) obtain t where "delivers D fate s t" "g \<in># sy_flights t"
    "sy_world t = (sy_world s)\<lparr>w_db := u\<rparr>" by auto
  with g u show ?thesis
    by (intro exI [of _ t] exI [of _ g] exI [of _ ?rp]) (simp add: report_of_def system_db_def)
qed

lemma flight_recorded:
  assumes inv: "db_inv {} (system_db s)" and f: "f \<in># sy_flights s" "fl_job f = k" "fl_phase f = Finalizing rp"
    and rp: "sp_error rp = None" "\<not> sp_refund_slot rp"
    and k: "k \<in> set (jobs (system_db s))" "j_status k = PROCESSING" "j_claim_token k \<noteq> None"
  shows "\<exists>t r. delivers D fate s t \<and> r \<in> set (jobs (system_db t)) \<and> j_id r = j_id k \<and> j_status r = SENT \<and> j_attempts r = j_attempts k"
proof -
  obtain env where env: "fresh_ids env (system_db s)" using ex_fresh_env by blast
  let ?c = "dp_settings D" and ?e = "flight_env fate env undefined 0 (sy_now s)" and ?tok = "claim_token_of k"
  have own: "owns (j_id k) ?tok k" using k by (auto simp: owns_def claim_token_of_def)
  let ?wk = "str_or (j_locked_by k) (fl_worker f)"
  let ?t = "sent_closing env ?wk (sp_message_id rp) (default_callback_url ?c) (sent_row env k)
        ((system_db s)\<lparr>jobs := update_where (owns (j_id k) ?tok) (sent_row env) (jobs (system_db s))\<rparr>)"
  have "record_result ?c ?e ?wk k rp (system_db s) = Inr (Some (job_transition (sent_row env k)), ?t)"
    using mark_sent_owned(1) [OF inv env k(1) own] rp(1) by (simp add: record_result_def)
  then have "\<exists>g. worker_step D ?e f (sy_world s) = (g, (sy_world s)\<lparr>w_db := ?t\<rparr>)"
    using f rp(2) by (simp add: worker_step_def deliver_step_def finalize_phase_def in_tx_def begin_tx_def system_db_def)
  then obtain g where step: "worker_step D ?e f (sy_world s) = (g, (sy_world s)\<lparr>w_db := ?t\<rparr>)" by blast
  from flight_moves [OF f(1) _ _ step] env obtain t where t: "delivers D fate s t" "sy_world t = (sy_world s)\<lparr>w_db := ?t\<rparr>" by auto
  have "sent_row env k \<in> set (jobs (system_db t))"
    using k(1) own t(2) by (force simp: system_db_def sent_closing_def)
  with t(1) show ?thesis by (intro exI [of _ t] exI [of _ "sent_row env k"]) (simp add: sent_row_def)
qed

section \<open>Every job can be sent\<close>

lemma pending_job_sent:
  assumes laws: "redis_laws (dp_redis D)" and batch: "1 \<le> batch_size (dp_settings D)" and ok: "can_be_sent (dp_settings D) j"
    and r: "reach (queue_init D) (queue_step D) s" and j: "j \<in> set (jobs (system_db s))" "j_status j = PENDING"
  shows "\<exists>t k. (delivers D fate)\<^sup>*\<^sup>* s t \<and> k \<in> set (jobs (system_db t)) \<and> j_id k = j_id j \<and> j_status k = SENT \<and>
     j_attempts k = j_attempts j + 1"
proof -
  obtain t k where run: "(claim_or_reap D)\<^sup>*\<^sup>* s t" and t: "k \<in> set (jobs (system_db t))" "in_flight (dp_settings D) j t k"
    using eventually_by_passes [OF claim_pass [OF _ batch _ j(2)] r j(1)] by blast
  then have k: "j_id k = j_id j" "j_status k = PROCESSING" "j_attempts k = j_attempts j + 1" "j_claim_token k \<noteq> None"
      "can_be_sent (dp_settings D) k" "start_flight [] (lease_seconds (dp_settings D)) k \<in># sy_flights t"
    using ok by (auto simp: in_flight_def claimed_copy_def can_be_sent_def)
  obtain u f where u: "delivers D fate t u" "f \<in># sy_flights u" "fl_job f = k" "fl_phase f = Sending" "fl_tasks f = []"
      "jobs (system_db u) = jobs (system_db t)"
    using flight_admitted [OF laws k(5,4,6)] by blast
  obtain v g rp where v: "delivers D fate u v" "g \<in># sy_flights v" "fl_job g = k" "fl_phase g = Finalizing rp"
      "sp_error rp = None" "\<not> sp_refund_slot rp" "jobs (system_db v) = jobs (system_db u)"
    using flight_accepted [OF k(5) u(2-5)] by blast
  have run: "(delivers D fate)\<^sup>*\<^sup>* s v" using passes_run [OF run, of fate] u(1) v(1) by simp
  have inv: "db_inv {} (system_db v)" by (rule system_okD(2) [OF reach_ok [OF reach_delivers [OF run r]]])
  have "k \<in> set (jobs (system_db v))" using t(1) u(6) v(7) by simp
  from flight_recorded [OF inv v(2-6) this k(2,4)] obtain w l where "delivers D fate v w" "l \<in> set (jobs (system_db w))"
    "j_id l = j_id k" "j_status l = SENT" "j_attempts l = j_attempts k" by blast
  with run k show ?thesis by (intro exI [of _ w] exI [of _ l]) auto
qed


end
