(* ===== verification/Queue_Run.thy ===== *)
theory Queue_Run
  imports Outbox_Progress Delivery_Progress
begin

text \<open>
  A concrete run of the system, from the empty tables to a delivered job: a request is posted, a
  worker claims the job, gets a slot, sends it and records the result. The properties of the system
  are applied to the states of this run.
\<close>

section \<open>The deployment\<close>

definition run_settings :: settings where
  "run_settings = demo_config\<lparr>cache_enabled := False\<rparr>"

text \<open>A codec that keeps id, version and status, and reads back a plain job exactly.\<close>

definition status_char :: "job_status \<Rightarrow> char" where
  "status_char st = (case st of PENDING \<Rightarrow> CHR ''p'' | PROCESSING \<Rightarrow> CHR ''r'' | SENT \<Rightarrow> CHR ''s'' | DEAD_LETTERED \<Rightarrow> CHR ''d'')"

definition char_status :: "char \<Rightarrow> job_status" where
  "char_status c =
     (if c = CHR ''p'' then PENDING else if c = CHR ''r'' then PROCESSING else if c = CHR ''s'' then SENT else DEAD_LETTERED)"

lemma char_status [simp]: "char_status (status_char st) = st"
  by (cases st) (simp_all add: status_char_def char_status_def)

definition head_codec :: job_codec where
  "head_codec =
     \<lparr> jc_dump = (\<lambda>j. status_char (jo_status j) # show_int (jo_version j) @ ''|'' @ jo_id j),
       jc_load = (\<lambda>t. Inr (demo_out\<lparr>jo_id := after_bar (tl t), jo_version := coalesce (entry_version (tl t)) 0,
                                   jo_status := char_status (hd t)\<rparr>)) \<rparr>"

lemma head_codec_ok: "codec_keeps_head head_codec"
proof -
  have "jc_load head_codec (jc_dump head_codec j) =
      Inr (demo_out\<lparr>jo_id := jo_id j, jo_version := jo_version j, jo_status := jo_status j\<rparr>)" for j
    using entry_body_written [of "jo_version j" "jo_id j"] entry_version_written [of "jo_version j" "jo_id j"]
    by (simp add: head_codec_def coalesce_def del: append.simps)
  then show ?thesis by (simp add: codec_keeps_head_def)
qed

definition run_deployment :: "redis_store deployment" where
  "run_deployment =
     \<lparr> dp_redis = mem_redis, dp_fault = forgets mem_redis, dp_codec = head_codec, dp_metrics_codec = demo_dict_codec, dp_digest = (\<lambda>_. ''h1''), dp_parse_uuid = Some, dp_parse_url = Some,
       dp_exn_text = (\<lambda>_. []), dp_settings = run_settings \<rparr>"

lemma run_settings_simps [simp]:
  "dp_settings run_deployment = run_settings" "dp_redis run_deployment = mem_redis"
  "dp_exn_text run_deployment = (\<lambda>_. [])" "cache_enabled run_settings = False"
  "cfg_max_attempts run_settings = 5" "batch_size run_settings = 10" "lease_seconds run_settings = 30"
  "reaper_batch_size run_settings = 100" "failure_rate run_settings = 1 / 10"
  "backoff_base_seconds run_settings = 2" "backoff_cap_seconds run_settings = 300"
  by (simp_all add: run_deployment_def run_settings_def demo_config_def default_settings_def)

definition run_body :: raw_request where
  "run_body =
     \<lparr> w_recipient = ''ada@example.com'', w_channel = ''email'', w_payload = [], w_priority = Some (PyPriority HIGH),
       w_send_at = None, w_delay_seconds = None, w_max_attempts = Some 1, w_callback_url = None,
       w_idempotency_key = Some ''k1'' \<rparr>"

definition run_service_env :: service_env where
  "run_service_env = \<lparr> sv_clock = 100, sv_redis = (\<lambda>_. redis_at 10), sv_fate = Commits, sv_env = demo_env, sv_read_ok = True \<rparr>"

section \<open>The states\<close>

definition run_state :: "db \<Rightarrow> flight list \<Rightarrow> redis_store system" where
  "run_state s fs = \<lparr>sy_world = \<lparr>w_db = s, w_redis = (\<lambda>_. None)\<rparr>, sy_flights = mset fs, sy_now = 10, sy_tasks = {#}, sy_readers = [],
     sy_events = {#}\<rparr>"

lemma run_state_simps [simp]:
  "system_db (run_state s fs) = s" "sy_flights (run_state s fs) = mset fs"
  "sy_world (run_state s fs) = \<lparr>w_db = s, w_redis = (\<lambda>_. None)\<rparr>"
  "sy_now (run_state s fs) = 10" "sy_tasks (run_state s fs) = {#}" "sy_readers (run_state s fs) = []"
  "sy_events (run_state s fs) = {#}"
  by (simp_all add: run_state_def system_db_def)

lemma run_clock [simp]: "re_now (le_redis (we_limit demo_worker_env)) = 10"
  by (simp add: demo_worker_env_def demo_limit_env_def)

lemma run_start: "reach (queue_init run_deployment) (queue_step run_deployment) (run_state empty_db [])"
  by (rule reach_init) (simp add: queue_init_def mem_eval mem_get_def mem_find_def)

lemma run_parse: "parse_request Some run_body =
    Inr \<lparr> q_recipient = ''ada@example.com'', q_channel = EMAIL, q_payload = [], q_priority = HIGH, q_send_at = None,
      q_delay_seconds = None, q_max_attempts = Some 1, q_callback_url = None, q_idempotency_key = Some ''k1'' \<rparr>"
  by (simp add: parse_request_def run_body_def length_in_def field_check_def parse_channel_def all_channels_def opt_all_def)

lemma run_posts:
  "\<exists>r. schedule_job mem_redis head_codec (\<lambda>_. ''h1'') Some Some run_settings run_service_env None run_body
     \<lparr>w_db = empty_db, w_redis = (\<lambda>_. None)\<rparr> = (r, \<lparr>w_db = demo_db, w_redis = (\<lambda>_. None)\<rparr>)"
proof -
  have create: "create_job demo_env demo_new empty_db = Inr ((demo_job, True), demo_db)"
    by (simp add: create_job_def insert_job_def demo_job_def demo_db_def) (simp add: demo_new_def empty_db_def job_ids_def)
  have new: "schedule_new_job run_settings ''h1'' \<lparr> q_recipient = ''ada@example.com'', q_channel = EMAIL, q_payload = [],
      q_priority = HIGH, q_send_at = None, q_delay_seconds = None, q_max_attempts = Some 1, q_callback_url = None,
      q_idempotency_key = Some ''k1'' \<rparr> = demo_new"
    by (simp add: schedule_new_job_def demo_new_def)
  show ?thesis
    by (simp add: schedule_job_def run_parse opt_all_def merge_key_def schedule_def request_hash_def schedule_cached_def
        cache_get_idempotency_def cache_call_def on_redis_def parse_idem_entry_def Let_def schedule_insert_def new create
        in_tx_def begin_tx_def run_service_env_def cache_put_idempotency_def cache_put_job_def cache_write_def)
qed

lemma run_schedules:
  "queue_step run_deployment (run_state empty_db [])
     ((run_state empty_db [])\<lparr>sy_world := \<lparr>w_db = demo_db, w_redis = (\<lambda>_. None)\<rparr>, sy_now := 10\<rparr>)"
proof -
  have fresh: "fresh_ids (sv_env run_service_env) (system_db (run_state empty_db []))"
    by (simp add: run_service_env_def fresh_ids_def demo_env_gen_event empty_db_def job_ids_def)
  obtain r where "schedule_job mem_redis head_codec (\<lambda>_. ''h1'') Some Some run_settings run_service_env None run_body
     \<lparr>w_db = empty_db, w_redis = (\<lambda>_. None)\<rparr> = (r, \<lparr>w_db = demo_db, w_redis = (\<lambda>_. None)\<rparr>)"
    using run_posts by blast
  then show ?thesis
    by (intro queue_step.schedule_step [OF fresh, where header = None and body = run_body and r = r])
      (simp_all add: run_deployment_def redis_clock_def run_service_env_def mono_def)
qed

lemma run_scheduled: "reach (queue_init run_deployment) (queue_step run_deployment) (run_state demo_db [])"
  using reach_step [OF run_start run_schedules] by (simp add: run_state_def)

lemma run_claimed:
  "reach (queue_init run_deployment) (queue_step run_deployment) (run_state demo_db_claimed [start_flight ''w'' 30 demo_claimed])"
proof -
  have "claim_batch run_settings ''w'' None 0 Commits demo_env \<lparr>w_db = demo_db, w_redis = (\<lambda>_. None)\<rparr> =
      (Inr [start_flight ''w'' 30 demo_claimed], \<lparr>w_db = demo_db_claimed, w_redis = (\<lambda>_. None)\<rparr> :: redis_store world)"
    using demo_claim by (simp add: claim_batch_def in_tx_def begin_tx_def str_or_def)
  then have "queue_step run_deployment (run_state demo_db [])
      ((run_state demo_db [])\<lparr>sy_world := \<lparr>w_db = demo_db_claimed, w_redis = (\<lambda>_. None)\<rparr>,
       sy_flights := sy_flights (run_state demo_db []) + mset (new_flights (Inr [start_flight ''w'' 30 demo_claimed]))\<rparr>)"
    by (intro queue_step.claim_step) simp
  then show ?thesis by (intro reach_step [OF run_scheduled]) (simp add: run_state_def new_flights_def)
qed

definition run_admitted :: db where
  "run_admitted = demo_db_claimed\<lparr>rate_limit_buckets :=
     [\<lparr>b_recipient = ''ada@example.com'', b_window_start = 0, b_count = 1\<rparr>]\<rparr>"

lemma run_admits:
  "worker_step run_deployment demo_worker_env (start_flight ''w'' 30 demo_claimed) \<lparr>w_db = demo_db_claimed, w_redis = (\<lambda>_. None)\<rparr> =
     ((start_flight ''w'' 30 demo_claimed)\<lparr>fl_phase := Sending\<rparr>, \<lparr>w_db = run_admitted, w_redis = (\<lambda>_. None)\<rparr>)"
proof -
  have limiter: "build_rate_limiter mem_redis run_settings = postgres_limiter run_settings"
    by (simp add: build_rate_limiter_def)
  have zero: "\<lfloor>101 / 3600 :: real\<rfloor> = 0" by (simp add: floor_eq_iff)
  have budget: "has_budget run_settings 30 1"
    by (simp add: has_budget_def send_budget_seconds_def run_settings_def demo_config_def default_settings_def)
  have "j_recipient demo_claimed = ''ada@example.com''" "j_claim_token demo_claimed = Some ''tj1''"
    by (simp_all add: demo_defs)
  moreover have "rate_limit_buckets demo_db_claimed = []" by (simp add: demo_db_claimed_def empty_db_def)
  moreover have "rate_limit_window_seconds run_settings = 3600"
    by (simp add: run_settings_def demo_config_def default_settings_def)
  ultimately have "rl_acquire (postgres_limiter run_settings) demo_limit_env demo_claimed
      \<lparr>w_db = demo_db_claimed, w_redis = (\<lambda>_. None)\<rparr> = (Inr None, \<lparr>w_db = run_admitted, w_redis = (\<lambda>_. None)\<rparr> :: redis_store world)"
    "j_claim_token demo_claimed = Some ''tj1''"
    using zero by (simp_all add: postgres_limiter_def postgres_acquire_def in_tx_def begin_tx_def try_acquire_rate_limit_def
        demo_limit_env_def window_start_at_def run_admitted_def)
  then show ?thesis
    using budget by (simp add: worker_step_def limiter deliver_step_def acquire_phase_def start_flight_def demo_worker_env_def)
qed

lemma run_sending:
  "reach (queue_init run_deployment) (queue_step run_deployment)
     (run_state run_admitted [(start_flight ''w'' 30 demo_claimed)\<lparr>fl_phase := Sending\<rparr>])"
proof -
  let ?s = "run_state demo_db_claimed [start_flight ''w'' 30 demo_claimed]"
  let ?f = "(start_flight ''w'' 30 demo_claimed)\<lparr>fl_phase := Sending\<rparr>"
  have "fresh_ids (we_env demo_worker_env) (system_db ?s)" by (simp add: demo_worker_env_def demo_fresh_later)
  then have "queue_step run_deployment ?s (?s\<lparr>sy_world := \<lparr>w_db = run_admitted, w_redis = (\<lambda>_. None)\<rparr>,
      sy_flights := add_mset (?f\<lparr>fl_tasks := []\<rparr>) (sy_flights ?s - {#start_flight ''w'' 30 demo_claimed#}),
      sy_tasks := sy_tasks ?s + mset (fl_tasks ?f),
      sy_now := re_now (le_redis (we_limit demo_worker_env))\<rparr>)"
    using run_admits by (intro queue_step.flight_step) simp_all
  then show ?thesis by (intro reach_step [OF run_claimed]) (simp add: run_state_def start_flight_def)
qed

lemma run_sent:
  "\<exists>s f. reach (queue_init run_deployment) (queue_step run_deployment) (run_state s [f]) \<and>
     jobs s = [demo_claimed] \<and> webhook_outbox s = [] \<and> fl_job f = demo_claimed \<and> fl_tasks f = [] \<and>
     (\<exists>rp. fl_phase f = Finalizing rp \<and> sp_error rp = None \<and> \<not> sp_refund_slot rp)"
proof -
  let ?f = "(start_flight ''w'' 30 demo_claimed)\<lparr>fl_phase := Sending\<rparr>"
  let ?s = "run_state run_admitted [?f]"
  obtain r s2 where sent: "timed_send (mock_send (1 / 10)) demo_send demo_claimed run_admitted = (Inr r, s2)"
    and s2: "jobs s2 = [demo_claimed]" "webhook_outbox s2 = []"
    by (simp add: timed_send_def mock_send_def record_send_def demo_send_def begin_tx_def returning_def
        run_admitted_def demo_db_claimed_def empty_db_def Let_def)
      (simp add: demo_defs begin_tx_def record_send_def returning_def)
  obtain f' where step: "worker_step run_deployment demo_worker_env ?f \<lparr>w_db = run_admitted, w_redis = (\<lambda>_. None)\<rparr> =
      (f', \<lparr>w_db = s2, w_redis = (\<lambda>_. None)\<rparr>)" and f': "fl_job f' = demo_claimed" "fl_tasks f' = []"
    "\<exists>rp. fl_phase f' = Finalizing rp \<and> sp_error rp = None \<and> \<not> sp_refund_slot rp"
    using sent
    by (simp add: worker_step_def deliver_step_def send_phase_def demo_worker_env_def start_flight_def Let_def
        report_of_def count_stat_def)
  then have f'_eq: "f'\<lparr>fl_tasks := []\<rparr> = f'" by (cases f') simp
  have "fresh_ids (we_env demo_worker_env) (system_db ?s)"
    by (rule demo_fresh) (simp_all add: demo_worker_env_def run_admitted_def demo_db_claimed_def empty_db_def job_ids_def)
  then have "queue_step run_deployment ?s (?s\<lparr>sy_world := \<lparr>w_db = s2, w_redis = (\<lambda>_. None)\<rparr>, sy_flights := add_mset (f'\<lparr>fl_tasks := []\<rparr>) (sy_flights ?s - {#?f#}), sy_tasks := sy_tasks ?s + mset (fl_tasks f'),
      sy_now := re_now (le_redis (we_limit demo_worker_env))\<rparr>)"
    using step by (intro queue_step.flight_step) simp_all
  then have "reach (queue_init run_deployment) (queue_step run_deployment) (run_state s2 [f'])"
    by (intro reach_step [OF run_sending]) (simp add: run_state_def f'_eq f'(2))
  with s2 f' show ?thesis by blast
qed

lemma run_delivered:
  "\<exists>s f j. reach (queue_init run_deployment) (queue_step run_deployment) (run_state s [f]) \<and>
     get_job s ''j1'' = Some j \<and> j_status j = SENT \<and> (\<exists>e\<in>set (webhook_outbox s). o_status e = OutboxPending)"
proof -
  obtain s f rp where r: "reach (queue_init run_deployment) (queue_step run_deployment) (run_state s [f])"
    and s: "jobs s = [demo_claimed]" "webhook_outbox s = []" and f: "fl_job f = demo_claimed" "fl_phase f = Finalizing rp"
      "sp_error rp = None" "\<not> sp_refund_slot rp" and tasks: "fl_tasks f = []"
    using run_sent by blast
  have inv: "db_inv {} s" using system_okD(2) [OF reach_ok [OF r]] by simp
  have fresh: "fresh_ids (we_env demo_worker_env) s"
    by (rule demo_fresh) (simp_all add: s demo_worker_env_def job_ids_def)
  have delay: "backoff_delay (j_attempts demo_claimed) (backoff_base_seconds run_settings) (backoff_cap_seconds run_settings)
      (we_sample demo_worker_env) = Inr (3 / 2)"
    by (simp add: backoff_delay_def backoff_ceiling_def uniform_def float_max_exp_def demo_worker_env_def Let_def)
      (simp add: demo_defs)
  let ?wk = "str_or (j_locked_by demo_claimed) (fl_worker f)"
  let ?row = "recorded_row (we_env demo_worker_env) rp (3 / 2) demo_claimed"
  have "demo_claimed \<in> set (jobs s)" by (simp add: s)
  from record_result_owned [OF inv fresh this demo_owned delay, of ?wk rp]
  obtain s' where s': "record_result run_settings demo_worker_env ?wk demo_claimed rp s = Inr (Some (job_transition ?row), s')"
    "get_job s' ''j1'' = Some ?row"
    by blast
  have "mark_sent (we_env demo_worker_env) ''j1'' ''tj1'' ?wk (sp_message_id rp) (default_callback_url run_settings) s =
      Inr (Some (job_transition (sent_row (we_env demo_worker_env) demo_claimed)), s')"
    using s'(1) f(3) demo_owned by (simp add: record_result_def claim_token_of_def recorded_row_def owns_def)
  with mark_sent_owned(1) [OF inv fresh \<open>demo_claimed \<in> set (jobs s)\<close> demo_owned, of ?wk "sp_message_id rp" "default_callback_url run_settings"]
  have pending: "\<exists>e\<in>set (webhook_outbox s'). o_status e = OutboxPending"
    by (auto simp: sent_closing_def event_row_def)
  have "in_tx Commits (record_result run_settings demo_worker_env ?wk demo_claimed rp) \<lparr>w_db = s, w_redis = (\<lambda>_. None)\<rparr> =
      (Inr (Some (job_transition ?row)), \<lparr>w_db = s', w_redis = (\<lambda>_. None)\<rparr> :: redis_store world)"
    by (simp add: in_tx_def begin_tx_def s'(1))
  moreover have "we_fate demo_worker_env = Commits" by (simp add: demo_worker_env_def)
  ultimately obtain f' where "worker_step run_deployment demo_worker_env f \<lparr>w_db = s, w_redis = (\<lambda>_. None)\<rparr> =
      (f', \<lparr>w_db = s', w_redis = (\<lambda>_. None)\<rparr>)" and tasks': "fl_tasks f' = []"
    by (simp add: worker_step_def deliver_step_def finalize_phase_def f record_outcome_def Let_def invalidate_later_def
        count_stat_def tasks)
  have f'_eq: "f'\<lparr>fl_tasks := []\<rparr> = f'" using tasks' by (cases f') simp
  have "queue_step run_deployment (run_state s [f])
      ((run_state s [f])\<lparr>sy_world := \<lparr>w_db = s', w_redis = (\<lambda>_. None)\<rparr>, sy_flights := add_mset (f'\<lparr>fl_tasks := []\<rparr>) (sy_flights (run_state s [f]) - {#f#}),
        sy_tasks := sy_tasks (run_state s [f]) + mset (fl_tasks f'),
        sy_now := re_now (le_redis (we_limit demo_worker_env))\<rparr>)"
    using fresh \<open>worker_step run_deployment demo_worker_env f _ = _\<close> by (intro queue_step.flight_step) simp_all
  then have "reach (queue_init run_deployment) (queue_step run_deployment) (run_state s' [f'])"
    by (intro reach_step [OF r]) (simp add: run_state_def f'_eq tasks')
  moreover have "j_status ?row = SENT" by (simp add: recorded_row_def f(3))
  ultimately show ?thesis using s'(2) pending by blast
qed

section \<open>The properties on the run\<close>

theorem effectively_once_witness:
  "\<exists>s. reach (queue_init run_deployment) (queue_step run_deployment) s \<and>
     length (filter (\<lambda>p. p_idempotency_key p = ''j1'') (mock_provider_log (system_db s))) = 1"
proof -
  obtain s f j where r: "reach (queue_init run_deployment) (queue_step run_deployment) (run_state s [f])"
    and j: "get_job s ''j1'' = Some j" "j_status j = SENT"
    using run_delivered by blast
  from effectively_once [OF r, of "''j1''"] j r show ?thesis by auto
qed

theorem books_always_balance_witness:
  "\<exists>s j. reach (queue_init run_deployment) (queue_step run_deployment) s \<and> j \<in> set (jobs (system_db s)) \<and>
     length (deliveries_of (system_db s) (j_id j)) = 1"
proof -
  obtain s f j where r: "reach (queue_init run_deployment) (queue_step run_deployment) (run_state s [f])"
    and j: "get_job s ''j1'' = Some j" "j_status j = SENT"
    using run_delivered by blast
  have jin: "j \<in> set (jobs (system_db (run_state s [f])))" using j(1) by (auto simp: get_job_def dest!: first_SomeD)
  have "length (deliveries_of (system_db (run_state s [f])) (j_id j)) = 1"
    using books_always_balance [OF r jin] j(2) by simp
  with r jin show ?thesis by blast
qed

theorem sent_is_final_witness:
  "\<exists>s f j. reach (queue_init run_deployment) (queue_step run_deployment) (run_state s [f]) \<and>
     get_job s ''j1'' = Some j \<and> j_status j = SENT \<and> get_job (system_db (run_state s [])) ''j1'' = Some j"
proof -
  obtain s f j where r: "reach (queue_init run_deployment) (queue_step run_deployment) (run_state s [f])"
    and j: "get_job s ''j1'' = Some j" "j_status j = SENT"
    using run_delivered by blast
  have "queue_step run_deployment (run_state s [f]) ((run_state s [f])\<lparr>sy_flights := {#}, sy_tasks := {#}, sy_events := {#}\<rparr>)"
    by (rule queue_step.crash_step) simp_all
  then have "(queue_step run_deployment)\<^sup>*\<^sup>* (run_state s [f]) (run_state s [])" by (simp add: run_state_def)
  from sent_is_final [OF r this, of "''j1''" j] j r show ?thesis by auto
qed

theorem system_refines_life_witness:
  "case get_job (system_db (run_state demo_db [])) ''j1'' of
     None \<Rightarrow> False
   | Some j \<Rightarrow> (case get_job (system_db (run_state demo_db_claimed [start_flight ''w'' 30 demo_claimed])) ''j1'' of
         None \<Rightarrow> False | Some j' \<Rightarrow> j' = j \<or> life (j_status j) (j_status j'))"
proof -
  have "claim_batch run_settings ''w'' None 0 Commits demo_env \<lparr>w_db = demo_db, w_redis = (\<lambda>_. None)\<rparr> =
      (Inr [start_flight ''w'' 30 demo_claimed], \<lparr>w_db = demo_db_claimed, w_redis = (\<lambda>_. None)\<rparr> :: redis_store world)"
    using demo_claim by (simp add: claim_batch_def in_tx_def begin_tx_def str_or_def)
  then have "queue_step run_deployment (run_state demo_db [])
      ((run_state demo_db [])\<lparr>sy_world := \<lparr>w_db = demo_db_claimed, w_redis = (\<lambda>_. None)\<rparr>,
       sy_flights := sy_flights (run_state demo_db []) + mset (new_flights (Inr [start_flight ''w'' 30 demo_claimed]))\<rparr>)"
    by (intro queue_step.claim_step) simp
  then have "queue_step run_deployment (run_state demo_db []) (run_state demo_db_claimed [start_flight ''w'' 30 demo_claimed])"
    by (simp add: run_state_def new_flights_def)
  moreover have "get_job demo_db ''j1'' = Some demo_job" by (simp add: get_job_def)
  ultimately show ?thesis
    using system_refines_life [OF run_scheduled, of "run_state demo_db_claimed [start_flight ''w'' 30 demo_claimed]" "''j1''"]
    by (auto split: option.splits)
qed

theorem expired_job_is_recovered_witness:
  "\<exists>ts w r. reaper_run_once run_settings Commits (later 200) (sy_world (run_state demo_db_claimed [start_flight ''w'' 30 demo_claimed])) =
      (Inr ts, w) \<and> get_job (w_db w) ''j1'' = Some r \<and> j_status r = DEAD_LETTERED"
proof -
  let ?s = "run_state demo_db_claimed [start_flight ''w'' 30 demo_claimed]"
  have late: "lease_expired (later 200) demo_claimed" by (simp add: lease_expired_def) (simp add: demo_defs)
  have room: "length (filter (\<lambda>k. j_status k = PROCESSING) (jobs (system_db ?s))) \<le>
      nat (reaper_batch_size (dp_settings run_deployment))"
    by simp
  have j: "get_job (system_db ?s) ''j1'' = Some demo_claimed" by (simp add: get_job_def)
  have free: "\<not> locked (later 200) ''j1''" by simp
  have fresh: "fresh_ids (later 200) (system_db ?s)" by (simp add: demo_fresh_later)
  have "\<not> j_attempts demo_claimed < j_max_attempts demo_claimed" by (simp add: demo_defs)
  with expired_job_is_recovered [OF run_claimed j late free room fresh] show ?thesis by auto
qed



text \<open>The event of the run, claimed.\<close>

theorem events_stay_as_recorded_witness:
  "\<exists>s ev r. reach (queue_init run_deployment) (queue_step run_deployment) s \<and> ev \<in># sy_events s \<and>
     r \<in> set (webhook_outbox (system_db s)) \<and> e_id ev = o_id r \<and> e_payload ev = o_payload r \<and> e_attempts ev \<le> o_attempts r"
proof -
  obtain s f e where r: "reach (queue_init run_deployment) (queue_step run_deployment) (run_state s [f])"
    and e: "e \<in> set (webhook_outbox (system_db (run_state s [f])))" "o_status e = OutboxPending"
    using run_delivered by auto
  have c: "1 \<le> webhook_batch_size (dp_settings run_deployment)" "0 < webhook_timeout_seconds (dp_settings run_deployment)"
    by (simp_all add: run_settings_def demo_config_def default_settings_def)
  from event_claimed [OF c e(2,1), of refuses] obtain t k where t: "(webhook_pass run_deployment refuses)\<^sup>*\<^sup>* (run_state s [f]) t"
    "outbox_event_of k \<in># sy_events t" unfolding event_claimed_as_def by blast
  have "(queue_step run_deployment)\<^sup>*\<^sup>* (run_state s [f]) t"
    using t(1) by (induction rule: rtranclp_induct) (auto intro: webhook_pass_step rtranclp.rtrancl_into_rtrancl)
  from events_stay_as_recorded [OF reach_run [OF this r]] reach_run [OF this r] t(2) show ?thesis by blast
qed

end
