(* ===== verification/Cache_Run.thy ===== *)
theory Cache_Run
  imports Queue_Run Post_Refinement
begin

text \<open>
  A second run, of a deployment with a cache: the job is posted while Redis is down, a first read puts
  it into the cache, and a second read is answered from there while the database is down. The
  properties of \<open>Queue_Cache\<close> and \<open>Post_Refinement\<close> are applied to its states.
\<close>

definition cached_deployment :: "redis_store deployment" where
  "cached_deployment = run_deployment\<lparr>dp_settings := demo_config\<rparr>"

lemma demo_config_simps [simp]:
  "cache_enabled demo_config" "cfg_max_attempts demo_config = 5" "job_ttl demo_config PENDING = 30"
  by (simp_all add: demo_config_def default_settings_def job_ttl_def is_terminal_def)

lemma cached_deployment_simps [simp]:
  "dp_redis cached_deployment = mem_redis" "dp_codec cached_deployment = head_codec"
  "dp_digest cached_deployment = (\<lambda>_. ''h1'')" "dp_parse_uuid cached_deployment = Some"
  "dp_parse_url cached_deployment = Some" "dp_settings cached_deployment = demo_config"
  by (simp_all add: cached_deployment_def run_deployment_def)

lemma cached_honest: "honest_redis cached_deployment"
  using mem.redis_laws_axioms by (simp add: honest_redis_def cached_deployment_def run_deployment_def)

definition redis_down :: redis_env where
  "redis_down = \<lparr>re_fate = RedisLost, re_now = 10\<rparr>"

definition down_env :: service_env where
  "down_env = run_service_env\<lparr>sv_redis := (\<lambda>_. redis_down)\<rparr>"

lemma down_clock: "redis_clock 10 (sv_redis down_env) 10" "redis_clock 10 (sv_redis run_service_env) 10"
  by (simp_all add: redis_clock_def down_env_def redis_down_def run_service_env_def mono_def)

lemma cached_posts:
  assumes c: "c = demo_config \<or> c = default_settings"
  shows "\<exists>r. schedule_job mem_redis head_codec (\<lambda>_. ''h1'') Some Some c down_env None run_body
     \<lparr>w_db = empty_db, w_redis = (\<lambda>_. None)\<rparr> = (r, \<lparr>w_db = demo_db, w_redis = (\<lambda>_. None)\<rparr>)"
proof -
  have create: "create_job demo_env demo_new empty_db = Inr ((demo_job, True), demo_db)"
    by (simp add: create_job_def insert_job_def demo_job_def demo_db_def) (simp add: demo_new_def empty_db_def job_ids_def)
  have c': "cache_enabled c" "cfg_max_attempts c = 5" using c by (auto simp: default_settings_def)
  have new: "schedule_new_job c ''h1'' \<lparr> q_recipient = ''ada@example.com'', q_channel = EMAIL, q_payload = [],
      q_priority = HIGH, q_send_at = None, q_delay_seconds = None, q_max_attempts = Some 1, q_callback_url = None,
      q_idempotency_key = Some ''k1'' \<rparr> = demo_new"
    by (simp add: schedule_new_job_def demo_new_def c')
  show ?thesis
    by (simp add: schedule_job_def run_parse opt_all_def merge_key_def schedule_def request_hash_def schedule_cached_def
        cache_get_idempotency_def cache_call_def on_redis_def parse_idem_entry_def Let_def schedule_insert_def new create
        in_tx_def begin_tx_def run_service_env_def down_env_def redis_down_def cache_put_idempotency_def cache_put_job_def
        cache_write_def c')
qed

text \<open>The job is posted, with either limiter in the settings.\<close>

lemma posted:
  assumes c: "c = demo_config \<or> c = default_settings"
  shows "reach (queue_init (run_deployment\<lparr>dp_settings := c\<rparr>)) (queue_step (run_deployment\<lparr>dp_settings := c\<rparr>)) (run_state demo_db [])"
proof -
  let ?D = "run_deployment\<lparr>dp_settings := c\<rparr>"
  have start: "reach (queue_init ?D) (queue_step ?D) (run_state empty_db [])"
    by (rule reach_init) (use c in \<open>auto simp: queue_init_def mem_eval mem_get_def mem_find_def default_settings_def\<close>)
  have fresh: "fresh_ids (sv_env down_env) (system_db (run_state empty_db []))"
    by (simp add: down_env_def run_service_env_def fresh_ids_def demo_env_gen_event empty_db_def job_ids_def)
  obtain r where "schedule_job mem_redis head_codec (\<lambda>_. ''h1'') Some Some c down_env None run_body
     \<lparr>w_db = empty_db, w_redis = (\<lambda>_. None)\<rparr> = (r, \<lparr>w_db = demo_db, w_redis = (\<lambda>_. None)\<rparr>)"
    using cached_posts [OF c] by blast
  then have "queue_step ?D (run_state empty_db [])
      ((run_state empty_db [])\<lparr>sy_world := \<lparr>w_db = demo_db, w_redis = (\<lambda>_. None)\<rparr>, sy_now := 10\<rparr>)"
    by (intro queue_step.schedule_step [OF fresh, where header = None and body = run_body and r = r])
      (simp_all add: down_clock run_deployment_def)
  then show ?thesis by (intro reach_step [OF start]) (simp add: run_state_def)
qed

lemma cached_scheduled: "reach (queue_init cached_deployment) (queue_step cached_deployment) (run_state demo_db [])"
  unfolding cached_deployment_def by (rule posted) simp


text \<open>The entry that the first read writes, and what the second read makes of it.\<close>

definition cached_redis :: redis_store where
  "cached_redis = snd (cache_put_job mem_redis head_codec demo_config (redis_at 10) demo_out (\<lambda>_. None))"

lemma first_read:
  "get_job_route mem_redis head_codec Some demo_config run_service_env ''j1'' False
     \<lparr>w_db = demo_db, w_redis = (\<lambda>_. None)\<rparr> = (Answer 200 demo_out, \<lparr>w_db = demo_db, w_redis = cached_redis\<rparr>)"
proof -
  have none: "rd_get mem_redis t k (\<lambda>_. None) = None" for t k by (simp add: mem_eval mem_get_def mem_find_def)
  have "cache_get_job mem_redis head_codec demo_config (redis_at 10) ''j1'' (\<lambda>_. None) = (Inr None, \<lambda>_. None)"
    by (simp add: cache_get_job_def cache_call_def redis_get_def none parse_entry_def)
  moreover have "get_job demo_db ''j1'' = Some demo_job" by (simp add: get_job_def)
  ultimately show ?thesis
    by (simp add: get_job_route_def service_get_def on_redis_def run_service_env_def cached_redis_def demo_out_def split_beta)
qed

lemma second_read:
  "fst (get_job_route mem_redis head_codec Some demo_config (run_service_env\<lparr>sv_read_ok := False\<rparr>) ''j1'' False
     \<lparr>w_db = demo_db, w_redis = cached_redis\<rparr>) = Answer 200 demo_out"
proof -
  have none: "cached_version mem_redis demo_config 10 i (\<lambda>_. None) = None" for i
    by (simp add: cached_version_def mem_eval mem_get_def mem_find_def)
  have out: "strip_history demo_out = demo_out" "jo_id demo_out = ''j1''" "jo_status demo_out = PENDING"
    by (simp_all add: strip_history_def demo_out_def) (simp_all add: job_out_of_def demo_defs)
  have "jc_load head_codec (jc_dump head_codec demo_out) = Inr demo_out"
    using entry_body_written [of "jo_version demo_out" "jo_id demo_out"] entry_version_written [of "jo_version demo_out" "jo_id demo_out"]
    by (simp add: head_codec_def coalesce_def del: append.simps)
  then have "reads_back head_codec (strip_history demo_out)" by (simp add: reads_back_def out head_codec_def)
  from mem.put_get [of demo_config "redis_at 10" "redis_at 10" demo_out head_codec "\<lambda>_. None", OF _ _ _ _ this] none
  have "cache_get_job mem_redis head_codec demo_config (redis_at 10) ''j1'' cached_redis = (Inr (Some demo_out), cached_redis)"
    by (auto simp: out cached_redis_def)
  then show ?thesis
    by (simp add: get_job_route_def service_get_def on_redis_def run_service_env_def)
qed

definition cached_state :: "redis_store system" where
  "cached_state = (run_state demo_db [])\<lparr>sy_world := \<lparr>w_db = demo_db, w_redis = cached_redis\<rparr>\<rparr>"

lemma cached_reach: "reach (queue_init cached_deployment) (queue_step cached_deployment) cached_state"
proof -
  have "queue_step cached_deployment (run_state demo_db [])
      ((run_state demo_db [])\<lparr>sy_world := \<lparr>w_db = demo_db, w_redis = cached_redis\<rparr>, sy_now := 10\<rparr>)"
    by (rule queue_step.get_step [where e = run_service_env and job_id = "''j1''" and include_attempts = False and
          r = "Answer 200 demo_out"]) (simp_all add: down_clock first_read)
  then show ?thesis by (intro reach_step [OF cached_scheduled]) (simp add: cached_state_def run_state_def)
qed

theorem answers_are_true_witness:
  "fst (get_job_route mem_redis head_codec Some demo_config (run_service_env\<lparr>sv_read_ok := False\<rparr>) ''j1'' False
     (sy_world cached_state)) = Answer 200 demo_out \<and>
   (\<exists>j. get_job (system_db cached_state) ''j1'' = Some j \<and> jo_version demo_out \<le> j_version j)"
proof -
  have out: "jo_id demo_out = ''j1''" by (simp add: demo_out_def)
  have clock: "redis_clock (sy_now cached_state) (sv_redis (run_service_env\<lparr>sv_read_ok := False\<rparr>)) 10"
    using down_clock(2) by (simp add: cached_state_def)
  have "head_codec = dp_codec cached_deployment" by simp
  with head_codec_ok have K: "codec_keeps_head (dp_codec cached_deployment)" by simp
  from second_read
  have told: "fst (get_job_route mem_redis head_codec Some demo_config (run_service_env\<lparr>sv_read_ok := False\<rparr>) ''j1'' False
     (sy_world cached_state)) = Answer 200 demo_out" by (simp add: cached_state_def)
  with answers_are_true [OF cached_honest K cached_reach clock, of "''j1''" False] show ?thesis
    by (auto simp: out)
qed

text \<open>The environment of a second post in that state, and what the properties ask of it.\<close>

definition retry_env :: service_env where
  "retry_env = run_service_env\<lparr>sv_env := later 200\<rparr>"

lemma retry_facts:
  "codec_keeps_head (dp_codec cached_deployment)" "redis_clock (sy_now cached_state) (sv_redis retry_env) 10"
  "ids_parse (dp_parse_uuid cached_deployment) (system_db cached_state)" "fresh_ids (sv_env retry_env) (system_db cached_state)"
  "system_db cached_state = demo_db"
proof -
  show db: "system_db cached_state = demo_db" by (simp add: cached_state_def)
  show "codec_keeps_head (dp_codec cached_deployment)" using head_codec_ok by simp
  show "redis_clock (sy_now cached_state) (sv_redis retry_env) 10" using down_clock(2) by (simp add: cached_state_def retry_env_def)
  show "ids_parse (dp_parse_uuid cached_deployment) (system_db cached_state)" using demo_ids_parse by (simp add: db)
  show "fresh_ids (sv_env retry_env) (system_db cached_state)" by (simp add: db retry_env_def demo_fresh_later)
qed

theorem retry_is_safe_witness:
  "w_db (snd (schedule_job mem_redis head_codec (\<lambda>_. ''h1'') Some Some demo_config retry_env None
      run_body (sy_world cached_state))) = demo_db \<and>
   (case fst (schedule_job mem_redis head_codec (\<lambda>_. ''h1'') Some Some demo_config retry_env None
      run_body (sy_world cached_state)) of
      Answer code out \<Rightarrow> code = 200 \<and> jo_id out = ''j1''
    | Rejected code m \<Rightarrow> False
    | ServerError x \<Rightarrow> False)"
proof -
  have j: "demo_job \<in> set (jobs (system_db cached_state))" "j_idempotency_key demo_job = Some ''k1''"
    by (simp add: retry_facts) (simp add: demo_defs)
  have h: "request_hash (\<lambda>_. ''h1'') q = j_request_hash demo_job" for q by (simp add: request_hash_def demo_defs)
  have "j_id demo_job = ''j1''" "\<not> db_fails retry_env" by (simp_all add: demo_defs db_fails_def retry_env_def run_service_env_def)
  with retry_is_safe [OF cached_honest retry_facts(1) cached_reach retry_facts(2-4) j, where header = None and body = run_body]
    run_parse h
  show ?thesis by (simp add: merge_key_def opt_all_def retry_facts split: reply.splits)
qed

theorem post_refines_spec_witness:
  "(let (reply, w') = schedule_job mem_redis head_codec (\<lambda>_. ''h1'') Some Some demo_config retry_env None
       run_body (sy_world cached_state)
    in (status_of reply, known_keys (w_db w'))) = (200, [''k1'' \<mapsto> ''h1''])"
proof -
  obtain reply w' where run: "schedule_job mem_redis head_codec (\<lambda>_. ''h1'') Some Some demo_config retry_env None
      run_body (sy_world cached_state) = (reply, w')"
    by (cases "schedule_job mem_redis head_codec (\<lambda>_. ''h1'') Some Some demo_config retry_env None
      run_body (sy_world cached_state)")
  have keys: "known_keys demo_db = [''k1'' \<mapsto> ''h1'']"
    by (rule ext) (simp add: known_keys_def get_job_by_idempotency_key_def demo_defs)
  have "\<not> db_fails retry_env" by (simp add: db_fails_def retry_env_def run_service_env_def)
  with post_refines_spec [OF cached_honest retry_facts(1) cached_reach retry_facts(2-4), where header = None and body = run_body
      and reply = reply and w' = w'] run_parse run
  show ?thesis by (simp add: post_answer_def accepted_def too_late_def merge_key_def opt_all_def retry_facts keys post_spec_def
        request_hash_def)
qed

end
