(* ===== verification/Fleet_Run.thy ===== *)
theory Fleet_Run
  imports Fleet Cache_Run
begin

text \<open>
  A fleet at work: a job is posted, a worker process starts and claims it, is told to stop, finishes
  nothing more than it has to, and exits. The properties of \<open>Processes\<close> and \<open>Fleet\<close> on these states.
\<close>

section \<open>A process that stops\<close>

text \<open>Its loop still has a batch, of one delivery that is done.\<close>

definition done_flight :: flight where
  "done_flight = (start_flight ''w'' 30 demo_claimed)\<lparr>fl_phase := Done\<rparr>"

definition idle_process :: process_state where
  "idle_process =
     (start_process (override_concurrency (Some 1) run_settings) None 0)\<lparr>pr_stop := True, pr_loops := [Busy [done_flight]]\<rparr>"

definition exited_process :: process_state where
  "exited_process =
     idle_process\<lparr>pr_loops := [Returned], pr_reaper := Ended, pr_dispatcher := Ended, pr_exited := True\<rparr>"

lemma idle_process_simps [simp]:
  "pr_loops idle_process = [Busy [done_flight]]" "pr_reaper idle_process = Polling" "pr_dispatcher idle_process = Polling"
  "pr_stop idle_process" "pr_tasks idle_process = []" "\<not> pr_exited idle_process"
  by (simp_all add: idle_process_def start_process_def override_concurrency_def)

lemma five_steps: "(5::nat) = Suc (Suc (Suc (Suc (Suc 0))))"
  by simp

lemma idle_process_exits:
  "(process_step run_deployment ^^ 5) (idle_process, sy_world (run_state demo_db []), 10)
     (exited_process, sy_world (run_state demo_db []), 10)"
proof -
  let ?w = "sy_world (run_state demo_db [])" and ?S = "process_step run_deployment"
  let ?p0 = "idle_process\<lparr>pr_loops := [AtHead]\<rparr>"
  let ?p1 = "idle_process\<lparr>pr_loops := [Returned]\<rparr>"
  let ?p2 = "?p1\<lparr>pr_reaper := Ended\<rparr>"
  let ?p3 = "?p2\<lparr>pr_dispatcher := Ended\<rparr>"
  have "?S (idle_process, ?w, 10) (idle_process\<lparr>pr_loops := (pr_loops idle_process)[0 := AtHead]\<rparr>, ?w, 10)"
    by (rule process_step.batch_done_step) (simp, simp, simp add: done_flight_def start_flight_def)
  then have 0: "?S (idle_process, ?w, 10) (?p0, ?w, 10)" by simp
  have "?S (?p0, ?w, 10) (?p0\<lparr>pr_loops := (pr_loops ?p0)[0 := Returned],
      pr_last_activity := (case Returned of Busy fs \<Rightarrow> 0 | _ \<Rightarrow> pr_last_activity ?p0)\<rparr>, ?w, 10)"
    by (rule process_step.head_step [where u = 1]) (simp_all add: worker_loop_head_def)
  then have 1: "?S (?p0, ?w, 10) (?p1, ?w, 10)" by simp
  have "?S (?p1, ?w, 10) (?p1\<lparr>pr_reaper := Ended, pr_tasks := pr_tasks ?p1 @ []\<rparr>, ?w, 10)"
    by (rule process_step.reaper_step [where env = "later 200"]) (simp_all add: reaper_head_def demo_fresh_later)
  then have 2: "?S (?p1, ?w, 10) (?p2, ?w, 10)" by (simp add: idle_process_def start_process_def)
  have 3: "?S (?p2, ?w, 10) (?p3, ?w, 10)"
    by (rule process_step.dispatcher_step [where finish_order = id]) (simp_all add: dispatcher_head_def)
  have "?S (?p3, ?w, 10) (?p3\<lparr>pr_exited := True\<rparr>, ?w, 10)"
    by (rule process_step.exit_step) (simp add: may_exit_def)
  then have 4: "?S (?p3, ?w, 10) (exited_process, ?w, 10)" by (simp add: exited_process_def)
  have "(?S ^^ Suc (Suc (Suc (Suc (Suc 0))))) (idle_process, ?w, 10) (exited_process, ?w, 10)"
    using 0 1 2 3 4 by (intro relpowp_Suc_I [where P = ?S]) simp_all
  then show ?thesis by (simp only: five_steps)
qed


section \<open>A fleet that delivers\<close>

definition run_fleet :: "db \<Rightarrow> process_state list \<Rightarrow> redis_store fleet" where
  "run_fleet s ps =
     \<lparr> ft_processes = ps, ft_world = \<lparr>w_db = s, w_redis = (\<lambda>_. None)\<rparr>, ft_now = 10, ft_readers = [] \<rparr>"

lemma run_fleet_system: "fleet_system (run_fleet s []) = run_state s []"
  by (simp add: fleet_system_def run_fleet_def run_state_def)

definition run_process :: process_state where
  "run_process = start_process (override_concurrency (Some 1) run_settings) None 0"

text \<open>The job as that process claims it.\<close>

definition fleet_claimed :: job where
  "fleet_claimed = claim_row demo_env (loop_name run_process 0) 30 demo_job"

definition fleet_db :: db where
  "fleet_db = empty_db\<lparr>jobs := [fleet_claimed]\<rparr>"

definition busy_process :: process_state where
  "busy_process = run_process\<lparr>pr_loops := [Busy [start_flight (worker_id run_settings) 30 fleet_claimed]]\<rparr>"

lemma fleet_posts: "reach (fleet_init run_deployment) (fleet_step run_deployment) (run_fleet demo_db [])"
proof -
  have start: "reach (fleet_init run_deployment) (fleet_step run_deployment) (run_fleet empty_db [])"
    by (rule reach_init)
      (simp add: fleet_init_def run_fleet_system queue_init_def mem_eval mem_get_def mem_find_def,
        simp add: run_fleet_def)
  have "queue_step run_deployment (run_state empty_db []) ((run_state empty_db [])\<lparr>sy_world := \<lparr>w_db = demo_db, w_redis = (\<lambda>_. None)\<rparr>, sy_now := 10\<rparr>)"
    by (rule run_schedules)
  then have "fleet_step run_deployment (run_fleet empty_db []) ((run_fleet empty_db [])\<lparr>ft_world := \<lparr>w_db = demo_db, w_redis = (\<lambda>_. None)\<rparr>,
      ft_now := 10, ft_readers := []\<rparr>)"
    using fleet_step.request_served [of run_deployment "run_fleet empty_db []"] by (force simp: run_fleet_system)
  then show ?thesis by (intro reach_step [OF start]) (simp add: run_fleet_def)
qed

lemma fleet_claims: "reach (fleet_init run_deployment) (fleet_step run_deployment) (run_fleet fleet_db [busy_process])"
proof -
  have "fleet_step run_deployment (run_fleet demo_db []) ((run_fleet demo_db [])\<lparr>ft_processes := ft_processes (run_fleet demo_db []) @ [run_process]\<rparr>)"
    by (rule fleet_step.process_starts [where arg = "Some 1" and exit_when_idle = None and clock = 0]) (simp add: run_process_def)
  from reach_step [OF fleet_posts this]
  have started: "reach (fleet_init run_deployment) (fleet_step run_deployment) (run_fleet demo_db [run_process])"
    by (simp add: run_fleet_def)
  have "claim_due_jobs demo_env wk 10 30 demo_db = Inr ([claim_row demo_env wk 30 demo_job], empty_db\<lparr>jobs := [claim_row demo_env wk 30 demo_job]\<rparr>)" for wk
    by (simp add: claim_due_jobs_def select_due_def sql_select_def sql_limit_def is_due_def
       returning_def update_where_def demo_defs coalesce_def Let_def)
  then have "worker_loop_head run_settings (pr_worker_id run_process) (loop_name run_process 0) False 0 Commits demo_env 1
      \<lparr>w_db = demo_db, w_redis = (\<lambda>_. None)\<rparr> =
      (Busy [start_flight (worker_id run_settings) 30 fleet_claimed], \<lparr>w_db = fleet_db, w_redis = (\<lambda>_. None)\<rparr>)"
    by (simp add: worker_loop_head_def claim_batch_def in_tx_def begin_tx_def str_or_def fleet_claimed_def fleet_db_def
        loop_name_def) (simp add: run_process_def start_process_def override_concurrency_def)
  then have "process_step run_deployment (run_process, \<lparr>w_db = demo_db, w_redis = (\<lambda>_. None)\<rparr>, 10)
      (run_process\<lparr>pr_loops := (pr_loops run_process)[0 := Busy [start_flight (worker_id run_settings) 30 fleet_claimed]],
         pr_last_activity := (case Busy [start_flight (worker_id run_settings) 30 fleet_claimed] of
           Busy fs \<Rightarrow> 0 | _ \<Rightarrow> pr_last_activity run_process)\<rparr>, \<lparr>w_db = fleet_db, w_redis = (\<lambda>_. None)\<rparr>, 10)"
    by (intro process_step.head_step [where u = 1]) (simp_all add: run_process_def start_process_def override_concurrency_def)
  then have "process_step run_deployment (run_process, \<lparr>w_db = demo_db, w_redis = (\<lambda>_. None)\<rparr>, 10)
      (busy_process, \<lparr>w_db = fleet_db, w_redis = (\<lambda>_. None)\<rparr>, 10)"
    by (simp add: busy_process_def run_process_def start_process_def override_concurrency_def)
  then have "fleet_step run_deployment (run_fleet demo_db [run_process]) ((run_fleet demo_db [run_process])\<lparr>
      ft_processes := (ft_processes (run_fleet demo_db [run_process]))[0 := busy_process],
      ft_world := \<lparr>w_db = fleet_db, w_redis = (\<lambda>_. None)\<rparr>, ft_now := 10\<rparr>)"
    by (intro fleet_step.process_moves) (simp_all add: run_fleet_def)
  from reach_step [OF started this] show ?thesis by (simp add: run_fleet_def)
qed

theorem fleet_refines_system_witness:
  "reach (queue_init run_deployment) (queue_step run_deployment) (fleet_system (run_fleet fleet_db [busy_process])) \<and>
   sy_flights (fleet_system (run_fleet fleet_db [busy_process])) = {#start_flight (worker_id run_settings) 30 fleet_claimed#}"
proof -
  have "reach (queue_init run_deployment) (queue_step run_deployment) (fleet_system (run_fleet fleet_db [busy_process]))"
    using fleet_refines_system [OF fleet_claims rtranclp.rtrancl_refl] by (rule conjunct1)
  then show ?thesis by (simp add: fleet_system_def run_fleet_def busy_process_def flights_of_def)
qed

end
