(* ===== verification/Seed_Run.thy ===== *)
theory Seed_Run
  imports Seed Fleet_Run
begin

text \<open>
  The seed script at work: a run of it exists from every reachable state, and on the empty system it
  has exactly the outcomes of \<open>Seed\<close>.
\<close>

section \<open>Posts can always be made\<close>

definition plain_ids :: "db \<Rightarrow> bool" where
  "plain_ids s \<longleftrightarrow> (\<forall>j\<in>set (jobs s). CHR ''|'' \<notin> set (j_id j))"

lemma create_job_plain:
  "create_job env n s = Inr (r, s') \<Longrightarrow> plain_ids s \<Longrightarrow> CHR ''|'' \<notin> set (gen_job_id env) \<Longrightarrow> plain_ids s'"
  by (auto simp: create_job_def insert_job_def bind_result_Inr_iff plain_ids_def new_row_def split: if_splits option.splits)

lemma schedule_job_plain:
  assumes plain: "plain_ids (w_db w)" "CHR ''|'' \<notin> set (gen_job_id (sv_env e))"
    and run: "schedule_job R K digest pu url c e header body w = (reply, w')"
  shows "plain_ids (w_db w')"
proof -
  have "plain_ids (w_db (snd (schedule R K digest pu c e q w)))" for q
  proof -
    let ?h = "request_hash digest q"
    obtain a w1 where a: "schedule_cached R K pu c e ?h (q_idempotency_key q) w = (a, w1)"
      by (cases "schedule_cached R K pu c e ?h (q_idempotency_key q) w")
    have same: "w_db w1 = w_db w" using schedule_cached_db [of R K pu c e ?h "q_idempotency_key q" w] a by simp
    have "plain_ids (w_db (snd (schedule_insert R K c e ?h q w1)))"
      unfolding schedule_insert_w_db same
      by (rule begin_tx_keeps [where P = plain_ids]) (use plain create_job_plain in blast)+
    with plain(1) same show ?thesis by (auto simp: schedule_def Let_def a split: sum.splits option.splits)
  qed
  with run plain(1) show ?thesis
    by (auto simp: schedule_job_def Let_def split_beta split: sum.splits option.splits if_splits)
qed

lemma posts_exist:
  assumes "dp_parse_uuid D = Some"
  shows "plain_ids (system_db s) \<Longrightarrow> \<exists>outs t. posts D u ps s outs t"
proof (induction ps arbitrary: s)
  case Nil
  then show ?case using posts_done by blast
next
  case (Cons p ps)
  obtain label body header where p: "p = (label, body, header)" by (cases p)
  obtain env where env: "fresh_ids env (system_db s)" "CHR ''|'' \<notin> set (gen_job_id env)" using ex_fresh_env by blast
  let ?e = "\<lparr>sv_clock = u, sv_redis = (\<lambda>_. \<lparr>re_fate = RedisLost, re_now = sy_now s\<rparr>), sv_fate = Commits, sv_env = env,
    sv_read_ok = True\<rparr>"
  obtain reply w where run: "schedule_job (dp_redis D) (dp_codec D) (dp_digest D) (dp_parse_uuid D) (dp_parse_url D) (dp_settings D)
      ?e header body (sy_world s) = (reply, w)"
    by (cases "schedule_job (dp_redis D) (dp_codec D) (dp_digest D) (dp_parse_uuid D) (dp_parse_url D) (dp_settings D)
      ?e header body (sy_world s)")
  have "plain_ids (w_db w)"
    using schedule_job_plain [OF _ _ run] Cons.prems env(2) by (simp add: system_db_def)
  then obtain outs t where rest: "posts D u ps (s\<lparr>sy_world := w, sy_now := sy_now s\<rparr>) outs t"
    using Cons.IH [of "s\<lparr>sy_world := w, sy_now := sy_now s\<rparr>"] by (auto simp: system_db_def)
  have "ids_parse (dp_parse_uuid D) (system_db s)" using Cons.prems by (simp add: ids_parse_def plain_ids_def assms)
  moreover have "redis_clock (sy_now s) (sv_redis ?e) (sy_now s)" by (simp add: redis_clock_def mono_def)
  ultimately have "posts D u ((label, body, header) # ps) s ((label, status_of reply) # outs) t"
    using posts_next [where e = ?e, OF _ _ _ _ _ run rest] env(1) by (simp add: db_fails_def)
  then show ?case unfolding p by blast
qed

section \<open>A seeded system\<close>

text \<open>A digest that tells recipients apart.\<close>

definition recipient_digest :: "json \<Rightarrow> string" where
  "recipient_digest j =
     (case j of JObj d \<Rightarrow> coalesce (field json_str d ''recipient'') [] | _ \<Rightarrow> [])"

definition seeded_deployment :: "redis_store deployment" where
  "seeded_deployment = cached_deployment\<lparr>dp_digest := recipient_digest\<rparr>"

lemma seeded_start: "reach (queue_init seeded_deployment) (queue_step seeded_deployment) (run_state empty_db [])"
  by (rule reach_init) (simp add: queue_init_def seeded_deployment_def mem_eval mem_get_def mem_find_def)

lemma recipients_differ:
  "request_hash recipient_digest conflict_request \<noteq> request_hash recipient_digest (order_request 1)"
  by code_simp

theorem seed_outcomes_witness:
  "\<exists>outs t. posts seeded_deployment 120 (map seed_post (build_requests (\<lambda>_. 1) 0)) (run_state empty_db []) outs t \<and>
     length outs = 51 \<and> (''idempotent (replay)'', 200) \<in> set outs \<and> (''idempotent (conflicting reuse)'', 409) \<in> set outs"
proof -
  have uuid: "dp_parse_uuid seeded_deployment = Some" and codec: "dp_codec seeded_deployment = head_codec"
    by (simp_all add: seeded_deployment_def)
  have K: "codec_keeps_head (dp_codec seeded_deployment)" unfolding codec by (rule head_codec_ok)
  have honest: "honest_redis seeded_deployment"
    using cached_honest by (simp add: honest_redis_def seeded_deployment_def)
  have hash: "request_hash (dp_digest seeded_deployment) conflict_request \<noteq>
      request_hash (dp_digest seeded_deployment) (order_request 1)"
    using recipients_differ by (simp add: seeded_deployment_def)
  have plain: "plain_ids (system_db (run_state empty_db []))" by (simp add: plain_ids_def) (simp add: empty_db_def)
  obtain outs t where run: "posts seeded_deployment (0 + 120) (map seed_post (build_requests (\<lambda>_. 1) 0)) (run_state empty_db []) outs t"
    using posts_exist [OF uuid plain] by blast
  have "outs = map (\<lambda>(label, body, headers). (label, seed_status label)) (build_requests (\<lambda>_. 1) 0)"
    using seed_outcomes [OF honest K seeded_start run _ _ hash] by (simp add: get_job_by_idempotency_key_def empty_db_def)
  then show ?thesis
    using run by (intro exI [of _ outs] exI [of _ t])
      (simp add: build_requests_split seed_first_def seed_idempotent_def seed_conflict_def seed_failures_def Let_def seed_status_def)
qed

end
