(* ===== verification/Await.thy ===== *)
theory Await
  imports NQ_Prelude
begin

text \<open>
  Coroutines as state machines: a step runs from one \<open>await\<close> to the next, in the environment and the
  world that it finds there. The interface \<open>await_machine\<close> is what the machines of the API share: a
  count of the steps that are left, and nothing happening once it is zero.
\<close>

section \<open>Running a machine\<close>

text \<open>Without interruption: the world of one step is that of the next.\<close>

fun run_steps :: "('p \<Rightarrow> 'w \<Rightarrow> 'p \<times> 'w) \<Rightarrow> nat \<Rightarrow> 'p \<Rightarrow> 'w \<Rightarrow> 'p \<times> 'w" where
  "run_steps f 0 ph w = (ph, w)"
| "run_steps f (Suc n) ph w = (case f ph w of (ph', w') \<Rightarrow> run_steps f n ph' w')"

text \<open>With interruptions: whatever happens between two steps is in the world that the next one finds.\<close>

fun steps_after :: "('e \<Rightarrow> 'p \<Rightarrow> 'w \<Rightarrow> 'p \<times> 'w) \<Rightarrow> ('e \<times> 'w) list \<Rightarrow> 'p \<Rightarrow> 'p" where
  "steps_after f [] ph = ph"
| "steps_after f ((e, w) # ews) ph = steps_after f ews (fst (f e ph w))"

section \<open>Machines that end\<close>

locale await_machine =
  fixes step :: "'e \<Rightarrow> 'p \<Rightarrow> 'w \<Rightarrow> 'p \<times> 'w" and left :: "'p \<Rightarrow> nat"
  assumes nearer: "left ph \<noteq> 0 \<Longrightarrow> left (fst (step e ph w)) < left ph"
    and over: "left ph = 0 \<Longrightarrow> step e ph w = (ph, w)"
begin

lemma step_left: "left (fst (step e ph w)) \<le> left ph - 1"
  using nearer [of ph e w] over [of ph e w] by (cases "left ph = 0") auto

lemma run_more:
  "left ph \<le> n \<Longrightarrow> run_steps (\<lambda>ph. step (env ph) ph) (Suc n) ph w = run_steps (\<lambda>ph. step (env ph) ph) n ph w"
proof (induction n arbitrary: ph w)
  case 0
  then show ?case by (simp add: over)
next
  case (Suc n)
  obtain ph' w' where s: "step (env ph) ph w = (ph', w')" by (cases "step (env ph) ph w")
  have "left ph' \<le> n" using step_left [of "env ph" ph w] s Suc.prems by simp
  from Suc.IH [OF this, of w'] show ?case by (simp only: run_steps.simps s prod.case)
qed

text \<open>With enough fuel for every phase, a run is its first step and the run after it.\<close>

lemma run_unfold:
  assumes "\<And>ph. left ph \<le> n"
  shows "run_steps (\<lambda>ph. step (env ph) ph) n ph w =
     (case step (env ph) ph w of (ph', w') \<Rightarrow> run_steps (\<lambda>ph. step (env ph) ph) n ph' w')"
  using run_more [OF assms, of env ph w] by simp

lemma after_left: "left (steps_after step ews ph) \<le> left ph - length ews"
proof (induction ews arbitrary: ph)
  case (Cons x ews)
  obtain e w where x: "x = (e, w)" by (cases x)
  from Cons.IH [of "fst (step e ph w)"] step_left [of e ph w] show ?case by (simp add: x)
qed simp

lemma after_ends: "left ph \<le> length ews \<Longrightarrow> left (steps_after step ews ph) = 0"
  using after_left [of ews ph] by simp

end

end
