(* ===== verification/Requests.thy ===== *)
theory Requests
  imports Post_Refinement Await
begin

text \<open>
  A request to the API as the event loop runs it: a state machine that advances from one \<open>await\<close> to the
  next, so that requests interleave with each other and with the workers. The phases are the calls to
  Redis and Postgres of \<open>JobService.schedule\<close>, \<open>JobService.get\<close> and \<open>DeadLetterService.requeue\<close>, between
  the validation of the route and its answer. Run without interruption they are the routes of
  \<open>Api_Routes\<close>.
\<close>

section \<open>Phases\<close>

text \<open>Who called \<open>JobService.get\<close>: the route, or \<open>schedule\<close> on its fast path.\<close>

datatype get_caller = FromRoute | FromSchedule schedule_request

datatype response = JobReply "job_out reply" | DictReply "dict reply"

datatype request_phase =
    SeekKey schedule_request                       \<comment> \<open>before \<open>get_idempotency\<close>\<close>
  | SeekJob uuid bool get_caller                   \<comment> \<open>before the cache is asked for the job\<close>
  | ReadJob uuid bool get_caller                   \<comment> \<open>before the row is read\<close>
  | ReadAttempts job get_caller                    \<comment> \<open>before its attempts are read\<close>
  | PutRead job "attempt_out list option" get_caller  \<comment> \<open>before the row goes to the cache\<close>
  | InsertJob schedule_request                     \<comment> \<open>before the transaction of \<open>schedule\<close>\<close>
  | PutKey schedule_request job bool               \<comment> \<open>before \<open>put_idempotency\<close>\<close>
  | PutJob job bool                                \<comment> \<open>before the new row goes to the cache\<close>
  | RequeueRow uuid int                            \<comment> \<open>before the transaction of \<open>requeue\<close>\<close>
  | DropRow uuid transition                        \<comment> \<open>before the invalidation\<close>
  | Answered response

record request_env =
  rq_redis :: redis_env
  rq_fate :: tx_fate
  rq_env :: txenv
  rq_read_ok :: bool

section \<open>Arrival\<close>

text \<open>
  What runs before the first \<open>await\<close>: FastAPI's validation, the merge of header and body, and the check
  of \<open>send_at\<close> against the clock.
\<close>

definition start_post :: "(string \<Rightarrow> string option) \<Rightarrow> time \<Rightarrow> string option \<Rightarrow> raw_request \<Rightarrow> request_phase" where
  "start_post parse_url clock header body =
     (case parse_request parse_url body of
        Inl x \<Rightarrow> Answered (JobReply validation_error)
      | Inr q \<Rightarrow>
          if \<not> opt_all (length_in 0 255) header then Answered (JobReply validation_error)
          else case merge_key header q of
                 None \<Rightarrow> Answered (JobReply (Rejected 422 ''Idempotency-Key header and body idempotency_key differ''))
               | Some q' \<Rightarrow>
                   if too_late clock q' then Answered (JobReply (schedule_reply (Inl (InvalidSchedule ''send_at is in the past''))))
                   else SeekKey q')"

definition start_get :: "(string \<Rightarrow> uuid option) \<Rightarrow> string \<Rightarrow> bool \<Rightarrow> request_phase" where
  "start_get parse_uuid job_id include_attempts =
     (case parse_uuid job_id of
        None \<Rightarrow> Answered (JobReply validation_error)
      | Some i \<Rightarrow> SeekJob i include_attempts FromRoute)"

definition start_requeue :: "(string \<Rightarrow> uuid option) \<Rightarrow> settings \<Rightarrow> string \<Rightarrow> int option \<Rightarrow> request_phase" where
  "start_requeue parse_uuid c job_id extra =
     (case parse_uuid job_id of
        None \<Rightarrow> Answered (DictReply validation_error)
      | Some i \<Rightarrow>
          if \<not> opt_all (int_in 1 20) extra then Answered (DictReply validation_error)
          else RequeueRow i (coalesce extra (cfg_max_attempts c)))"

section \<open>Steps\<close>

text \<open>The job that \<open>JobService.get\<close> returns, or its absence, as its caller takes it.\<close>

fun got_job :: "get_caller \<Rightarrow> job_out option \<Rightarrow> request_phase" where
  "got_job FromRoute None = Answered (JobReply (Rejected 404 ''job not found''))"
| "got_job FromRoute (Some out) = Answered (JobReply (Answer 200 out))"
| "got_job (FromSchedule q) None = InsertJob q"
| "got_job (FromSchedule q) (Some out) = Answered (JobReply (schedule_reply (Inr (out, False))))"

text \<open>An exception that \<open>JobService\<close> raises, as the route answers it.\<close>

definition raised :: "exn \<Rightarrow> request_phase" where
  "raised x = Answered (JobReply (schedule_reply (Inl x)))"

definition get_raised :: "get_caller \<Rightarrow> exn \<Rightarrow> request_phase" where
  "get_raised from x = (case from of FromRoute \<Rightarrow> Answered (JobReply (ServerError x)) | FromSchedule q \<Rightarrow> raised x)"

definition seek_key ::
  "'r redis_cmds \<Rightarrow> (json \<Rightarrow> string) \<Rightarrow> (string \<Rightarrow> uuid option) \<Rightarrow> settings \<Rightarrow> request_env \<Rightarrow> schedule_request \<Rightarrow>
   'r world \<Rightarrow> request_phase \<times> 'r world"
where
  "seek_key R digest parse_uuid c e q w =
     (case q_idempotency_key q of
        None \<Rightarrow> (InsertJob q, w)
      | Some k \<Rightarrow>
          (case on_redis (cache_get_idempotency R parse_uuid c (rq_redis e) k) w of
             (Inl x, w1) \<Rightarrow> (raised x, w1)
           | (Inr None, w1) \<Rightarrow> (InsertJob q, w1)
           | (Inr (Some (i, cached_hash)), w1) \<Rightarrow>
               if cached_hash \<noteq> request_hash digest q then (raised (IdempotencyConflict i), w1)
               else (SeekJob i False (FromSchedule q), w1)))"

definition seek_job ::
  "'r redis_cmds \<Rightarrow> job_codec \<Rightarrow> settings \<Rightarrow> request_env \<Rightarrow> uuid \<Rightarrow> bool \<Rightarrow> get_caller \<Rightarrow> 'r world \<Rightarrow> request_phase \<times> 'r world"
where
  "seek_job R K c e i include_attempts from w =
     (case (if include_attempts then (Inr None, w) else on_redis (cache_get_job R K c (rq_redis e) i) w) of
        (Inl x, w1) \<Rightarrow> (get_raised from x, w1)
      | (Inr (Some out), w1) \<Rightarrow> (got_job from (Some out), w1)
      | (Inr None, w1) \<Rightarrow> (ReadJob i include_attempts from, w1))"

definition read_job :: "request_env \<Rightarrow> uuid \<Rightarrow> bool \<Rightarrow> get_caller \<Rightarrow> 'r world \<Rightarrow> request_phase" where
  "read_job e i include_attempts from w =
     (if \<not> rq_read_ok e then get_raised from OperationalError
      else case get_job (w_db w) i of
             None \<Rightarrow> got_job from None
           | Some j \<Rightarrow> if include_attempts then ReadAttempts j from else PutRead j None from)"

definition read_attempts :: "request_env \<Rightarrow> job \<Rightarrow> get_caller \<Rightarrow> 'r world \<Rightarrow> request_phase" where
  "read_attempts e j from w =
     (if \<not> rq_read_ok e then get_raised from OperationalError
      else PutRead j (Some (map attempt_out_of (get_job_attempts (w_db w) (j_id j)))) from)"

definition read_view :: "job \<Rightarrow> attempt_out list option \<Rightarrow> job_out" where
  "read_view j history = (case history of None \<Rightarrow> job_out_of j | Some h \<Rightarrow> (job_out_of j)\<lparr>jo_attempt_history := Some h\<rparr>)"

definition insert_row ::
  "(json \<Rightarrow> string) \<Rightarrow> settings \<Rightarrow> request_env \<Rightarrow> schedule_request \<Rightarrow> 'r world \<Rightarrow> request_phase \<times> 'r world"
where
  "insert_row digest c e q w =
     (case in_tx (rq_fate e) (create_job (rq_env e) (schedule_new_job c (request_hash digest q) q)) w of
        (Inl x, w1) \<Rightarrow> (raised x, w1)
      | (Inr (j, created), w1) \<Rightarrow>
          if \<not> created \<and> j_request_hash j \<noteq> request_hash digest q then (raised (IdempotencyConflict (j_id j)), w1)
          else (PutKey q j created, w1))"

definition put_key ::
  "'r redis_cmds \<Rightarrow> settings \<Rightarrow> request_env \<Rightarrow> schedule_request \<Rightarrow> job \<Rightarrow> 'r world \<Rightarrow> 'r world"
where
  "put_key R c e q j w =
     (case q_idempotency_key q of
        None \<Rightarrow> w
      | Some k \<Rightarrow> w\<lparr>w_redis := cache_put_idempotency R c (rq_redis e) k (j_id j) (j_request_hash j) (w_redis w)\<rparr>)"

definition put_row :: "'r redis_cmds \<Rightarrow> job_codec \<Rightarrow> settings \<Rightarrow> request_env \<Rightarrow> job \<Rightarrow> 'r world \<Rightarrow> 'r world" where
  "put_row R K c e j w = snd (on_redis (cache_put_job R K c (rq_redis e) (job_out_of j)) w)"

definition requeue_row ::
  "request_env \<Rightarrow> uuid \<Rightarrow> int \<Rightarrow> 'r world \<Rightarrow> request_phase \<times> 'r world"
where
  "requeue_row e i extra w =
     (case in_tx (rq_fate e) (requeue_dead_letter (rq_env e) i extra) w of
        (Inl x, w1) \<Rightarrow> (Answered (DictReply (ServerError x)), w1)
      | (Inr None, w1) \<Rightarrow> (Answered (DictReply (Rejected 404 ''job is not in the dead letter queue'')), w1)
      | (Inr (Some t), w1) \<Rightarrow> (DropRow i t, w1))"

fun request_step ::
  "'r redis_cmds \<Rightarrow> job_codec \<Rightarrow> (json \<Rightarrow> string) \<Rightarrow> (string \<Rightarrow> uuid option) \<Rightarrow> settings \<Rightarrow> request_env \<Rightarrow> request_phase \<Rightarrow>
   'r world \<Rightarrow> request_phase \<times> 'r world"
where
  "request_step R K digest parse_uuid c e (SeekKey q) w = seek_key R digest parse_uuid c e q w"
| "request_step R K digest parse_uuid c e (SeekJob i inc from) w = seek_job R K c e i inc from w"
| "request_step R K digest parse_uuid c e (ReadJob i inc from) w = (read_job e i inc from w, w)"
| "request_step R K digest parse_uuid c e (ReadAttempts j from) w = (read_attempts e j from w, w)"
| "request_step R K digest parse_uuid c e (PutRead j history from) w =
     (got_job from (Some (read_view j history)), put_row R K c e j w)"
| "request_step R K digest parse_uuid c e (InsertJob q) w = insert_row digest c e q w"
| "request_step R K digest parse_uuid c e (PutKey q j created) w = (PutJob j created, put_key R c e q j w)"
| "request_step R K digest parse_uuid c e (PutJob j created) w =
     (Answered (JobReply (schedule_reply (Inr (job_out_of j, created)))), put_row R K c e j w)"
| "request_step R K digest parse_uuid c e (RequeueRow i extra) w = requeue_row e i extra w"
| "request_step R K digest parse_uuid c e (DropRow i t) w =
     (Answered (DictReply (Answer 202 [(''status'', JStr ''requeued''), (''job_id'', JStr i)])),
      w\<lparr>w_redis := cache_invalidate_job R c (rq_redis e) (t_job_id t) (t_version t) (w_redis w)\<rparr>)"
| "request_step R K digest parse_uuid c e (Answered r) w = (Answered r, w)"

section \<open>Without interruption\<close>

text \<open>
  The call of Redis that a phase makes, by its place in the code, as the environment of a service call
  numbers them.
\<close>

fun redis_place :: "request_phase \<Rightarrow> nat" where
  "redis_place (SeekKey q) = 0"
| "redis_place (SeekJob i inc (FromSchedule q)) = 1"
| "redis_place (SeekJob i inc FromRoute) = 0"
| "redis_place (PutRead j h (FromSchedule q)) = 2"
| "redis_place (PutRead j h FromRoute) = 1"
| "redis_place (PutKey q j b) = 3"
| "redis_place (PutJob j b) = 4"
| "redis_place _ = 0"

definition phase_env :: "service_env \<Rightarrow> request_phase \<Rightarrow> request_env" where
  "phase_env e ph =
     \<lparr>rq_redis = sv_redis e (redis_place ph), rq_fate = sv_fate e, rq_env = sv_env e, rq_read_ok = sv_read_ok e\<rparr>"

text \<open>
  A request makes at most six of its steps: a key that is cached for a row that is gone, so that both
  lookups and the insert run.
\<close>

definition request_fuel :: nat where
  "request_fuel = 6"

definition run_request ::
  "'r redis_cmds \<Rightarrow> job_codec \<Rightarrow> (json \<Rightarrow> string) \<Rightarrow> (string \<Rightarrow> uuid option) \<Rightarrow> settings \<Rightarrow> service_env \<Rightarrow> nat \<Rightarrow> request_phase \<Rightarrow>
   'r world \<Rightarrow> request_phase \<times> 'r world"
where
  "run_request R K digest parse_uuid c e n ph w =
     run_steps (\<lambda>ph. request_step R K digest parse_uuid c (phase_env e ph) ph) n ph w"

fun request_left :: "request_phase \<Rightarrow> nat" where
  "request_left (SeekKey q) = 6"
| "request_left (SeekJob i inc (FromSchedule q)) = 5"
| "request_left (SeekJob i inc FromRoute) = 4"
| "request_left (ReadJob i inc (FromSchedule q)) = 4"
| "request_left (ReadJob i inc FromRoute) = 3"
| "request_left (ReadAttempts j from) = 2"
| "request_left (PutRead j h from) = 1"
| "request_left (InsertJob q) = 3"
| "request_left (PutKey q j created) = 2"
| "request_left (PutJob j created) = 1"
| "request_left (RequeueRow i extra) = 2"
| "request_left (DropRow i t) = 1"
| "request_left (Answered r) = 0"

lemma request_left_0 [simp]: "request_left ph = 0 \<longleftrightarrow> (\<exists>r. ph = Answered r)"
  by (cases ph rule: request_left.cases) auto

lemmas request_parts = seek_key_def seek_job_def read_job_def read_attempts_def insert_row_def requeue_row_def
  raised_def get_raised_def

lemma got_job_left: "request_left (got_job from x) \<le> (case from of FromRoute \<Rightarrow> 0 | FromSchedule q \<Rightarrow> 3)"
  by (cases "from"; cases x) simp_all

lemma got_Some_left [simp]: "request_left (got_job from (Some out)) = 0"
  by (cases "from") simp_all

lemma request_step_left:
  assumes "request_left ph \<noteq> 0"
  shows "request_left (fst (request_step R K digest pu c e ph w)) < request_left ph"
  using assms got_job_left
  by (cases ph rule: request_left.cases)
    (auto simp: request_parts split: sum.splits option.splits prod.splits if_splits get_caller.splits)

text \<open>
  The phase of a request after some of its steps, each in the environment and the world that it finds;
  whatever happens between the steps is in the worlds.
\<close>

definition request_after ::
  "'r redis_cmds \<Rightarrow> job_codec \<Rightarrow> (json \<Rightarrow> string) \<Rightarrow> (string \<Rightarrow> uuid option) \<Rightarrow> settings \<Rightarrow> (request_env \<times> 'r world) list \<Rightarrow>
   request_phase \<Rightarrow> request_phase"
where
  "request_after R K digest parse_uuid c ews ph = steps_after (request_step R K digest parse_uuid c) ews ph"

interpretation request: await_machine "request_step R K digest pu c" request_left for R K digest pu c
proof
  fix ph e w
  show "request_left ph \<noteq> 0 \<Longrightarrow> request_left (fst (request_step R K digest pu c e ph w)) < request_left ph"
    by (rule request_step_left)
  show "request_left ph = 0 \<Longrightarrow> request_step R K digest pu c e ph w = (ph, w)" by auto
qed

text \<open>The run to the end.\<close>

definition finish ::
  "'r redis_cmds \<Rightarrow> job_codec \<Rightarrow> (json \<Rightarrow> string) \<Rightarrow> (string \<Rightarrow> uuid option) \<Rightarrow> settings \<Rightarrow> service_env \<Rightarrow> request_phase \<Rightarrow>
   'r world \<Rightarrow> request_phase \<times> 'r world"
where
  "finish R K digest parse_uuid c e ph w = run_request R K digest parse_uuid c e request_fuel ph w"

lemma finish_Answered [simp]: "finish R K digest pu c e (Answered r) w = (Answered r, w)"
  by (simp add: finish_def run_request_def request_fuel_def eval_nat_numeral)

lemma request_left_fuel: "request_left ph \<le> request_fuel"
  by (cases ph rule: request_left.cases) (simp_all add: request_fuel_def)

lemma finish_step:
  "finish R K digest pu c e ph w =
     (case request_step R K digest pu c (phase_env e ph) ph w of (ph', w') \<Rightarrow> finish R K digest pu c e ph' w')"
  unfolding finish_def run_request_def by (rule request.run_unfold [OF request_left_fuel])

lemma finish_get_raised [simp]:
  "finish R K digest pu c e (get_raised from x) w = (get_raised from x, w)"
  "finish R K digest pu c e (raised x) w = (raised x, w)"
  "finish R K digest pu c e (got_job from (Some out)) w = (got_job from (Some out), w)"
  by (cases "from"; simp add: get_raised_def raised_def)+

lemma finish_insert:
  "finish R K digest pu c e (InsertJob q) w =
     (case schedule_insert R K c e (request_hash digest q) q w of (r, w1) \<Rightarrow> (Answered (JobReply (schedule_reply r)), w1))"
proof -
  obtain r w1 where tx: "in_tx (sv_fate e) (create_job (sv_env e) (schedule_new_job c (request_hash digest q) q)) w = (r, w1)"
    by (cases "in_tx (sv_fate e) (create_job (sv_env e) (schedule_new_job c (request_hash digest q) q)) w")
  show ?thesis
  proof (cases r)
    case (Inl x)
    then show ?thesis
      by (subst finish_step) (simp add: insert_row_def schedule_insert_def phase_env_def tx raised_def)
  next
    case (Inr p)
    obtain j created where p: "p = (j, created)" by (cases p)
    have "finish R K digest pu c e (PutKey q j created) w1 =
        (Answered (JobReply (schedule_reply (Inr (job_out_of j, created)))),
         snd (on_redis (cache_put_job R K c (sv_redis e 4) (job_out_of j))
           (case q_idempotency_key q of None \<Rightarrow> w1
            | Some k \<Rightarrow> w1\<lparr>w_redis := cache_put_idempotency R c (sv_redis e 3) k (j_id j) (j_request_hash j) (w_redis w1)\<rparr>)))"
      by (subst finish_step, simp, subst finish_step) (simp add: put_key_def put_row_def phase_env_def split: option.split)
    with Inr p show ?thesis
      by (subst finish_step) (auto simp: insert_row_def schedule_insert_def phase_env_def tx raised_def Let_def)
  qed
qed

text \<open>\<open>JobService.get\<close>: the result is what its caller makes of it.\<close>

definition get_result :: "get_caller \<Rightarrow> job_out option result \<Rightarrow> request_phase" where
  "get_result from r = (case r of Inl x \<Rightarrow> get_raised from x | Inr found \<Rightarrow> got_job from found)"

definition get_place :: "get_caller \<Rightarrow> nat" where
  "get_place from = (case from of FromRoute \<Rightarrow> 0 | FromSchedule q \<Rightarrow> 1)"

lemma get_places:
  "redis_place (SeekJob i inc g) = get_place g" "redis_place (PutRead j h g) = get_place g + 1"
  by (cases g; simp add: get_place_def)+

lemma finish_put_read:
  "finish R K digest pu c e (PutRead j h g) w =
     (got_job g (Some (read_view j h)), snd (on_redis (cache_put_job R K c (sv_redis e (get_place g + 1)) (job_out_of j)) w))"
  by (subst finish_step) (simp add: put_row_def phase_env_def get_places)

lemma finish_get:
  "finish R K digest pu c e (SeekJob i inc g) w =
     (case service_get R K c e (get_place g) i inc w of (r, w1) \<Rightarrow> finish R K digest pu c e (get_result g r) w1)"
proof -
  obtain r w1 where look: "(if inc then (Inr None, w) else on_redis (cache_get_job R K c (sv_redis e (get_place g)) i) w) = (r, w1)"
    by (cases "if inc then (Inr None, w) else on_redis (cache_get_job R K c (sv_redis e (get_place g)) i) w")
  have read: "finish R K digest pu c e (ReadJob i inc g) w1 =
      (if \<not> sv_read_ok e then (get_raised g OperationalError, w1)
       else case get_job (w_db w1) i of
              None \<Rightarrow> finish R K digest pu c e (got_job g None) w1
            | Some j \<Rightarrow>
                (got_job g (Some (read_view j (if inc then Some (map attempt_out_of (get_job_attempts (w_db w1) i)) else None))),
                 snd (on_redis (cache_put_job R K c (sv_redis e (get_place g + 1)) (job_out_of j)) w1)))"
    by (subst finish_step, cases inc; cases "get_job (w_db w1) i")
      (auto simp: read_job_def phase_env_def finish_put_read finish_step [of R K digest pu c e "ReadAttempts j g" for j]
        read_attempts_def get_job_def dest!: first_SomeD)
  have step: "request_step R K digest pu c (phase_env e (SeekJob i inc g)) (SeekJob i inc g) w =
      (case r of Inl x \<Rightarrow> (get_raised g x, w1) | Inr None \<Rightarrow> (ReadJob i inc g, w1) | Inr (Some out) \<Rightarrow> (got_job g (Some out), w1))"
    by (simp only: request_step.simps seek_job_def phase_env_def request_env.simps get_places look prod.case)
  show ?thesis
    unfolding finish_step [of R K digest pu c e "SeekJob i inc g"] step service_get_def look prod.case
    by (cases r; cases "get_job (w_db w1) i") (auto simp: read get_result_def read_view_def split: option.split)
qed

lemma finish_seek:
  "finish R K digest pu c e (SeekKey q) w =
     (case (case schedule_cached R K pu c e (request_hash digest q) (q_idempotency_key q) w of
              (Inl x, w1) \<Rightarrow> (Inl x, w1)
            | (Inr (Some existing), w1) \<Rightarrow> (Inr (existing, False), w1)
            | (Inr None, w1) \<Rightarrow> schedule_insert R K c e (request_hash digest q) q w1) of
        (r, w1) \<Rightarrow> (Answered (JobReply (schedule_reply r)), w1))"
proof (cases "q_idempotency_key q")
  case None
  then show ?thesis
    by (subst finish_step) (simp add: seek_key_def schedule_cached_def finish_insert)
next
  case (Some k)
  obtain r w1 where look: "on_redis (cache_get_idempotency R pu c (sv_redis e 0) k) w = (r, w1)"
    by (cases "on_redis (cache_get_idempotency R pu c (sv_redis e 0) k) w")
  have get: "finish R K digest pu c e (SeekJob i False (FromSchedule q)) w1 =
      (case (case service_get R K c e 1 i False w1 of
               (Inl x, w2) \<Rightarrow> (Inl x, w2)
             | (Inr (Some existing), w2) \<Rightarrow> (Inr (existing, False), w2)
             | (Inr None, w2) \<Rightarrow> schedule_insert R K c e (request_hash digest q) q w2) of
         (r, w1) \<Rightarrow> (Answered (JobReply (schedule_reply r)), w1))" for i
    by (cases "service_get R K c e 1 i False w1")
      (auto simp: finish_get get_place_def get_result_def get_raised_def raised_def finish_insert simp del: One_nat_def
        split: sum.splits option.splits)
  show ?thesis
    by (subst finish_step)
      (auto simp: seek_key_def phase_env_def look schedule_cached_def Some finish_insert get raised_def simp del: One_nat_def
        split: sum.split option.split prod.split)
qed

lemma requeue_not_found:
  "in_tx fate (requeue_dead_letter env i x) w \<noteq> (Inl (NotDeadLettered j), w')"
  by (cases fate) (auto simp: in_tx_def begin_tx_def requeue_dead_letter_def Let_def split: option.splits if_splits)

text \<open>
  C15: a request is always answered: after six of its steps at most, whatever the others did to the
  tables and to Redis between them and whichever calls failed. No client waits for ever, and no
  interleaving makes a request start over.
\<close>

theorem requests_always_end:
  assumes "request_fuel \<le> length ews"
  shows "\<exists>r. request_after R K digest pu c ews ph = Answered r"
proof -
  have "request_left (request_after R K digest pu c ews ph) = 0"
    unfolding request_after_def by (rule request.after_ends [OF order_trans [OF request_left_fuel assms]])
  then show ?thesis by (rule request_left_0 [THEN iffD1])
qed

text \<open>
  Taken apart at its \<open>await\<close>s and put together again, a request is its route: run without
  interruption, it ends after at most six steps with exactly the answer and the world that the route
  gives, on every branch, for \<open>POST /v1/jobs\<close>, \<open>GET /v1/jobs/{id}\<close> and the requeueing of a dead letter.
\<close>

theorem request_runs_the_route:
  "run_request R K digest pu c e request_fuel (start_post url (sv_clock e) header body) w =
     (case schedule_job R K digest pu url c e header body w of (r, w1) \<Rightarrow> (Answered (JobReply r), w1)) \<and>
   run_request R K digest pu c e request_fuel (start_get pu job_id inc) w =
     (case get_job_route R K pu c e job_id inc w of (r, w1) \<Rightarrow> (Answered (JobReply r), w1)) \<and>
   run_request R K digest pu c e request_fuel (start_requeue pu c job_id extra) w =
     (case requeue_route R pu c e job_id extra w of (r, w1) \<Rightarrow> (Answered (DictReply r), w1))"
proof (intro conjI; unfold finish_def [symmetric])
  show "finish R K digest pu c e (start_post url (sv_clock e) header body) w =
      (case schedule_job R K digest pu url c e header body w of (r, w1) \<Rightarrow> (Answered (JobReply r), w1))"
    by (simp add: start_post_def schedule_job_def finish_seek schedule_def too_late_def Let_def split_beta
        split: sum.split option.split)
next
  show "finish R K digest pu c e (start_get pu job_id inc) w =
      (case get_job_route R K pu c e job_id inc w of (r, w1) \<Rightarrow> (Answered (JobReply r), w1))"
    by (cases "pu job_id")
      (auto simp: start_get_def get_job_route_def finish_get get_place_def get_result_def get_raised_def
        split: sum.split option.split prod.split)
next
  have "finish R K digest pu c e (RequeueRow i x) w =
      (case dead_letters_requeue R c e i x w of
         (Inl (NotDeadLettered j), w1) \<Rightarrow> (Answered (DictReply (Rejected 404 ''job is not in the dead letter queue'')), w1)
       | (Inl y, w1) \<Rightarrow> (Answered (DictReply (ServerError y)), w1)
       | (Inr u, w1) \<Rightarrow> (Answered (DictReply (Answer 202 [(''status'', JStr ''requeued''), (''job_id'', JStr i)])), w1))" for i x
    using requeue_not_found [of "sv_fate e" "sv_env e" i x w]
    by (subst finish_step) (auto simp: requeue_row_def phase_env_def dead_letters_requeue_def
        finish_step [of R K digest pu c e "DropRow i t" for t] split: sum.split option.split prod.split exn.split)
  then show "finish R K digest pu c e (start_requeue pu c job_id extra) w =
      (case requeue_route R pu c e job_id extra w of (r, w1) \<Rightarrow> (Answered (DictReply r), w1))"
    by (auto simp: start_requeue_def requeue_route_def split: sum.split option.split prod.split exn.split)
qed

end
