(* ===== verification/Api_System.thy ===== *)
theory Api_System
  imports Requests
begin

text \<open>
  The deployment with its requests taken apart: any number of them under way at once, each at one of
  its \<open>await\<close>s, interleaved with the workers and with Redis. Every step of it is steps of \<open>Queue_System\<close>,
  where a request is one step, so what holds of every reachable state there holds here.
\<close>

section \<open>Requests under way\<close>

text \<open>What a client asked for; a post comes with the clock reading of its arrival.\<close>

datatype api_call =
    PostCall time "string option" raw_request
  | GetCall string bool
  | RequeueCall string "int option"

fun arrive :: "'r deployment \<Rightarrow> api_call \<Rightarrow> request_phase" where
  "arrive D (PostCall clock header body) = start_post (dp_parse_url D) clock header body"
| "arrive D (GetCall job_id inc) = start_get (dp_parse_uuid D) job_id inc"
| "arrive D (RequeueCall job_id extra) = start_requeue (dp_parse_uuid D) (dp_settings D) job_id extra"

record 'r api =
  ap_system :: "'r system"
  ap_requests :: "(api_call \<times> request_phase) multiset"

text \<open>The row that a request has read and may still write to the cache.\<close>

fun held_rows :: "request_phase \<Rightarrow> job list" where
  "held_rows (ReadAttempts j g) = [j]"
| "held_rows (PutRead j h g) = [j]"
| "held_rows (PutKey q j b) = [j]"
| "held_rows (PutJob j b) = [j]"
| "held_rows _ = []"

definition newly_held :: "request_phase \<Rightarrow> request_phase \<Rightarrow> job list" where
  "newly_held ph ph' = (if held_rows ph = [] then held_rows ph' else [])"

definition api_request_step :: "'r deployment \<Rightarrow> request_env \<Rightarrow> request_phase \<Rightarrow> 'r world \<Rightarrow> request_phase \<times> 'r world" where
  "api_request_step D = request_step (dp_redis D) (dp_codec D) (dp_digest D) (dp_parse_uuid D) (dp_settings D)"

text \<open>
  A request arrives, makes a step, or is gone (answered, or its client or its process died); or
  something else happens in the system. Job ids are UUIDs, which the parser accepts.
\<close>

inductive api_step :: "'r deployment \<Rightarrow> 'r api \<Rightarrow> 'r api \<Rightarrow> bool" for D where
  arrives: "api_step D a (a\<lparr>ap_requests := add_mset (call, arrive D call) (ap_requests a)\<rparr>)"
| proceeds: "(call, ph) \<in># ap_requests a \<Longrightarrow> fresh_ids (rq_env e) (system_db (ap_system a)) \<Longrightarrow>
     sy_now (ap_system a) \<le> re_now (rq_redis e) \<Longrightarrow> api_request_step D e ph (sy_world (ap_system a)) = (ph', w) \<Longrightarrow>
     ids_parse (dp_parse_uuid D) (w_db w) \<Longrightarrow>
     api_step D a
       (a\<lparr>ap_system := (ap_system a)\<lparr>sy_world := w, sy_now := re_now (rq_redis e),
            sy_readers := newly_held ph ph' @ sy_readers (ap_system a)\<rparr>,
          ap_requests := add_mset (call, ph') (ap_requests a - {#(call, ph)#})\<rparr>)"
| leaves: "rs \<subseteq># ap_requests a \<Longrightarrow> api_step D a (a\<lparr>ap_requests := rs\<rparr>)"
| others: "queue_step D (ap_system a) s \<Longrightarrow> ids_parse (dp_parse_uuid D) (system_db s) \<Longrightarrow> api_step D a (a\<lparr>ap_system := s\<rparr>)"

definition api_init :: "'r deployment \<Rightarrow> 'r api \<Rightarrow> bool" where
  "api_init D a \<longleftrightarrow> queue_init D (ap_system a) \<and> ap_requests a = {#}"

section \<open>What a request under way relies on\<close>

text \<open>The scheduling request that a phase carries.\<close>

fun caller_request :: "get_caller \<Rightarrow> schedule_request option" where
  "caller_request FromRoute = None"
| "caller_request (FromSchedule q) = Some q"

fun phase_request :: "request_phase \<Rightarrow> schedule_request option" where
  "phase_request (SeekKey q) = Some q"
| "phase_request (SeekJob i inc g) = caller_request g"
| "phase_request (ReadJob i inc g) = caller_request g"
| "phase_request (ReadAttempts j g) = caller_request g"
| "phase_request (PutRead j h g) = caller_request g"
| "phase_request (InsertJob q) = Some q"
| "phase_request (PutKey q j b) = Some q"
| "phase_request _ = None"

fun call_request :: "'r deployment \<Rightarrow> api_call \<Rightarrow> schedule_request option" where
  "call_request D (PostCall clock header body) = accepted (dp_parse_url D) clock header body"
| "call_request D _ = None"

text \<open>A row of the request: it has its key and its fingerprint.\<close>

definition request_row :: "'r deployment \<Rightarrow> schedule_request \<Rightarrow> job \<Rightarrow> bool" where
  "request_row D q j \<longleftrightarrow> j_idempotency_key j = q_idempotency_key q \<and> j_request_hash j = request_hash (dp_digest D) q"

definition request_job :: "'r deployment \<Rightarrow> db \<Rightarrow> schedule_request \<Rightarrow> uuid \<Rightarrow> bool" where
  "request_job D s q i \<longleftrightarrow> (\<exists>j\<in>set (jobs s). j_id j = i \<and> request_row D q j)"

lemma request_job_moves:
  assumes "rows_move B s t" "request_job D s q i"
  shows "request_job D t q i"
  using assms(2) keyed_row_moves [OF assms(1)] unfolding request_job_def request_row_def by metis

text \<open>The versions of a row only grow.\<close>

definition row_reached :: "db \<Rightarrow> uuid \<Rightarrow> int \<Rightarrow> bool" where
  "row_reached s i v \<longleftrightarrow> (\<exists>j\<in>set (jobs s). j_id j = i \<and> v \<le> j_version j)"

lemma row_reached_moves:
  assumes move: "rows_move B s t" and "row_reached s i v"
  shows "row_reached t i v"
proof -
  obtain j where j: "j \<in> set (jobs s)" "j_id j = i" "v \<le> j_version j" using assms(2) by (auto simp: row_reached_def)
  from move show ?thesis
  proof (cases rule: rows_move_cases)
    case (moves p f)
    have "(if p j then f j else j) \<in> set (jobs t)" using j(1) unfolding moves(1) set_update_where by (rule imageI)
    then show ?thesis
      unfolding row_reached_def using moves(2) [OF j(1)] j(2,3)
      by (intro bexI [of _ "if p j then f j else j"]) (auto simp: moved_def)
  next
    case (adds k)
    then show ?thesis using j by (auto simp: row_reached_def)
  qed
qed

text \<open>A step of the system keeps what a request relies on.\<close>

lemma readers_grow: "queue_step D s t \<Longrightarrow> set (sy_readers s) \<subseteq> set (sy_readers t)"
  by (erule queue_step.cases) auto

lemma step_moves:
  assumes "queue_step D s t" "system_ok D s"
  shows "rows_move UNIV (system_db s) (system_db t)"
  using queue_step_sound [OF assms] by (simp add: step_sound_def)

definition phase_ok :: "'r deployment \<Rightarrow> 'r system \<Rightarrow> api_call \<Rightarrow> request_phase \<Rightarrow> bool" where
  "phase_ok D s call ph \<longleftrightarrow>
     set (held_rows ph) \<subseteq> set (sy_readers s) \<and>
     (\<forall>q. phase_request ph = Some q \<longrightarrow> call_request D call = Some q) \<and>
     (case ph of
        PutKey q j b \<Rightarrow> request_job D (system_db s) q (j_id j) \<and> request_row D q j
      | RequeueRow i x \<Rightarrow> arrive D call = RequeueRow i x
      | DropRow i t \<Rightarrow> row_reached (system_db s) (t_job_id t) (t_version t)
      | _ \<Rightarrow> True)"

lemma phase_ok_step:
  assumes "queue_step D s t" "system_ok D s" "phase_ok D s call ph"
  shows "phase_ok D t call ph"
  using assms(3) readers_grow [OF assms(1)] request_job_moves [OF step_moves [OF assms(1,2)]]
    row_reached_moves [OF step_moves [OF assms(1,2)]]
  unfolding phase_ok_def by (auto split: request_phase.splits)

section \<open>Steps of requests are steps of the system\<close>

text \<open>An environment in which Redis cannot be reached.\<close>

definition lost_env :: "time \<Rightarrow> request_env \<Rightarrow> service_env" where
  "lost_env clock e =
     \<lparr>sv_clock = clock, sv_redis = (\<lambda>_. \<lparr>re_fate = RedisLost, re_now = re_now (rq_redis e)\<rparr>), sv_fate = rq_fate e,
      sv_env = rq_env e, sv_read_ok = False\<rparr>"

lemma lost_env_simps [simp]:
  "sv_clock (lost_env t e) = t" "sv_fate (lost_env t e) = rq_fate e" "sv_env (lost_env t e) = rq_env e"
  "\<not> sv_read_ok (lost_env t e)" "re_fate (sv_redis (lost_env t e) k) = RedisLost"
  by (simp_all add: lost_env_def)

lemma lost_clock: "n \<le> re_now (rq_redis e) \<Longrightarrow> redis_clock n (sv_redis (lost_env t e)) (re_now (rq_redis e))"
  by (simp add: redis_clock_def lost_env_def mono_def)

text \<open>Then nothing is read from Redis or written to it.\<close>

lemma lost_call [simp]: "cache_call en RedisLost f d s = (d, s)"
  by (simp add: cache_call_def)

lemma lost_reads:
  assumes "re_fate e = RedisLost"
  shows "on_redis (cache_get_job R K c e i) w = (Inr None, w)" "on_redis (cache_get_idempotency R pu c e k) w = (Inr None, w)"
  by (simp_all add: assms on_redis_def cache_get_job_def cache_get_idempotency_def parse_entry_def parse_idem_entry_def)

lemma lost_writes:
  assumes "re_fate e = RedisLost"
  shows "snd (on_redis (cache_put_job R K c e out) w) = w" "cache_put_idempotency R c e k i h s = s"
    "cache_invalidate_job R c e i v s = s"
  by (simp_all add: assms on_redis_def cache_put_job_def cache_put_idempotency_def cache_invalidate_job_def cache_write_def split_beta)

lemma redis_reads:
  "on_redis (cache_get_job R K c e i) w = (r, w') \<Longrightarrow> w' = w"
  "on_redis (cache_get_idempotency R pu c e k) w = (r', w') \<Longrightarrow> w' = w"
  by (auto simp: on_redis_def split_beta)

lemma time_passes:
  fixes e :: request_env
  assumes "sy_now s \<le> re_now (rq_redis e)"
  shows "queue_step D s (s\<lparr>sy_now := re_now (rq_redis e)\<rparr>)"
proof -
  obtain r where "get_job_route (dp_redis D) (dp_codec D) (dp_parse_uuid D) (dp_settings D) (lost_env 0 e) [] False (sy_world s) =
      (r, sy_world s)"
    by (cases "dp_parse_uuid D []") (auto simp: get_job_route_def service_get_def lost_reads)
  from queue_step.get_step [OF lost_clock [OF assms] this] show ?thesis by simp
qed

lemma insert_row_lost:
  assumes "accepted (dp_parse_url D) clock header body = Some q"
  shows "snd (schedule_job (dp_redis D) (dp_codec D) (dp_digest D) (dp_parse_uuid D) (dp_parse_url D) (dp_settings D)
     (lost_env clock e) header body w) = snd (insert_row (dp_digest D) (dp_settings D) e q w)"
proof -
  let ?R = "dp_redis D" and ?c = "dp_settings D" and ?e = "lost_env clock e" and ?h = "request_hash (dp_digest D) q"
  have "accepted (dp_parse_url D) (sv_clock ?e) header body = Some q" using assms by simp
  note job = schedule_job_accepted [OF this]
  have late: "\<not> too_late clock q" using assms by (auto simp: accepted_def split: sum.splits if_splits option.splits)
  have cached: "schedule_cached ?R (dp_codec D) (dp_parse_uuid D) ?c ?e ?h (q_idempotency_key q) w = (Inr None, w)"
    by (simp add: schedule_cached_def lost_reads split: option.split)
  have "snd (schedule_insert ?R (dp_codec D) ?c ?e ?h q w) = snd (insert_row (dp_digest D) ?c e q w)"
    by (auto simp: schedule_insert_def insert_row_def lost_writes Let_def split: prod.split sum.split option.split)
  then show ?thesis
    using late by (simp add: job schedule_def too_late_def cached Let_def split: option.splits)
qed

lemma requeue_row_lost:
  assumes "start_requeue pu c job_id extra = RequeueRow i x"
  shows "snd (requeue_route R pu c (lost_env 0 e) job_id extra w) = snd (requeue_row e i x w)"
proof -
  have call: "pu job_id = Some i" "opt_all (int_in 1 20) extra" "x = coalesce extra (cfg_max_attempts c)"
    using assms by (auto simp: start_requeue_def split: option.splits if_splits)
  have "snd (dead_letters_requeue R c (lost_env 0 e) i x w) = snd (requeue_row e i x w)"
    by (auto simp: dead_letters_requeue_def requeue_row_def lost_writes split: prod.split sum.split option.split)
  then show ?thesis
    by (auto simp: requeue_route_def call split: prod.splits sum.splits exn.splits)
qed

text \<open>The steps that call Postgres for a write.\<close>

lemma insert_runs:
  assumes ok: "system_ok D s" and call: "call_request D call = Some q" and fresh: "fresh_ids (rq_env e) (system_db s)"
    and n: "sy_now s \<le> re_now (rq_redis e)" and step: "insert_row (dp_digest D) (dp_settings D) e q (sy_world s) = (ph', w)"
  shows "(queue_step D)\<^sup>*\<^sup>* s (s\<lparr>sy_world := w, sy_now := re_now (rq_redis e), sy_readers := held_rows ph' @ sy_readers s\<rparr>)"
proof -
  obtain clock header body where acc: "accepted (dp_parse_url D) clock header body = Some q"
    using call by (cases call) auto
  let ?e = "lost_env clock e" and ?s = "s\<lparr>sy_world := w, sy_now := re_now (rq_redis e)\<rparr>"
  obtain r where "schedule_job (dp_redis D) (dp_codec D) (dp_digest D) (dp_parse_uuid D) (dp_parse_url D) (dp_settings D) ?e
      header body (sy_world s) = (r, w)"
    using insert_row_lost [OF acc, of e "sy_world s"] step by (metis prod.collapse snd_conv)
  from queue_step.schedule_step [OF _ lost_clock [OF n] this] fresh have run: "queue_step D s ?s" by simp
  show ?thesis
  proof (cases "\<exists>j b. ph' = PutKey q j b")
    case True
    then obtain j b where ph': "ph' = PutKey q j b" by blast
    have "begin_tx (rq_fate e) (create_job (rq_env e) (schedule_new_job (dp_settings D) (request_hash (dp_digest D) q) q))
        (w_db (sy_world s)) = (Inr (j, b), w_db w)"
      using step by (auto simp: insert_row_def in_tx_def ph' raised_def split: prod.splits sum.splits if_splits)
    from create_job_result [OF begin_tx_InrD [OF this]] have "j \<in> set (jobs (w_db w))" by simp
    moreover have "distinct (job_ids (w_db w))"
      using db_invD(1) [OF system_okD(2), of D ?s] queue_step_sound [OF run ok] by (simp add: step_sound_def system_db_def)
    ultimately have "get_job (system_db ?s) (j_id j) = Some j" using get_job_Some by (simp add: system_db_def)
    from queue_step.read_step [OF this] have "queue_step D ?s (s\<lparr>sy_world := w, sy_now := re_now (rq_redis e),
        sy_readers := held_rows ph' @ sy_readers s\<rparr>)" by (simp add: ph')
    with run show ?thesis by (meson converse_rtranclp_into_rtranclp r_into_rtranclp)
  next
    case False
    then have "held_rows ph' = []"
      using step by (auto simp: insert_row_def raised_def split: prod.splits sum.splits if_splits)
    with run show ?thesis by simp
  qed
qed

lemma held_by_read:
  assumes "read_job e i inc g w = ph'"
  shows "held_rows ph' = [] \<or> (\<exists>j. get_job (w_db w) i = Some j \<and> held_rows ph' = [j])"
  using assms
  by (cases g) (auto simp: read_job_def get_raised_def raised_def split: if_splits option.splits)

text \<open>The state after a step of a request.\<close>

definition after_step :: "'r system \<Rightarrow> request_env \<Rightarrow> job list \<Rightarrow> 'r world \<Rightarrow> 'r system" where
  "after_step s e js w = s\<lparr>sy_world := w, sy_now := re_now (rq_redis e), sy_readers := js @ sy_readers s\<rparr>"

lemma waits:
  assumes "sy_now s \<le> re_now (rq_redis e)"
  shows "(queue_step D)\<^sup>*\<^sup>* s (after_step s e [] (sy_world s))"
  using time_passes [OF assms, of D] by (simp add: after_step_def)

lemma writes:
  assumes "queue_step D s (s\<lparr>sy_world := w, sy_now := re_now (rq_redis e)\<rparr>)"
  shows "(queue_step D)\<^sup>*\<^sup>* s (after_step s e [] w)"
  using assms by (simp add: after_step_def)

lemma read_runs:
  assumes n: "sy_now s \<le> re_now (rq_redis e)"
  shows "(queue_step D)\<^sup>*\<^sup>* s (after_step s e (held_rows (read_job e i inc g (sy_world s))) (sy_world s))"
  using held_by_read [OF refl, of e i inc g "sy_world s"]
proof
  assume "held_rows (read_job e i inc g (sy_world s)) = []"
  with waits [OF n] show ?thesis by simp
next
  let ?t = "\<lambda>j. s\<lparr>sy_readers := j # sy_readers s\<rparr>"
  assume "\<exists>j. get_job (w_db (sy_world s)) i = Some j \<and> held_rows (read_job e i inc g (sy_world s)) = [j]"
  then obtain j where j: "get_job (system_db s) i = Some j" "held_rows (read_job e i inc g (sy_world s)) = [j]"
    by (auto simp: system_db_def)
  have "queue_step D (?t j) (?t j\<lparr>sy_now := re_now (rq_redis e)\<rparr>)" using time_passes [of "?t j" e D] n by simp
  then have "(queue_step D)\<^sup>*\<^sup>* s (?t j\<lparr>sy_now := re_now (rq_redis e)\<rparr>)"
    by (rule converse_rtranclp_into_rtranclp [where r = "queue_step D", OF queue_step.read_step [OF j(1)] r_into_rtranclp])
  moreover have "?t j\<lparr>sy_now := re_now (rq_redis e)\<rparr> = after_step s e [j] (sy_world s)" by (simp add: after_step_def)
  ultimately show ?thesis by (simp only: j(2))
qed

lemma put_row_runs:
  assumes j: "j \<in> set (sy_readers s)" and n: "sy_now s \<le> re_now (rq_redis e)"
  shows "(queue_step D)\<^sup>*\<^sup>* s (after_step s e [] (put_row (dp_redis D) (dp_codec D) (dp_settings D) e j (sy_world s)))"
proof -
  obtain b w where "on_redis (cache_put_job (dp_redis D) (dp_codec D) (dp_settings D) (rq_redis e) (job_out_of j)) (sy_world s) = (b, w)"
    by (cases "on_redis (cache_put_job (dp_redis D) (dp_codec D) (dp_settings D) (rq_redis e) (job_out_of j)) (sy_world s)")
  with queue_step.put_step [OF j n this] show ?thesis by (intro writes) (simp add: put_row_def)
qed

lemma put_key_runs:
  assumes j: "request_job D (system_db s) q (j_id j)" "request_row D q j" and n: "sy_now s \<le> re_now (rq_redis e)"
  shows "(queue_step D)\<^sup>*\<^sup>* s (after_step s e [] (put_key (dp_redis D) (dp_settings D) e q j (sy_world s)))"
proof (cases "q_idempotency_key q")
  case None
  with waits [OF n] show ?thesis by (simp add: put_key_def)
next
  case (Some k)
  from j obtain i where i: "i \<in> set (jobs (system_db s))" "j_id i = j_id j" "request_row D q i" by (auto simp: request_job_def)
  with j(2) have "j_idempotency_key i = Some k" "j_request_hash i = j_request_hash j" by (simp_all add: request_row_def Some)
  from queue_step.put_key_step [OF i(1) this(1) n refl] this(2) i(2) show ?thesis by (intro writes) (simp add: put_key_def Some)
qed

lemma requeue_runs:
  assumes call: "arrive D call = RequeueRow i x" and n: "sy_now s \<le> re_now (rq_redis e)"
  shows "(queue_step D)\<^sup>*\<^sup>* s (after_step s e [] (snd (requeue_row e i x (sy_world s))))"
proof -
  obtain job_id extra where "start_requeue (dp_parse_uuid D) (dp_settings D) job_id extra = RequeueRow i x"
    using call by (cases call) (auto simp: start_post_def start_get_def split: sum.splits option.splits if_splits)
  from requeue_row_lost [OF this, of "dp_redis D" e "sy_world s"]
  obtain r where "requeue_route (dp_redis D) (dp_parse_uuid D) (dp_settings D) (lost_env 0 e) job_id extra (sy_world s) =
      (r, snd (requeue_row e i x (sy_world s)))"
    by (metis prod.collapse)
  from queue_step.requeue_step [OF lost_clock [OF n] this] show ?thesis by (rule writes)
qed

lemma drop_runs:
  assumes "row_reached (system_db s) i v" and n: "sy_now s \<le> re_now (rq_redis e)"
  shows "(queue_step D)\<^sup>*\<^sup>* s (after_step s e [] ((sy_world s)\<lparr>w_redis :=
     cache_invalidate_job (dp_redis D) (dp_settings D) (rq_redis e) i v (w_redis (sy_world s))\<rparr>))"
proof -
  from assms(1) obtain j where "j \<in> set (jobs (system_db s))" "j_id j = i" "v \<le> j_version j" by (auto simp: row_reached_def)
  with queue_step.late_drop_step [OF this(1,3) n refl] show ?thesis by (intro writes) simp
qed

lemma request_runs:
  assumes ok: "system_ok D s" "phase_ok D s call ph" and fresh: "fresh_ids (rq_env e) (system_db s)"
    and n: "sy_now s \<le> re_now (rq_redis e)" and step: "api_request_step D e ph (sy_world s) = (ph', w)"
  shows "(queue_step D)\<^sup>*\<^sup>* s (after_step s e (newly_held ph ph') w)"
proof -
  note step = step [unfolded api_request_step_def]
  have quiet: ?thesis if "w = sy_world s" "newly_held ph ph' = []"
    using waits [OF n] that by simp
  show ?thesis
  proof (cases ph)
    case (SeekKey q)
    then show ?thesis
      using step by (intro quiet)
        (auto simp: seek_key_def raised_def newly_held_def dest: redis_reads split: option.splits sum.splits prod.splits if_splits)
  next
    case (SeekJob i inc g)
    then show ?thesis
      using step by (intro quiet; cases g)
        (auto simp: seek_job_def get_raised_def raised_def newly_held_def dest: redis_reads
          split: option.splits sum.splits prod.splits if_splits)
  next
    case (ReadJob i inc g)
    with step read_runs [OF n] show ?thesis by (auto simp: newly_held_def)
  next
    case (PutRead j h g)
    with step ok(2) put_row_runs [OF _ n, of j] show ?thesis by (auto simp: phase_ok_def newly_held_def)
  next
    case (InsertJob q)
    with ok(2) have "call_request D call = Some q" by (simp add: phase_ok_def)
    from insert_runs [OF ok(1) this fresh n] step InsertJob show ?thesis by (simp add: newly_held_def after_step_def)
  next
    case (PutKey q j b)
    with step ok(2) put_key_runs [OF _ _ n, of D q j] show ?thesis by (auto simp: phase_ok_def newly_held_def)
  next
    case (PutJob j b)
    with step ok(2) put_row_runs [OF _ n, of j] show ?thesis by (auto simp: phase_ok_def newly_held_def)
  next
    case (RequeueRow i x)
    with ok(2) have "arrive D call = RequeueRow i x" by (simp add: phase_ok_def)
    moreover have "newly_held ph ph' = []" "w = snd (requeue_row e i x (sy_world s))"
      using step RequeueRow by (auto simp: newly_held_def requeue_row_def split: prod.splits sum.splits option.splits)
    ultimately show ?thesis using requeue_runs [OF _ n] by simp
  next
    case (DropRow i t)
    with step ok(2) drop_runs [OF _ n, of "t_job_id t" "t_version t"] show ?thesis by (auto simp: phase_ok_def newly_held_def)
  qed (use step quiet in \<open>auto simp: newly_held_def read_attempts_def\<close>)
qed

section \<open>The phases keep what they rely on\<close>

lemma after_step_simps [simp]:
  "sy_world (after_step s e js w) = w" "sy_now (after_step s e js w) = re_now (rq_redis e)"
  "sy_readers (after_step s e js w) = js @ sy_readers s" "system_db (after_step s e js w) = w_db w"
  by (simp_all add: after_step_def system_db_def)

lemmas request_cases = sum.splits option.splits prod.splits if_splits get_caller.splits

lemma got_job_parts [simp]:
  "held_rows (got_job g x) = []" "phase_request (got_job g x) = Some q \<longleftrightarrow> x = None \<and> caller_request g = Some q"
  "held_rows (get_raised g y) = []" "phase_request (get_raised g y) = None"
  by (cases g; cases x; auto simp: get_raised_def raised_def)+

lemma got_job_no_write [simp]:
  "got_job g x \<noteq> PutKey q j b" "got_job g x \<noteq> DropRow i t" "got_job g x \<noteq> RequeueRow i n"
  "get_raised g y \<noteq> PutKey q j b" "get_raised g y \<noteq> DropRow i t" "get_raised g y \<noteq> RequeueRow i n"
  "raised y \<noteq> PutKey q j b" "raised y \<noteq> DropRow i t" "raised y \<noteq> RequeueRow i n"
  by (cases g; cases x; simp add: get_raised_def raised_def)+

lemmas read_parts = seek_key_def seek_job_def read_job_def read_attempts_def

lemma held_kept:
  assumes "api_request_step D e ph w = (ph', w')"
  shows "set (held_rows ph') \<subseteq> set (newly_held ph ph') \<union> set (held_rows ph)"
  using assms
  by (cases ph) (auto simp: api_request_step_def newly_held_def read_attempts_def split: if_splits)

lemma request_kept:
  assumes "api_request_step D e ph w = (ph', w')" "phase_request ph' = Some q"
  shows "phase_request ph = Some q"
  using assms
  by (cases ph) (auto simp: api_request_step_def request_parts split: request_cases)

lemma insert_row_key:
  assumes "insert_row digest c e q w = (PutKey q' j b, w')"
  shows "q' = q \<and> create_job (rq_env e) (schedule_new_job c (request_hash digest q) q) (w_db w) = Inr ((j, b), w_db w') \<and>
     j \<in> set (jobs (w_db w')) \<and> j_idempotency_key j = q_idempotency_key q \<and> j_request_hash j = request_hash digest q"
proof -
  let ?n = "schedule_new_job c (request_hash digest q) q"
  have tx: "begin_tx (rq_fate e) (create_job (rq_env e) ?n) (w_db w) = (Inr (j, b), w_db w')"
    and q: "q' = q" "b \<or> j_request_hash j = request_hash digest q"
    using assms by (auto simp: insert_row_def in_tx_def raised_def split: prod.splits sum.splits if_splits)
  note made = begin_tx_InrD [OF tx]
  have "b \<Longrightarrow> j = new_row (rq_env e) ?n"
    using made by (auto simp: create_job_def insert_job_def bind_result_Inr_iff split: if_splits option.splits)
  with create_job_result [OF made] q made show ?thesis by (auto simp: new_row_def schedule_new_job_def)
qed

lemma requeue_drop:
  assumes "requeue_dead_letter env i x s = Inr (Some t, s')"
  shows "row_reached s' (t_job_id t) (t_version t)"
proof -
  let ?hit = "\<lambda>j. j_id j = i \<and> j_status j = DEAD_LETTERED"
  obtain j where j: "first (returning ?hit (requeued_row env x) (jobs s)) = Some j" "t = job_transition j"
      "jobs s' = update_where ?hit (requeued_row env x) (jobs s)"
    using assms by (auto simp: requeue_dead_letter_def Let_def split: option.splits if_splits)
  from first_SomeD [OF j(1)] have "j \<in> set (jobs s')" by (auto simp: j(3) returning_def)
  then show ?thesis unfolding row_reached_def j(2) by (intro bexI [of _ j]) (simp_all add: job_transition_def)
qed

lemma requeue_row_drop:
  assumes "requeue_row e i x w = (DropRow i' t, w')"
  shows "row_reached (w_db w') (t_job_id t) (t_version t)"
proof -
  have "begin_tx (rq_fate e) (requeue_dead_letter (rq_env e) i x) (w_db w) = (Inr (Some t), w_db w')"
    using assms by (auto simp: requeue_row_def in_tx_def split: prod.splits sum.splits option.splits)
  from requeue_drop [OF begin_tx_InrD [OF this]] show ?thesis .
qed

text \<open>Which phase leads to which write.\<close>

lemma to_put_key:
  assumes "api_request_step D e ph w = (PutKey q j b, w')"
  shows "\<exists>q'. ph = InsertJob q' \<and> insert_row (dp_digest D) (dp_settings D) e q' w = (PutKey q j b, w')"
  using assms
  by (cases ph) (auto simp: api_request_step_def read_parts requeue_row_def split: request_cases)

lemma to_drop_row:
  assumes "api_request_step D e ph w = (DropRow i t, w')"
  shows "\<exists>i' x. ph = RequeueRow i' x \<and> requeue_row e i' x w = (DropRow i t, w')"
  using assms
  by (cases ph) (auto simp: api_request_step_def read_parts insert_row_def split: request_cases)

lemma to_requeue_row: "api_request_step D e ph w \<noteq> (RequeueRow i x, w')"
  by (cases ph) (auto simp: api_request_step_def read_parts insert_row_def requeue_row_def split: request_cases)

lemma phase_ok_next:
  assumes ok: "phase_ok D s call ph" and step: "api_request_step D e ph (sy_world s) = (ph', w)"
  shows "phase_ok D (after_step s e (newly_held ph ph') w) call ph'"
proof -
  have rows: "set (held_rows ph') \<subseteq> set (newly_held ph ph' @ sy_readers s)"
    using held_kept [OF step] ok by (auto simp: phase_ok_def)
  have request: "phase_request ph' = Some q \<Longrightarrow> call_request D call = Some q" for q
    using request_kept [OF step] ok by (auto simp: phase_ok_def)
  have key: "request_job D (w_db w) q (j_id j) \<and> request_row D q j" if "ph' = PutKey q j b" for q j b
    using to_put_key [OF step [unfolded that]] insert_row_key by (fastforce simp: request_job_def request_row_def)
  have drop: "row_reached (w_db w) (t_job_id t) (t_version t)" if "ph' = DropRow i t" for i t
    using to_drop_row [OF step [unfolded that]] requeue_row_drop by blast
  have no_requeue: "ph' \<noteq> RequeueRow i x" for i x
    using step to_requeue_row by blast
  show ?thesis
    unfolding phase_ok_def after_step_simps using rows request key drop no_requeue by (auto split: request_phase.split)
qed

lemma phase_ok_arrives: "phase_ok D s call (arrive D call)"
proof (cases call)
  case (PostCall clock header body)
  then show ?thesis
    by (auto simp: phase_ok_def start_post_def accepted_def split: request_cases)
next
  case (GetCall job_id inc)
  then show ?thesis by (auto simp: phase_ok_def start_get_def split: option.split)
next
  case (RequeueCall job_id extra)
  then show ?thesis by (auto simp: phase_ok_def start_requeue_def split: option.split)
qed

section \<open>Refinement\<close>

definition api_ok :: "'r deployment \<Rightarrow> 'r api \<Rightarrow> bool" where
  "api_ok D a \<longleftrightarrow>
     reach (queue_init D) (queue_step D) (ap_system a) \<and> ids_parse (dp_parse_uuid D) (system_db (ap_system a)) \<and>
     (\<forall>(call, ph) \<in># ap_requests a. phase_ok D (ap_system a) call ph)"

lemma reach_steps: "reach init step s \<Longrightarrow> step\<^sup>*\<^sup>* s t \<Longrightarrow> reach init step t"
  by (rotate_tac, induction rule: rtranclp_induct) (auto intro: reach_step)

lemma phase_ok_steps:
  assumes "(queue_step D)\<^sup>*\<^sup>* s t" "reach (queue_init D) (queue_step D) s" "phase_ok D s call ph"
  shows "phase_ok D t call ph"
  using assms
proof (induction rule: rtranclp_induct)
  case (step t u)
  then have "system_ok D t" using reach_ok [OF reach_steps] by blast
  with step show ?case using phase_ok_step by blast
qed

lemma api_step_system:
  assumes ok: "api_ok D a" and step: "api_step D a b"
  shows "(queue_step D)\<^sup>*\<^sup>* (ap_system a) (ap_system b)"
  using step
proof cases
  case (proceeds call ph e ph' w)
  have "system_ok D (ap_system a)" "phase_ok D (ap_system a) call ph"
    using ok proceeds(2) reach_ok by (auto simp: api_ok_def)
  from request_runs [OF this proceeds(3,4,5)] show ?thesis by (simp add: proceeds(1) after_step_def)
qed auto

lemma api_ok_step:
  assumes ok: "api_ok D a" and step: "api_step D a b"
  shows "api_ok D b"
proof -
  note run = api_step_system [OF ok step]
  have r: "reach (queue_init D) (queue_step D) (ap_system a)" using ok by (simp add: api_ok_def)
  note r' = reach_steps [OF r run]
  have old: "phase_ok D (ap_system b) call ph" if "(call, ph) \<in># ap_requests a" for call ph
    using phase_ok_steps [OF run r] ok that by (auto simp: api_ok_def)
  from step show ?thesis
  proof cases
    case (proceeds call ph e ph' w)
    have b: "ap_system b = after_step (ap_system a) e (newly_held ph ph') w" by (simp add: proceeds(1) after_step_def)
    have "phase_ok D (ap_system b) call ph'"
      unfolding b using phase_ok_next [OF _ proceeds(5)] ok proceeds(2) by (auto simp: api_ok_def)
    with r' old proceeds(6) show ?thesis by (auto simp: api_ok_def proceeds(1) system_db_def dest: in_diffD)
  qed (use ok old r' phase_ok_arrives in \<open>auto simp: api_ok_def dest: mset_subset_eqD\<close>)
qed

lemma api_reach_ok:
  assumes "reach (api_init D) (api_step D) a"
  shows "api_ok D a"
  using assms
proof (induction rule: reach.induct)
  case (reach_init a)
  then show ?case by (auto simp: api_ok_def api_init_def queue_init_def ids_parse_def empty_db_def intro: reach.reach_init)
next
  case (reach_step a b)
  then show ?case using api_ok_step by blast
qed

text \<open>
  C9: requests are atomic. Every step of the deployment whose requests stop at each \<open>await\<close>, with any number of
  them, workers and Redis failures interleaved, is a finite run of \<open>Queue_System\<close>, where a request is
  one step: the insert is the request, and the reads and cache writes around it are steps that \<open>Queue_System\<close>
  has anyway. So all that holds of the reachable states there holds with interleaved requests.
\<close>

theorem requests_refine_system:
  assumes "reach (api_init D) (api_step D) a" "api_step D a b"
  shows "(queue_step D)\<^sup>*\<^sup>* (ap_system a) (ap_system b) \<and> reach (queue_init D) (queue_step D) (ap_system b)"
proof
  have ok: "api_ok D a" by (rule api_reach_ok [OF assms(1)])
  show "(queue_step D)\<^sup>*\<^sup>* (ap_system a) (ap_system b)" by (rule api_step_system [OF ok assms(2)])
  show "reach (queue_init D) (queue_step D) (ap_system b)" using api_ok_step [OF ok assms(2)] by (simp add: api_ok_def)
qed

end
