(* ===== verification/Api_Answers.thy ===== *)
theory Api_Answers
  imports Api_System
begin

text \<open>
  What clients are told when their requests interleave: an answer that describes a job is true of the tables from the moment
  it is given and ever after, and of the posts that carry one key at most one creates a job.
  \<open>Api_History\<close> adds what a transaction of the request has found and done.
\<close>

section \<open>True answers\<close>

definition post_true :: "'r deployment \<Rightarrow> db \<Rightarrow> schedule_request option \<Rightarrow> job_out reply \<Rightarrow> bool" where
  "post_true D s request reply =
     (case reply of
        Answer code out \<Rightarrow>
          (\<exists>q. request = Some q \<and> request_job D s q (jo_id out) \<and> true_view s (jo_id out) out \<and>
             (code = 201 \<or> code = 200 \<and> q_idempotency_key q \<noteq> None))
      | Rejected code m \<Rightarrow>
          (case request of
             None \<Rightarrow> code = 422
           | Some q \<Rightarrow> code = 409 \<and> q_idempotency_key q \<noteq> None \<and>
               (\<exists>j\<in>set (jobs s). j_idempotency_key j = q_idempotency_key q \<and> j_request_hash j \<noteq> request_hash (dp_digest D) q))
      | ServerError x \<Rightarrow> x = OperationalError)"

definition get_true :: "db \<Rightarrow> uuid option \<Rightarrow> job_out reply \<Rightarrow> bool" where
  "get_true s parsed reply =
     (case reply of
        Answer code out \<Rightarrow> code = 200 \<and> parsed = Some (jo_id out) \<and> true_view s (jo_id out) out
      | Rejected code m \<Rightarrow> code = (if parsed = None then 422 else 404)
      | ServerError x \<Rightarrow> x = OperationalError)"

definition requeue_true :: "db \<Rightarrow> uuid option \<Rightarrow> int option \<Rightarrow> dict reply \<Rightarrow> bool" where
  "requeue_true s parsed extra reply =
     (case reply of
        Answer code d \<Rightarrow>
          code = 202 \<and> (\<exists>i\<in>set (job_ids s). parsed = Some i \<and> d = [(''status'', JStr ''requeued''), (''job_id'', JStr i)])
      | Rejected code m \<Rightarrow> code = (if parsed = None \<or> \<not> opt_all (int_in 1 20) extra then 422 else 404)
      | ServerError x \<Rightarrow> x = OperationalError)"

fun answer_true :: "'r deployment \<Rightarrow> db \<Rightarrow> api_call \<Rightarrow> response \<Rightarrow> bool" where
  "answer_true D s (PostCall clock header body) (JobReply r) = post_true D s (accepted (dp_parse_url D) clock header body) r"
| "answer_true D s (GetCall job_id inc) (JobReply r) = get_true s (dp_parse_uuid D job_id) r"
| "answer_true D s (RequeueCall job_id extra) (DictReply r) = requeue_true s (dp_parse_uuid D job_id) extra r"
| "answer_true D s _ _ = False"

section \<open>On the way to them\<close>

text \<open>The job that a request looks for is the one that was asked for, or the one with its key.\<close>

definition sought :: "'r deployment \<Rightarrow> db \<Rightarrow> api_call \<Rightarrow> get_caller \<Rightarrow> uuid \<Rightarrow> bool" where
  "sought D s call g i =
     (case g of
        FromRoute \<Rightarrow> (\<exists>job_id inc. call = GetCall job_id inc \<and> dp_parse_uuid D job_id = Some i)
      | FromSchedule q \<Rightarrow> call_request D call = Some q \<and> request_job D s q i \<and> q_idempotency_key q \<noteq> None)"

definition phase_true :: "'r deployment \<Rightarrow> db \<Rightarrow> api_call \<Rightarrow> request_phase \<Rightarrow> bool" where
  "phase_true D s call ph =
     (case ph of
        SeekJob i inc g \<Rightarrow> sought D s call g i
      | ReadJob i inc g \<Rightarrow> sought D s call g i
      | ReadAttempts j g \<Rightarrow> sought D s call g (j_id j)
      | PutRead j h g \<Rightarrow> sought D s call g (j_id j)
      | PutKey q j b \<Rightarrow> b \<or> q_idempotency_key q \<noteq> None
      | PutJob j b \<Rightarrow> (\<exists>q. call_request D call = Some q \<and> request_job D s q (j_id j) \<and> (b \<or> q_idempotency_key q \<noteq> None))
      | DropRow i t \<Rightarrow> i \<in> set (job_ids s) \<and> (\<exists>job_id extra. call = RequeueCall job_id extra \<and> dp_parse_uuid D job_id = Some i)
      | Answered r \<Rightarrow> answer_true D s call r
      | _ \<Rightarrow> True)"

text \<open>What is true stays true.\<close>

lemma true_view_moves: "rows_move B s t \<Longrightarrow> true_view s i out \<Longrightarrow> true_view t i out"
  unfolding true_view_def using seen_row_moves by blast

lemma job_ids_move: "rows_move B s t \<Longrightarrow> i \<in> set (job_ids s) \<Longrightarrow> i \<in> set (job_ids t)"
  unfolding job_ids_def set_map by (auto dest!: keyed_row_moves) (metis image_eqI)

lemma post_true_moves:
  assumes move: "rows_move B s t" and true: "post_true D s request reply"
  shows "post_true D t request reply"
proof (cases reply)
  case (Answer code out)
  with true request_job_moves [OF move] true_view_moves [OF move] show ?thesis by (auto simp: post_true_def)
next
  case (Rejected code m)
  show ?thesis
  proof (cases request)
    case (Some q)
    with true Rejected obtain j where "j \<in> set (jobs s)" "j_idempotency_key j = q_idempotency_key q"
        "j_request_hash j \<noteq> request_hash (dp_digest D) q"
      by (auto simp: post_true_def)
    with keyed_row_moves [OF move, of j] true Some Rejected show ?thesis by (auto simp: post_true_def)
  qed (use true Rejected in \<open>simp add: post_true_def\<close>)
qed (use true in \<open>simp add: post_true_def\<close>)

lemma answer_true_moves:
  assumes move: "rows_move B s t" and true: "answer_true D s call r"
  shows "answer_true D t call r"
proof -
  have "get_true t x y" if "get_true s x y" for x y
    using that true_view_moves [OF move] unfolding get_true_def by (auto split: reply.splits)
  moreover have "requeue_true t x z y" if "requeue_true s x z y" for x y z
    using that job_ids_move [OF move] unfolding requeue_true_def by (auto split: reply.splits)
  ultimately show ?thesis using true post_true_moves [OF move] by (cases call; cases r) simp_all
qed

lemma phase_true_moves:
  assumes move: "rows_move B s t" and true: "phase_true D s call ph"
  shows "phase_true D t call ph"
proof -
  have "sought D t call g i" if "sought D s call g i" for g i
    using that request_job_moves [OF move] by (auto simp: sought_def split: get_caller.splits)
  with true request_job_moves [OF move] job_ids_move [OF move] answer_true_moves [OF move] show ?thesis
    unfolding phase_true_def by (auto split: request_phase.splits)
qed

section \<open>Each phase leads to true ones\<close>

lemma key_read:
  assumes w: "cached R (true_entry K c) n w" and n: "n \<le> re_now e" and ids: "ids_parse pu (w_db w)"
  shows "fst (cache_get_idempotency R pu c e k (w_redis w)) = Inr None \<or>
     (\<exists>j\<in>set (jobs (w_db w)). j_idempotency_key j = Some k \<and>
        fst (cache_get_idempotency R pu c e k (w_redis w)) = Inr (Some (j_id j, j_request_hash j)))"
proof -
  have hit: "\<exists>j\<in>set (jobs (w_db w)). j_idempotency_key j = Some k \<and> parse_idem_entry pu (Some t) = Inr (Some (j_id j, j_request_hash j))"
    if t: "rd_get R (re_now e) (idem_key c k) (w_redis w) = Some t" for t
  proof -
    obtain j where j: "j \<in> set (jobs (w_db w))" "j_idempotency_key j = Some k" "t = j_id j @ ''|'' @ j_request_hash j"
      using entriesD [OF w [unfolded cached_def] n t] by (auto simp: true_entry_def)
    have "parse_idem_entry pu (Some t) = Inr (Some (j_id j, j_request_hash j))"
      using ids j(1) by (auto simp: j(3) parse_idem_entry_def ids_parse_def bar_split simp del: append.simps)
    with j show ?thesis by blast
  qed
  have "fst (cache_get_idempotency R pu c e k (w_redis w)) \<in>
      {parse_idem_entry pu None, parse_idem_entry pu (rd_get R (re_now e) (idem_key c k) (w_redis w))}"
    by (simp add: cache_get_idempotency_def cache_call_def redis_get_def Let_def split_beta split: redis_fate.split)
  with hit show ?thesis by (cases "rd_get R (re_now e) (idem_key c k) (w_redis w)") (auto simp: parse_idem_entry_def)
qed

lemma answered_post:
  "call_request D call = Some q \<Longrightarrow> answer_true D s call (JobReply r) = post_true D s (Some q) r"
  by (cases call) auto

lemma raised_true:
  assumes "call_request D call = Some q"
  shows "phase_true D s call (raised OperationalError)"
    "q_idempotency_key q = Some k \<Longrightarrow> j \<in> set (jobs s) \<Longrightarrow> j_idempotency_key j = Some k \<Longrightarrow>
       j_request_hash j \<noteq> request_hash (dp_digest D) q \<Longrightarrow> phase_true D s call (raised (IdempotencyConflict i))"
  by (auto simp: phase_true_def raised_def schedule_reply_def answered_post [OF assms] post_true_def)

lemma get_raised_true: "sought D s call g i \<Longrightarrow> phase_true D s call (get_raised g OperationalError)"
  by (cases g) (auto simp: get_raised_def sought_def raised_true, simp add: phase_true_def get_true_def)

lemma got_none_true: "sought D s call g i \<Longrightarrow> phase_true D s call (got_job g None)"
  by (cases g) (auto simp: phase_true_def sought_def get_true_def)

lemma got_true:
  assumes "sought D s call g i" "true_view s i out"
  shows "phase_true D s call (got_job g (Some out))"
proof -
  have "jo_id out = i" using assms(2) by (simp add: true_view_def)
  with assms show ?thesis
    by (cases g) (auto simp: phase_true_def sought_def get_true_def schedule_reply_def answered_post post_true_def)
qed

lemma seek_key_true:
  assumes w: "cached R (true_entry K (dp_settings D)) n w" and n: "n \<le> re_now (rq_redis e)" and ids: "ids_parse pu (w_db w)"
    and q: "call_request D call = Some q"
  shows "phase_true D (w_db w) call (fst (seek_key R (dp_digest D) pu (dp_settings D) e q w))"
proof (cases "q_idempotency_key q")
  case None
  then show ?thesis by (simp add: seek_key_def phase_true_def)
next
  case (Some k)
  obtain r w1 where g: "on_redis (cache_get_idempotency R pu (dp_settings D) (rq_redis e) k) w = (r, w1)"
    by (cases "on_redis (cache_get_idempotency R pu (dp_settings D) (rq_redis e) k) w")
  then have "r = fst (cache_get_idempotency R pu (dp_settings D) (rq_redis e) k (w_redis w))"
    using on_redis_simps(1) [of "cache_get_idempotency R pu (dp_settings D) (rq_redis e) k" w] by simp
  with key_read [OF w n ids, of k] consider "r = Inr None" | j where "j \<in> set (jobs (w_db w))" "j_idempotency_key j = Some k"
      "r = Inr (Some (j_id j, j_request_hash j))" by auto
  then show ?thesis
  proof cases
    case 1
    then show ?thesis by (simp add: seek_key_def Some g phase_true_def)
  next
    case (2 j)
    show ?thesis
    proof (cases "j_request_hash j = request_hash (dp_digest D) q")
      case True
      with 2 q show ?thesis
        by (auto simp: seek_key_def Some g phase_true_def sought_def request_job_def request_row_def)
    next
      case False
      with raised_true(2) [OF q Some 2(1,2) False] 2(3) show ?thesis by (simp add: seek_key_def Some g)
    qed
  qed
qed

lemma seek_job_true:
  assumes w: "cached R (true_entry K c) n w" and n: "n \<le> re_now (rq_redis e)" and K: "codec_keeps_head K"
    and i: "sought D (w_db w) call g i"
  shows "phase_true D (w_db w) call (fst (seek_job R K c e i inc g w))"
proof (cases inc)
  case True
  with i show ?thesis by (simp add: seek_job_def phase_true_def)
next
  case False
  obtain r w1 where g: "on_redis (cache_get_job R K c (rq_redis e) i) w = (r, w1)"
    by (cases "on_redis (cache_get_job R K c (rq_redis e) i) w")
  then have "r = fst (cache_get_job R K c (rq_redis e) i (w_redis w))"
    using on_redis_simps(1) [of "cache_get_job R K c (rq_redis e) i" w] by simp
  with cached_read [OF w n K, of i] consider "r = Inr None" | out where "r = Inr (Some out)" "true_view (w_db w) i out"
    by auto
  then show ?thesis
    by cases (use False i got_true [OF i] in \<open>auto simp: seek_job_def g phase_true_def\<close>)
qed

lemma read_job_true:
  assumes i: "sought D (w_db w) call g i"
  shows "phase_true D (w_db w) call (read_job e i inc g w)"
  using get_raised_true [OF i] got_none_true [OF i] i
  by (auto simp: read_job_def phase_true_def get_job_def split: option.split dest!: first_SomeD)

lemma put_read_true:
  assumes "seen_row s j" "sought D s call g (j_id j)"
  shows "phase_true D s call (got_job g (Some (read_view j h)))"
proof (rule got_true [OF assms(2)])
  show "true_view s (j_id j) (read_view j h)"
    unfolding true_view_def using assms(1) by (intro conjI exI [of _ j]) (simp_all add: read_view_def split: option.split)
qed

lemma accepted_attempts:
  assumes "call_request D call = Some q" "1 \<le> cfg_max_attempts (dp_settings D)"
  shows "1 \<le> n_max_attempts (schedule_new_job (dp_settings D) h q)"
proof -
  obtain clock header body where "accepted (dp_parse_url D) clock header body = Some q"
    using assms(1) by (cases call) auto
  then show ?thesis by (rule acceptedE) (rule request_attempts [OF _ _ assms(2)])
qed

lemma insert_row_true:
  assumes q: "call_request D call = Some q" and attempts: "1 \<le> n_max_attempts (schedule_new_job (dp_settings D) (request_hash (dp_digest D) q) q)"
    and new: "gen_job_id (rq_env e) \<notin> set (job_ids (w_db w))"
    and run: "insert_row (dp_digest D) (dp_settings D) e q w = (ph', w')"
  shows "phase_true D (w_db w') call ph'"
proof -
  let ?n = "schedule_new_job (dp_settings D) (request_hash (dp_digest D) q) q"
  have n: "n_idempotency_key ?n = q_idempotency_key q" by (simp add: schedule_new_job_def)
  obtain r t where tx: "begin_tx (rq_fate e) (create_job (rq_env e) ?n) (w_db w) = (r, t)"
    by (cases "begin_tx (rq_fate e) (create_job (rq_env e) ?n) (w_db w)")
  show ?thesis
  proof (cases r)
    case (Inl x)
    with tx create_job_cases [OF attempts new] have "x = OperationalError"
      by (auto simp: begin_tx_def split: tx_fate.splits sum.splits)
    with run Inl tx raised_true(1) [OF q] show ?thesis by (auto simp: insert_row_def in_tx_def)
  next
    case (Inr p)
    then obtain j b where p: "r = Inr (j, b)" by (cases p) auto
    note made = begin_tx_InrD [OF tx [unfolded p]]
    have b: "b \<or> t = w_db w \<and> j \<in> set (jobs t) \<and> j_idempotency_key j = q_idempotency_key q \<and> q_idempotency_key q \<noteq> None"
      using attempts new by (cases rule: create_job_cases) (use made n in auto)
    show ?thesis
    proof (cases "b \<or> j_request_hash j = request_hash (dp_digest D) q")
      case True
      with run p tx b show ?thesis by (auto simp: insert_row_def in_tx_def phase_true_def)
    next
      case False
      with b obtain k where "q_idempotency_key q = Some k" by auto
      with raised_true(2) [OF q this, of j t] b False run p tx show ?thesis by (auto simp: insert_row_def in_tx_def)
    qed
  qed
qed

lemma requeue_arrives:
  assumes call: "arrive D call = RequeueRow i x" and attempts: "1 \<le> cfg_max_attempts (dp_settings D)"
  obtains job_id extra where "call = RequeueCall job_id extra" "dp_parse_uuid D job_id = Some i"
    "opt_all (int_in 1 20) extra" "1 \<le> x"
proof -
  obtain job_id extra where c: "call = RequeueCall job_id extra" "dp_parse_uuid D job_id = Some i" "opt_all (int_in 1 20) extra"
      "x = coalesce extra (cfg_max_attempts (dp_settings D))"
    using call by (cases call)
      (auto simp: start_post_def start_get_def start_requeue_def split: sum.splits option.splits if_splits)
  have "1 \<le> x" using c(3,4) attempts by (cases extra) (auto simp: opt_all_def int_in_def)
  with c(1-3) show thesis by (rule that)
qed

lemma requeue_row_true:
  assumes call: "arrive D call = RequeueRow i x" and attempts: "1 \<le> cfg_max_attempts (dp_settings D)"
    and inv: "db_inv {} (w_db w)" and run: "requeue_row e i x w = (ph', w')"
  shows "phase_true D (w_db w') call ph'"
proof -
  obtain job_id extra where c: "call = RequeueCall job_id extra" "dp_parse_uuid D job_id = Some i" "opt_all (int_in 1 20) extra"
    and x: "1 \<le> x" by (rule requeue_arrives [OF call attempts])
  obtain r t where tx: "begin_tx (rq_fate e) (requeue_dead_letter (rq_env e) i x) (w_db w) = (r, t)"
    by (cases "begin_tx (rq_fate e) (requeue_dead_letter (rq_env e) i x) (w_db w)")
  show ?thesis
  proof (cases r)
    case (Inl y)
    with tx requeue_dead_letter_keeps [OF inv x, of "rq_env e" i] have "y = OperationalError"
      by (auto simp: begin_tx_def split: tx_fate.splits sum.splits)
    with run Inl tx c show ?thesis by (auto simp: requeue_row_def in_tx_def phase_true_def requeue_true_def)
  next
    case (Inr u)
    note made = begin_tx_InrD [OF tx [unfolded Inr]]
    show ?thesis
    proof (cases u)
      case None
      with run Inr tx c show ?thesis by (auto simp: requeue_row_def in_tx_def phase_true_def requeue_true_def)
    next
      case (Some tr)
      with made have "i \<in> set (job_ids (w_db w))"
        by (auto simp: requeue_dead_letter_def Let_def job_ids_def returning_def split: option.splits if_splits dest!: first_SomeD)
      moreover have "rows_move {} (w_db w) t" using rows_move_requeue made Some by blast
      ultimately have "i \<in> set (job_ids t)" using job_ids_move by blast
      with run Inr Some tx c show ?thesis by (auto simp: requeue_row_def in_tx_def phase_true_def)
    qed
  qed
qed

text \<open>Only the two transactions change tables.\<close>

lemma request_step_db:
  assumes "api_request_step D e ph w = (ph', w')" "\<And>q. ph \<noteq> InsertJob q" "\<And>i x. ph \<noteq> RequeueRow i x"
  shows "w_db w' = w_db w"
  using assms
  by (cases ph) (auto simp: api_request_step_def read_parts put_row_def put_key_def dest: redis_reads split: request_cases)

lemma phase_true_next:
  assumes sys: "system_ok D s" "cache_true D s" "ids_parse (dp_parse_uuid D) (system_db s)" and K: "codec_keeps_head (dp_codec D)"
    and ph: "phase_ok D s call ph" "phase_true D (system_db s) call ph"
    and fresh: "fresh_ids (rq_env e) (system_db s)" and n: "sy_now s \<le> re_now (rq_redis e)"
    and step: "api_request_step D e ph (sy_world s) = (ph', w)"
  shows "phase_true D (w_db w) call ph'"
proof -
  note run = step [unfolded api_request_step_def]
  have db: "w_db w = w_db (sy_world s)" if "\<And>q. ph \<noteq> InsertJob q" "\<And>i x. ph \<noteq> RequeueRow i x"
    by (rule request_step_db [OF step that])
  have w: "cached (dp_redis D) (true_entry (dp_codec D) (dp_settings D)) (sy_now s) (sy_world s)"
    using sys(2) by (simp add: cache_true_def)
  have true: "phase_true D (w_db (sy_world s)) call ph" using ph(2) by (simp add: system_db_def)
  have seen: "seen_row (w_db (sy_world s)) j" if "j \<in> set (held_rows ph)" for j
    using ph(1) sys(2) that by (auto simp: phase_ok_def cache_true_def system_db_def)
  have asked: "phase_request ph = Some q \<Longrightarrow> call_request D call = Some q" for q using ph(1) by (simp add: phase_ok_def)
  show ?thesis
  proof (cases ph)
    case (SeekKey q)
    with seek_key_true [OF w n sys(3) [unfolded system_db_def] asked] run db show ?thesis by simp
  next
    case (SeekJob i inc g)
    with true have "sought D (w_db (sy_world s)) call g i" by (simp add: phase_true_def)
    from seek_job_true [OF w n K this, of inc] SeekJob run db show ?thesis by simp
  next
    case (ReadJob i inc g)
    with true have "sought D (w_db (sy_world s)) call g i" by (simp add: phase_true_def)
    from read_job_true [OF this] ReadJob run show ?thesis by auto
  next
    case (ReadAttempts j g)
    with true have j: "sought D (w_db (sy_world s)) call g (j_id j)" by (simp add: phase_true_def)
    from get_raised_true [OF j] j ReadAttempts run show ?thesis by (auto simp: read_attempts_def phase_true_def)
  next
    case (PutRead j h g)
    with true have "sought D (w_db (sy_world s)) call g (j_id j)" by (simp add: phase_true_def)
    from put_read_true [OF seen this, of h] PutRead run db show ?thesis by auto
  next
    case (InsertJob q)
    have new: "gen_job_id (rq_env e) \<notin> set (job_ids (w_db (sy_world s)))" using fresh by (simp add: fresh_ids_def system_db_def)
    from InsertJob asked have q: "call_request D call = Some q" by simp
    from insert_row_true [OF q accepted_attempts [OF q system_okD(1) [OF sys(1)]] new] InsertJob run show ?thesis by simp
  next
    case (PutKey q j b)
    with ph(1) true db run show ?thesis by (auto simp: phase_ok_def phase_true_def system_db_def)
  next
    case (PutJob j b)
    with true obtain q where q: "call_request D call = Some q" "request_job D (w_db (sy_world s)) q (j_id j)"
        "b \<or> q_idempotency_key q \<noteq> None" by (auto simp: phase_true_def)
    moreover have "true_view (w_db (sy_world s)) (j_id j) (job_out_of j)"
      unfolding true_view_def using seen PutJob by (intro conjI exI [of _ j]) simp_all
    ultimately show ?thesis
      using PutJob db run by (auto simp: phase_true_def answered_post post_true_def schedule_reply_def)
  next
    case (RequeueRow i x)
    with ph(1) have "arrive D call = RequeueRow i x" by (simp add: phase_ok_def)
    from requeue_row_true [OF this system_okD(1) [OF sys(1)] system_okD(2) [OF sys(1), unfolded system_db_def]] RequeueRow run
    show ?thesis by simp
  next
    case (DropRow i t)
    with true db run show ?thesis by (auto simp: phase_true_def requeue_true_def)
  next
    case (Answered r)
    then have "ph' = ph" using run by simp
    with true db Answered show ?thesis by simp
  qed
qed

lemma phase_true_arrives: "phase_true D s call (arrive D call)"
proof (cases call)
  case (PostCall clock header body)
  then show ?thesis
    by (auto simp: phase_true_def start_post_def accepted_def post_true_def validation_error_def schedule_reply_def split: request_cases)
next
  case (GetCall job_id inc)
  then show ?thesis by (auto simp: phase_true_def start_get_def sought_def get_true_def validation_error_def split: option.split)
next
  case (RequeueCall job_id extra)
  then show ?thesis by (auto simp: phase_true_def start_requeue_def requeue_true_def validation_error_def split: option.split)
qed

section \<open>Creations\<close>

text \<open>The job that a post has created, from its transaction on.\<close>

fun creation :: "request_phase \<Rightarrow> uuid list" where
  "creation (PutKey q j b) = (if b then [j_id j] else [])"
| "creation (PutJob j b) = (if b then [j_id j] else [])"
| "creation (Answered (JobReply (Answer code out))) = (if code = 201 then [jo_id out] else [])"
| "creation _ = []"

definition created_ids :: "(api_call \<times> request_phase) multiset \<Rightarrow> uuid multiset" where
  "created_ids rs = sum_mset (image_mset (\<lambda>(call, ph). mset (creation ph)) rs)"

lemma created_ids_simps [simp]:
  "created_ids {#} = {#}" "created_ids (add_mset (call, ph) rs) = mset (creation ph) + created_ids rs"
  "created_ids (rs + rs') = created_ids rs + created_ids rs'"
  by (simp_all add: created_ids_def)

lemma created_ids_mono: "rs \<subseteq># rs' \<Longrightarrow> created_ids rs \<subseteq># created_ids rs'"
  by (auto simp: subset_mset.le_iff_add)

lemma creation_got [simp]:
  "creation (got_job g x) = []" "creation (raised y) = []" "creation (get_raised g y) = []"
  by (cases g; cases x; cases y; simp add: raised_def get_raised_def schedule_reply_def)+

lemma creation_arrive [simp]: "creation (arrive D call) = []"
  by (cases call) (auto simp: start_post_def start_get_def start_requeue_def schedule_reply_def validation_error_def
      split: sum.split option.split)

lemma creation_insert:
  assumes "insert_row digest c e q w = (ph', w')" "gen_job_id (rq_env e) \<notin> set (job_ids (w_db w))"
  shows "creation ph' = [] \<or> creation ph' = [gen_job_id (rq_env e)] \<and> gen_job_id (rq_env e) \<in> set (job_ids (w_db w'))"
proof (cases "\<exists>j b. ph' = PutKey q j b")
  case True
  then obtain j b where ph': "ph' = PutKey q j b" by blast
  note made = insert_row_key [OF assms(1) [unfolded ph'], THEN conjunct2]
  have "b \<Longrightarrow> j_id j = gen_job_id (rq_env e)"
    using made [THEN conjunct1] by (auto simp: create_job_def insert_job_def bind_result_Inr_iff new_row_def split: if_splits option.splits)
  moreover have "j_id j \<in> set (job_ids (w_db w'))" using made by (simp add: job_ids_def)
  ultimately show ?thesis by (auto simp: ph')
next
  case False
  with assms(1) show ?thesis by (auto simp: insert_row_def split: request_cases)
qed

lemma creation_step:
  assumes step: "api_request_step D e ph w = (ph', w')" and new: "gen_job_id (rq_env e) \<notin> set (job_ids (w_db w))"
  shows "creation ph' = creation ph \<or> creation ph' = [] \<or>
     creation ph = [] \<and> creation ph' = [gen_job_id (rq_env e)] \<and> gen_job_id (rq_env e) \<in> set (job_ids (w_db w'))"
proof (cases ph)
  case (InsertJob q)
  with creation_insert [OF _ new] step show ?thesis by (auto simp: api_request_step_def)
qed (use step in \<open>auto simp: api_request_step_def read_parts requeue_row_def schedule_reply_def split: request_cases\<close>)

definition created_once :: "'r api \<Rightarrow> bool" where
  "created_once a \<longleftrightarrow>
     (\<forall>i. count (created_ids (ap_requests a)) i \<le> 1) \<and>
     set_mset (created_ids (ap_requests a)) \<subseteq> set (job_ids (system_db (ap_system a)))"

lemma created_once_proceeds:
  assumes once: "created_once a" and ph: "(call, ph) \<in># ap_requests a" and fresh: "gen_job_id (rq_env e) \<notin> set (job_ids (system_db (ap_system a)))"
    and step: "api_request_step D e ph (sy_world (ap_system a)) = (ph', w)"
    and ids: "set (job_ids (system_db (ap_system a))) \<subseteq> set (job_ids (w_db w))"
  shows "(\<forall>i. count (created_ids (add_mset (call, ph') (ap_requests a - {#(call, ph)#}))) i \<le> 1) \<and>
     set_mset (created_ids (add_mset (call, ph') (ap_requests a - {#(call, ph)#}))) \<subseteq> set (job_ids (w_db w))"
proof -
  obtain rs where rs: "ap_requests a = add_mset (call, ph) rs" using ph by (meson mset_add)
  let ?i = "gen_job_id (rq_env e)"
  have before: "\<And>i. count (created_ids rs) i + count (mset (creation ph)) i \<le> 1"
    "set_mset (created_ids rs) \<union> set (creation ph) \<subseteq> set (job_ids (system_db (ap_system a)))"
    using once by (auto simp: created_once_def rs add.commute)
  have rest: "count (created_ids rs) i \<le> 1" for i by (rule le_trans [OF le_add1 before(1)])
  from creation_step [OF step fresh [unfolded system_db_def]] consider "creation ph' = creation ph" | "creation ph' = []"
    | "creation ph' = [?i]" "?i \<in> set (job_ids (w_db w))" by blast
  then show ?thesis
  proof cases
    case 3
    have "count (created_ids rs) ?i = 0" using before(2) fresh by (auto simp: count_eq_zero_iff)
    with 3 before ids rest show ?thesis by (auto simp: rs)
  qed (use before ids rest in \<open>auto simp: rs add.commute\<close>)
qed

section \<open>Every reachable state\<close>

lemma stable_steps:
  assumes stable: "\<And>B s t. rows_move B s t \<Longrightarrow> P s \<Longrightarrow> P t"
    and run: "(queue_step D)\<^sup>*\<^sup>* s t" and r: "reach (queue_init D) (queue_step D) s" and "P (system_db s)"
  shows "P (system_db t)"
  using run assms(4)
proof (induction rule: rtranclp_induct)
  case (step t u)
  have "system_ok D t" using reach_ok [OF reach_steps [OF r step(1)]] .
  from stable [OF step_moves [OF step(2) this]] step(3,4) show ?case by blast
qed

definition api_true :: "'r deployment \<Rightarrow> 'r api \<Rightarrow> bool" where
  "api_true D a \<longleftrightarrow> (\<forall>(call, ph) \<in># ap_requests a. phase_true D (system_db (ap_system a)) call ph)"

lemma api_true_step:
  assumes honest: "honest_redis D" and K: "codec_keeps_head (dp_codec D)"
    and ok: "api_ok D a" and step: "api_step D a b" and true: "api_true D a" and once: "created_once a"
  shows "api_true D b \<and> created_once b"
proof -
  note run = api_step_system [OF ok step]
  have r: "reach (queue_init D) (queue_step D) (ap_system a)" and ids: "ids_parse (dp_parse_uuid D) (system_db (ap_system a))"
    using ok by (simp_all add: api_ok_def)
  have old: "phase_true D (system_db (ap_system b)) call ph" if "(call, ph) \<in># ap_requests a" for call ph
    by (rule stable_steps [where P = "\<lambda>s. phase_true D s call ph", OF phase_true_moves run r])
      (use true that in \<open>auto simp: api_true_def\<close>)
  have grow: "i \<in> set (job_ids (system_db (ap_system a))) \<Longrightarrow> i \<in> set (job_ids (system_db (ap_system b)))" for i
    by (rule stable_steps [where P = "\<lambda>s. i \<in> set (job_ids s)", OF job_ids_move run r])
  from step show ?thesis
  proof cases
    case (proceeds call ph e ph' w)
    have db: "system_db (ap_system b) = w_db w" by (simp add: proceeds(1) system_db_def)
    have ph: "phase_ok D (ap_system a) call ph" "phase_true D (system_db (ap_system a)) call ph"
      using ok true proceeds(2) by (auto simp: api_ok_def api_true_def)
    have "phase_true D (w_db w) call ph'"
      by (rule phase_true_next [OF reach_ok [OF r] reach_cache_true [OF honest r] ids K ph proceeds(3,4,5)])
    then have "api_true D b" using old by (auto simp: api_true_def db proceeds(1) system_db_def dest: in_diffD)
    moreover have "created_once b"
      using created_once_proceeds [OF once proceeds(2) _ proceeds(5)] proceeds(3) grow
      unfolding created_once_def db by (auto simp: proceeds(1) fresh_ids_def db [unfolded proceeds(1)])
    ultimately show ?thesis ..
  next
    case (leaves rs)
    have "count (created_ids rs) i \<le> count (created_ids (ap_requests a)) i" for i
      using created_ids_mono [OF leaves(2)] by (rule mset_subset_eq_count)
    then have "created_once b"
      using once set_mset_mono [OF created_ids_mono [OF leaves(2)]] unfolding created_once_def leaves(1)
      by (auto intro: order_trans)
    moreover have "api_true D b" using true leaves(2) by (auto simp: api_true_def leaves(1) dest: mset_subset_eqD)
    ultimately show ?thesis by simp
  qed (use old grow once true phase_true_arrives in \<open>auto simp: api_true_def created_once_def\<close>)
qed

lemma api_reach_true:
  assumes "honest_redis D" "codec_keeps_head (dp_codec D)" "reach (api_init D) (api_step D) a"
  shows "api_true D a \<and> created_once a"
  using assms(3)
proof (induction rule: reach.induct)
  case (reach_init a)
  then show ?case by (simp add: api_init_def api_true_def created_once_def)
next
  case (reach_step a b)
  then show ?case using api_true_step [OF assms(1,2) api_reach_ok] by blast
qed

lemma api_trueD:
  "api_true D a \<Longrightarrow> (call, Answered r) \<in># ap_requests a \<Longrightarrow> answer_true D (system_db (ap_system a)) call r"
  by (auto simp: api_true_def phase_true_def)

text \<open>
  C5: posts that race for a key create one job. Of two posts with the same idempotency key, wherever
  their steps interleave and whatever the cache holds or loses, both answered with a job: it is the same
  job, the requests have the same fingerprint, and at most one of the answers is \<open>201\<close>.
\<close>

theorem racing_posts_create_once:
  assumes "honest_redis D" "codec_keeps_head (dp_codec D)" "reach (api_init D) (api_step D) a"
    and posts: "{#(call1, Answered (JobReply (Answer code1 out1))), (call2, Answered (JobReply (Answer code2 out2)))#}
      \<subseteq># ap_requests a"
    and keys: "call_request D call1 = Some q1" "call_request D call2 = Some q2"
      "q_idempotency_key q1 = Some k" "q_idempotency_key q2 = Some k"
  shows "jo_id out1 = jo_id out2 \<and> request_hash (dp_digest D) q1 = request_hash (dp_digest D) q2 \<and> \<not> (code1 = 201 \<and> code2 = 201)"
proof -
  let ?s = "system_db (ap_system a)"
  have r: "reach (queue_init D) (queue_step D) (ap_system a)" using api_reach_ok [OF assms(3)] by (simp add: api_ok_def)
  note unique = idempotency_key_unique [OF db_invD(2) [OF system_okD(2) [OF reach_ok [OF r]]]]
  have true: "api_true D a" "created_once a" using api_reach_true [OF assms(1-3)] by simp_all
  have told: "answer_true D ?s call1 (JobReply (Answer code1 out1))" "answer_true D ?s call2 (JobReply (Answer code2 out2))"
    using api_trueD [OF true(1)] mset_subset_eqD [OF posts] by simp_all
  then obtain j1 j2 where j: "j1 \<in> set (jobs ?s)" "j_id j1 = jo_id out1" "request_row D q1 j1"
      "j2 \<in> set (jobs ?s)" "j_id j2 = jo_id out2" "request_row D q2 j2"
    by (auto simp: answered_post [OF keys(1)] answered_post [OF keys(2)] post_true_def request_job_def)
  have same: "j1 = j2" by (rule unique [OF j(1,4)]) (use j(3,6) keys in \<open>simp_all add: request_row_def\<close>)
  have "count (created_ids {#(call1, Answered (JobReply (Answer code1 out1))), (call2, Answered (JobReply (Answer code2 out2)))#})
      (jo_id out1) \<le> 1"
    using mset_subset_eq_count [OF created_ids_mono [OF posts]] true(2) unfolding created_once_def by (meson order_trans)
  with same j show ?thesis by (auto simp: request_row_def)
qed

end
