(* ===== verification/Api_History.thy ===== *)
theory Api_History
  imports Api_Answers
begin

text \<open>
  The transactions behind the answers. A run of the deployment is taken together with the history of its requests:
  whose step it was, and the tables before and after. An answer that says what a request found or did (no such job,
  created, requeued, not in the dead letter queue) is then tied to a step of that request.
\<close>

section \<open>Runs with a history\<close>

type_synonym request_log = "(api_call \<times> db \<times> db) list"

inductive api_run :: "'r deployment \<Rightarrow> request_log \<Rightarrow> 'r api \<Rightarrow> bool" for D where
  run_starts: "api_init D a \<Longrightarrow> api_run D [] a"
| run_arrives: "api_run D hist a \<Longrightarrow> api_run D hist (a\<lparr>ap_requests := add_mset (call, arrive D call) (ap_requests a)\<rparr>)"
| run_proceeds: "api_run D hist a \<Longrightarrow> (call, ph) \<in># ap_requests a \<Longrightarrow> fresh_ids (rq_env e) (system_db (ap_system a)) \<Longrightarrow>
     sy_now (ap_system a) \<le> re_now (rq_redis e) \<Longrightarrow> api_request_step D e ph (sy_world (ap_system a)) = (ph', w) \<Longrightarrow>
     ids_parse (dp_parse_uuid D) (w_db w) \<Longrightarrow>
     api_run D ((call, system_db (ap_system a), w_db w) # hist)
       (a\<lparr>ap_system := (ap_system a)\<lparr>sy_world := w, sy_now := re_now (rq_redis e),
            sy_readers := newly_held ph ph' @ sy_readers (ap_system a)\<rparr>,
          ap_requests := add_mset (call, ph') (ap_requests a - {#(call, ph)#})\<rparr>)"
| run_leaves: "api_run D hist a \<Longrightarrow> rs \<subseteq># ap_requests a \<Longrightarrow> api_run D hist (a\<lparr>ap_requests := rs\<rparr>)"
| run_others: "api_run D hist a \<Longrightarrow> queue_step D (ap_system a) s \<Longrightarrow> ids_parse (dp_parse_uuid D) (system_db s) \<Longrightarrow>
     api_run D hist (a\<lparr>ap_system := s\<rparr>)"

text \<open>The runs are those of \<open>api_step\<close>, no more and no fewer.\<close>

lemma api_run_reach: "api_run D hist a \<Longrightarrow> reach (api_init D) (api_step D) a"
proof (induction rule: api_run.induct)
  case (run_proceeds hist a call ph e ph' w)
  from reach_step [OF run_proceeds.IH proceeds [OF run_proceeds.hyps(2-6)]] show ?case .
next
  case (run_leaves hist a rs)
  from reach_step [OF run_leaves.IH leaves [OF run_leaves.hyps(2)]] show ?case .
next
  case (run_others hist a s)
  from reach_step [OF run_others.IH others [OF run_others.hyps(2,3)]] show ?case .
qed (auto intro: reach_init reach_step arrives)

lemma reach_api_run: "reach (api_init D) (api_step D) a \<Longrightarrow> \<exists>hist. api_run D hist a"
proof (induction rule: reach.induct)
  case (reach_init a)
  then show ?case by (auto intro: run_starts)
next
  case (reach_step a b)
  then obtain hist where run: "api_run D hist a" by blast
  from reach_step(2) show ?case
  proof cases
    case (arrives call)
    then show ?thesis using run_arrives [OF run] by blast
  next
    case (proceeds call ph e ph' w)
    then show ?thesis using run_proceeds [OF run proceeds(2-6)] by blast
  next
    case (leaves rs)
    then show ?thesis using run_leaves [OF run] by blast
  next
    case (others s)
    then show ?thesis using run_others [OF run] by blast
  qed
qed

section \<open>What a request has found and done\<close>

definition found_no_job :: "request_log \<Rightarrow> api_call \<Rightarrow> uuid \<Rightarrow> bool" where
  "found_no_job hist call i \<longleftrightarrow> (\<exists>s t. (call, s, t) \<in> set hist \<and> get_job s i = None)"

definition created_job :: "request_log \<Rightarrow> api_call \<Rightarrow> uuid \<Rightarrow> bool" where
  "created_job hist call i \<longleftrightarrow> (\<exists>s t. (call, s, t) \<in> set hist \<and> get_job s i = None \<and> get_job t i \<noteq> None)"

definition found_not_dead :: "request_log \<Rightarrow> api_call \<Rightarrow> uuid \<Rightarrow> bool" where
  "found_not_dead hist call i \<longleftrightarrow>
     (\<exists>s t. (call, s, t) \<in> set hist \<and> (\<forall>j. get_job s i = Some j \<longrightarrow> j_status j \<noteq> DEAD_LETTERED))"

definition requeued_job :: "request_log \<Rightarrow> api_call \<Rightarrow> uuid \<Rightarrow> bool" where
  "requeued_job hist call i \<longleftrightarrow>
     (\<exists>s t j k. (call, s, t) \<in> set hist \<and> get_job s i = Some j \<and> j_status j = DEAD_LETTERED \<and>
        get_job t i = Some k \<and> j_status k = PENDING \<and> j_version k = j_version j + 1)"

text \<open>The job that a call names in its path.\<close>

fun named_job :: "'r deployment \<Rightarrow> api_call \<Rightarrow> uuid option" where
  "named_job D (PostCall clock header body) = None"
| "named_job D (GetCall job_id inc) = dp_parse_uuid D job_id"
| "named_job D (RequeueCall job_id extra) = dp_parse_uuid D job_id"

definition answer_earned :: "'r deployment \<Rightarrow> request_log \<Rightarrow> api_call \<Rightarrow> response \<Rightarrow> bool" where
  "answer_earned D hist call r =
     (case r of
        JobReply (Answer code out) \<Rightarrow> code = 201 \<longrightarrow> created_job hist call (jo_id out)
      | JobReply (Rejected code m) \<Rightarrow> code = 404 \<longrightarrow> (\<exists>i. named_job D call = Some i \<and> found_no_job hist call i)
      | DictReply (Answer code d) \<Rightarrow> (\<exists>i. named_job D call = Some i \<and> requeued_job hist call i)
      | DictReply (Rejected code m) \<Rightarrow> code = 404 \<longrightarrow> (\<exists>i. named_job D call = Some i \<and> found_not_dead hist call i)
      | _ \<Rightarrow> True)"

definition phase_earned :: "'r deployment \<Rightarrow> request_log \<Rightarrow> api_call \<Rightarrow> request_phase \<Rightarrow> bool" where
  "phase_earned D hist call ph =
     (case ph of
        PutKey q j b \<Rightarrow> b \<longrightarrow> created_job hist call (j_id j)
      | PutJob j b \<Rightarrow> b \<longrightarrow> created_job hist call (j_id j)
      | DropRow i t \<Rightarrow> named_job D call = Some i \<and> requeued_job hist call i
      | Answered r \<Rightarrow> answer_earned D hist call r
      | _ \<Rightarrow> True)"

text \<open>What has happened stays so.\<close>

lemma log_grows:
  "found_no_job hist call i \<Longrightarrow> found_no_job (x # hist) call i" "created_job hist call i \<Longrightarrow> created_job (x # hist) call i"
  "found_not_dead hist call i \<Longrightarrow> found_not_dead (x # hist) call i" "requeued_job hist call i \<Longrightarrow> requeued_job (x # hist) call i"
  by (auto simp: found_no_job_def created_job_def found_not_dead_def requeued_job_def)

lemma phase_earned_grows: "phase_earned D hist call ph \<Longrightarrow> phase_earned D (x # hist) call ph"
  unfolding phase_earned_def answer_earned_def
  by (auto intro: log_grows split: request_phase.splits response.splits reply.splits)

lemma phase_earned_arrives: "phase_earned D hist call (arrive D call)"
  by (cases call)
    (auto simp: phase_earned_def answer_earned_def start_post_def start_get_def start_requeue_def validation_error_def
      schedule_reply_def split: sum.split option.split)

section \<open>The steps\<close>

lemma raised_earned [simp]: "phase_earned D hist call (raised x)" "phase_earned D hist call (get_raised g x)"
  by (cases g; cases x; simp add: phase_earned_def answer_earned_def raised_def get_raised_def schedule_reply_def)+

lemma got_earned [simp]: "phase_earned D hist call (got_job g (Some out))"
  by (cases g) (simp_all add: phase_earned_def answer_earned_def schedule_reply_def)

lemma requeue_done:
  assumes inv: "db_inv {} s" and x: "1 \<le> x" and run: "requeue_dead_letter env i x s = Inr (r, t)"
  shows "case r of
      None \<Rightarrow> \<forall>j. get_job s i = Some j \<longrightarrow> j_status j \<noteq> DEAD_LETTERED
    | Some tr \<Rightarrow> \<exists>j k. get_job s i = Some j \<and> j_status j = DEAD_LETTERED \<and> get_job t i = Some k \<and> j_status k = PENDING \<and>
        j_version k = j_version j + 1"
proof (cases "\<exists>j\<in>set (jobs s). j_id j = i \<and> j_status j = DEAD_LETTERED")
  case True
  then obtain j where j: "j \<in> set (jobs s)" "j_id j = i" "j_status j = DEAD_LETTERED" by blast
  let ?k = "requeued_row env x j"
  note found = requeue_dead_letter_found [OF inv j x, of env]
  have "?k \<in> set (jobs t)" using found(1) run j by force
  moreover have "db_inv {} t" using found run by simp
  ultimately have "get_job t (j_id ?k) = Some ?k" using get_job_Some db_invD(1) by blast
  moreover have "get_job s (j_id j) = Some j" using get_job_Some [OF db_invD(1) [OF inv] j(1)] .
  ultimately show ?thesis using found(1) run j by (auto simp: requeued_row_def)
next
  case False
  with requeue_dead_letter_lost [of s i env x] run have "r = None" by auto
  with False show ?thesis by (auto simp: get_job_def dest!: first_SomeD)
qed

lemma read_job_earned:
  assumes "sought D (w_db w) call g i"
  shows "phase_earned D ((call, w_db w, t) # hist) call (read_job e i inc g w)"
proof (cases "get_job (w_db w) i")
  case None
  have "found_no_job ((call, w_db w, t) # hist) call i" unfolding found_no_job_def using None by force
  then have "phase_earned D ((call, w_db w, t) # hist) call (got_job g None)"
    using assms by (cases g) (auto simp: phase_earned_def answer_earned_def sought_def)
  with None show ?thesis by (simp add: read_job_def)
next
  case (Some j)
  then show ?thesis by (simp add: read_job_def) (simp add: phase_earned_def)
qed

lemma insert_row_earned:
  assumes run: "insert_row digest c e q w = (ph', w')" and new: "gen_job_id (rq_env e) \<notin> set (job_ids (w_db w))"
  shows "phase_earned D ((call, w_db w, w_db w') # hist) call ph'"
proof (cases "\<exists>j b. ph' = PutKey q j b")
  case True
  then obtain j b where ph': "ph' = PutKey q j b" by blast
  have known: "get_job s i = None \<longleftrightarrow> i \<notin> set (job_ids s)" for s i
  proof -
    have "get_job s i = None \<longleftrightarrow> filter (\<lambda>j. j_id j = i) (jobs s) = []"
      unfolding get_job_def by (cases "filter (\<lambda>j. j_id j = i) (jobs s)") simp_all
    then show ?thesis by (auto simp: job_ids_def filter_empty_conv)
  qed
  have "get_job (w_db w) (j_id j) = None \<and> get_job (w_db w') (j_id j) \<noteq> None" if b
    unfolding known using creation_insert [OF run new] that new by (auto simp: ph')
  then show ?thesis by (auto simp: ph' phase_earned_def created_job_def)
next
  case False
  with run have "\<exists>x. ph' = raised x" by (auto simp: insert_row_def split: request_cases)
  then show ?thesis by auto
qed

lemma requeue_row_earned:
  assumes call: "arrive D call = RequeueRow i x" and attempts: "1 \<le> cfg_max_attempts (dp_settings D)"
    and inv: "db_inv {} (w_db w)" and run: "requeue_row e i x w = (ph', w')"
  shows "phase_earned D ((call, w_db w, w_db w') # hist) call ph'"
proof -
  obtain job_id extra where c: "call = RequeueCall job_id extra" "dp_parse_uuid D job_id = Some i" and x: "1 \<le> x"
    by (rule requeue_arrives [OF call attempts])
  obtain r t where tx: "begin_tx (rq_fate e) (requeue_dead_letter (rq_env e) i x) (w_db w) = (r, t)"
    by (cases "begin_tx (rq_fate e) (requeue_dead_letter (rq_env e) i x) (w_db w)")
  show ?thesis
  proof (cases r)
    case (Inl y)
    with run tx show ?thesis by (auto simp: requeue_row_def in_tx_def phase_earned_def answer_earned_def)
  next
    case (Inr u)
    note made = requeue_done [OF inv x begin_tx_InrD [OF tx [unfolded Inr]]]
    from run tx Inr have w': "w_db w' = t" and ph': "ph' = (case u of
        None \<Rightarrow> Answered (DictReply (Rejected 404 ''job is not in the dead letter queue'')) | Some tr \<Rightarrow> DropRow i tr)"
      by (auto simp: requeue_row_def in_tx_def split: option.splits)
    show ?thesis
      using made c by (cases u) (auto simp: ph' w' phase_earned_def answer_earned_def found_not_dead_def requeued_job_def)
  qed
qed

lemma phase_earned_next:
  assumes sys: "system_ok D s" and ph: "phase_ok D s call ph" "phase_true D (system_db s) call ph"
    and fresh: "fresh_ids (rq_env e) (system_db s)" and step: "api_request_step D e ph (sy_world s) = (ph', w)"
    and earned: "phase_earned D hist call ph"
  shows "phase_earned D ((call, system_db s, w_db w) # hist) call ph'"
proof -
  note run = step [unfolded api_request_step_def]
  note old = phase_earned_grows [OF earned, of "(call, system_db s, w_db w)"]
  show ?thesis
  proof (cases ph)
    case (SeekKey q)
    with run show ?thesis by (auto simp: seek_key_def split: request_cases) (simp_all add: phase_earned_def)
  next
    case (SeekJob i inc g)
    with run show ?thesis by (auto simp: seek_job_def split: request_cases) (simp_all add: phase_earned_def)
  next
    case (ReadJob i inc g)
    with ph(2) have "sought D (w_db (sy_world s)) call g i" by (simp add: phase_true_def system_db_def)
    from read_job_earned [OF this, of "w_db w" hist e inc] ReadJob run show ?thesis by (auto simp: system_db_def)
  next
    case (ReadAttempts j g)
    with run show ?thesis by (auto simp: read_attempts_def split: if_splits) (simp add: phase_earned_def)
  next
    case (InsertJob q)
    then have insert: "insert_row (dp_digest D) (dp_settings D) e q (sy_world s) = (ph', w)" using run by simp
    have "gen_job_id (rq_env e) \<notin> set (job_ids (w_db (sy_world s)))" using fresh by (simp add: fresh_ids_def system_db_def)
    from insert_row_earned [OF insert this] show ?thesis by (simp add: system_db_def)
  next
    case (PutKey q j b)
    with run old show ?thesis by (auto simp: phase_earned_def)
  next
    case (PutJob j b)
    with run old show ?thesis by (auto simp: phase_earned_def answer_earned_def schedule_reply_def)
  next
    case (RequeueRow i x)
    with ph(1) have "arrive D call = RequeueRow i x" by (simp add: phase_ok_def)
    from requeue_row_earned [OF this system_okD(1) [OF sys] system_okD(2) [OF sys, unfolded system_db_def]] RequeueRow run
    show ?thesis by (simp add: system_db_def)
  next
    case (DropRow i t)
    with run old show ?thesis by (auto simp: phase_earned_def answer_earned_def)
  qed (use run old in auto)
qed

lemma api_run_earned:
  assumes honest: "honest_redis D" and K: "codec_keeps_head (dp_codec D)" and run: "api_run D hist a"
  shows "\<forall>(call, ph) \<in># ap_requests a. phase_earned D hist call ph"
  using run
proof (induction rule: api_run.induct)
  case (run_starts a)
  then show ?case by (simp add: api_init_def)
next
  case (run_arrives hist a call)
  then show ?case by (simp add: phase_earned_arrives)
next
  case (run_proceeds hist a call ph e ph' w)
  note r = api_run_reach [OF run_proceeds.hyps(1)]
  have ok: "phase_ok D (ap_system a) call ph" "system_ok D (ap_system a)"
    using api_reach_ok [OF r] run_proceeds.hyps(2) reach_ok by (auto simp: api_ok_def)
  have "phase_true D (system_db (ap_system a)) call ph"
    using api_reach_true [OF honest K r] run_proceeds.hyps(2) by (auto simp: api_true_def)
  then have "phase_earned D ((call, system_db (ap_system a), w_db w) # hist) call ph'"
    using phase_earned_next [OF ok(2,1) _ run_proceeds.hyps(3,5)] run_proceeds.IH run_proceeds.hyps(2) by blast
  moreover have "phase_earned D ((call, system_db (ap_system a), w_db w) # hist) c p"
    if "(c, p) \<in># ap_requests a - {#(call, ph)#}" for c p
    using in_diffD [OF that] run_proceeds.IH phase_earned_grows by blast
  ultimately show ?case by auto
next
  case (run_leaves hist a rs)
  then show ?case by (auto dest: mset_subset_eqD)
next
  case (run_others hist a s)
  then show ?case by simp
qed

text \<open>
  C8: what interleaved requests are told is true. With any number of requests stopped at any of their
  \<open>await\<close>s between each other, the workers and Redis losing entries, every answer that was given holds of
  the tables now: a \<open>200\<close> or \<open>201\<close> to a post names a job with the key and the fingerprint of that
  post, \<open>409\<close> means that its key belongs to another request and \<open>422\<close> that it was not acceptable; a read
  describes the job that was asked for, in its present or an older version, and says \<open>sent\<close> only if the provider
  has delivered it once; and a \<open>500\<close> is only ever a failure of the database. And it is earned by a step of
  its own request: \<open>404\<close> to a read means that the tables had no such job at that step, \<open>201\<close> that the step added
  the job, \<open>202\<close> that it took the job from the dead letter queue to \<open>pending\<close>, and \<open>404\<close> to a requeue that the job
  was not in the dead letter queue then.
\<close>

theorem interleaved_answers:
  assumes "honest_redis D" "codec_keeps_head (dp_codec D)" "api_run D hist a" "(call, Answered r) \<in># ap_requests a"
  defines "s \<equiv> system_db (ap_system a)"
  shows "answer_true D s call r \<and> answer_earned D hist call r \<and>
    (\<forall>code out. r = JobReply (Answer code out) \<longrightarrow>
       (\<exists>j. get_job s (jo_id out) = Some j \<and> jo_version out \<le> j_version j \<and>
          (jo_version out = j_version j \<longrightarrow> jo_status out = j_status j) \<and>
          (jo_status out = SENT \<longrightarrow> j_status j = SENT \<and>
             length (filter (\<lambda>p. p_idempotency_key p = jo_id out) (mock_provider_log s)) = 1)))"
proof (intro conjI allI impI)
  have r: "reach (queue_init D) (queue_step D) (ap_system a)" using api_reach_ok [OF api_run_reach [OF assms(3)]] by (simp add: api_ok_def)
  have inv: "db_inv {} s" unfolding s_def by (rule system_okD(2) [OF reach_ok [OF r]])
  show true: "answer_true D s call r"
    using api_trueD [OF _ assms(4)] api_reach_true [OF assms(1,2) api_run_reach [OF assms(3)]] by (simp add: s_def)
  show "answer_earned D hist call r"
    using api_run_earned [OF assms(1-3)] assms(4) by (auto simp: phase_earned_def)
  fix code out assume "r = JobReply (Answer code out)"
  with true have "true_view s (jo_id out) out" by (cases call) (auto simp: post_true_def get_true_def)
  from true_view_row [OF inv this] sent_in_log [OF r, of "jo_id out"] provider_count [OF r, of "jo_id out"]
  show "\<exists>j. get_job s (jo_id out) = Some j \<and> jo_version out \<le> j_version j \<and>
      (jo_version out = j_version j \<longrightarrow> jo_status out = j_status j) \<and>
      (jo_status out = SENT \<longrightarrow> j_status j = SENT \<and>
         length (filter (\<lambda>p. p_idempotency_key p = jo_id out) (mock_provider_log s)) = 1)"
    unfolding s_def by auto
qed

end
