(* ===== verification/Api_Run.thy ===== *)
theory Api_Run
  imports Api_History Cache_Run
begin

text \<open>
  A race: the same post arrives twice while Redis is down, both requests pass the fast path before
  either inserts, and the inserts come in turn. The properties of \<open>Api_System\<close>, \<open>Api_Answers\<close> and \<open>Api_History\<close> are
  applied to its states.
\<close>

section \<open>The two requests\<close>

definition race_call :: api_call where
  "race_call = PostCall 100 None run_body"

definition race_request :: schedule_request where
  "race_request =
     \<lparr> q_recipient = ''ada@example.com'', q_channel = EMAIL, q_payload = [], q_priority = HIGH, q_send_at = None,
       q_delay_seconds = None, q_max_attempts = Some 1, q_callback_url = None, q_idempotency_key = Some ''k1'' \<rparr>"

text \<open>Redis is down; the transactions commit.\<close>

definition race_env :: "txenv \<Rightarrow> request_env" where
  "race_env env = \<lparr>rq_redis = redis_down, rq_fate = Commits, rq_env = env, rq_read_ok = True\<rparr>"

definition race :: "db \<Rightarrow> job list \<Rightarrow> request_phase \<Rightarrow> request_phase \<Rightarrow> redis_store api" where
  "race s js ph1 ph2 =
     \<lparr>ap_system = (run_state s [])\<lparr>sy_readers := js\<rparr>, ap_requests = {#(race_call, ph1), (race_call, ph2)#}\<rparr>"

abbreviation race_reached :: "db \<Rightarrow> job list \<Rightarrow> request_phase \<Rightarrow> request_phase \<Rightarrow> bool" where
  "race_reached s js ph1 ph2 \<equiv> reach (api_init cached_deployment) (api_step cached_deployment) (race s js ph1 ph2)"

lemma race_env_simps [simp]:
  "re_fate (rq_redis (race_env env)) = RedisLost" "re_now (rq_redis (race_env env)) = 10"
  "rq_env (race_env env) = env" "rq_fate (race_env env) = Commits"
  by (simp_all add: race_env_def redis_down_def)

lemma race_accepted: "call_request cached_deployment race_call = Some race_request"
  by (simp add: race_call_def accepted_def run_parse opt_all_def merge_key_def race_request_def too_late_def)

lemma race_request_simps [simp]:
  "q_idempotency_key race_request = Some ''k1''" "request_hash (\<lambda>_. ''h1'') q = ''h1''"
  "schedule_new_job demo_config ''h1'' race_request = demo_new"
  by (simp_all add: race_request_def request_hash_def schedule_new_job_def demo_new_def)

lemma race_arrives: "arrive cached_deployment race_call = SeekKey race_request"
  by (simp add: race_call_def start_post_def run_parse opt_all_def merge_key_def race_request_def too_late_def)

section \<open>The race\<close>

lemma race_flip: "race s js ph1 ph2 = race s js ph2 ph1"
  by (simp add: race_def add_mset_commute)

lemma race_step:
  assumes race: "race_reached s js ph1 ph2" and env: "fresh_ids env s" "ids_parse Some t"
    and step: "api_request_step cached_deployment (race_env env) ph1 \<lparr>w_db = s, w_redis = (\<lambda>_. None)\<rparr> =
      (ph1', \<lparr>w_db = t, w_redis = (\<lambda>_. None)\<rparr>)"
  shows "race_reached t (newly_held ph1 ph1' @ js) ph1' ph2"
proof -
  let ?a = "race s js ph1 ph2"
  have "api_step cached_deployment ?a
      (?a\<lparr>ap_system := (ap_system ?a)\<lparr>sy_world := \<lparr>w_db = t, w_redis = (\<lambda>_. None)\<rparr>, sy_now := re_now (rq_redis (race_env env)),
            sy_readers := newly_held ph1 ph1' @ sy_readers (ap_system ?a)\<rparr>,
          ap_requests := add_mset (race_call, ph1') (ap_requests ?a - {#(race_call, ph1)#})\<rparr>)"
    using env step by (intro api_step.proceeds) (simp_all add: race_def system_db_def)
  from reach_step [OF race this] show ?thesis by (simp add: race_def run_state_def)
qed

lemma race_created: "create_job demo_env demo_new empty_db = Inr ((demo_job, True), demo_db)"
  by (simp add: create_job_def insert_job_def demo_job_def demo_db_def) (simp add: demo_new_def empty_db_def job_ids_def)

lemma race_later: "fresh_ids (later 200) demo_db"
  by (rule demo_fresh_later(1))

lemma race_replayed: "create_job (later 200) demo_new demo_db = Inr ((demo_job, False), demo_db)"
  by (simp add: create_job_def insert_job_def get_job_by_idempotency_key_def demo_defs)

lemmas race_moves = api_request_step_def seek_key_def lost_reads lost_writes insert_row_def in_tx_def begin_tx_def
  put_key_def put_row_def newly_held_def

lemma race_fresh: "fresh_ids demo_env empty_db" "ids_parse Some empty_db"
  by (simp_all add: fresh_ids_def demo_env_gen_event empty_db_def job_ids_def ids_parse_def)

lemma race_hash [simp]: "j_request_hash demo_job = ''h1''"
  by (simp add: demo_defs)

lemma race_passed: "race_reached empty_db [] (InsertJob race_request) (InsertJob race_request)"
proof -
  have arrives: "race_reached empty_db [] (SeekKey race_request) (SeekKey race_request)"
  proof -
    let ?a = "\<lparr>ap_system = run_state empty_db [], ap_requests = {#}\<rparr> :: redis_store api"
    have "reach (api_init cached_deployment) (api_step cached_deployment) ?a"
      by (rule reach_init) (simp add: api_init_def queue_init_def mem_eval mem_get_def mem_find_def)
    from reach_step [OF reach_step [OF this arrives [where call = race_call]] arrives [where call = race_call]]
    show ?thesis by (simp add: race_def run_state_def race_arrives)
  qed
  have "race_reached empty_db [] (InsertJob race_request) (SeekKey race_request)"
    using race_step [OF arrives race_fresh, of "InsertJob race_request"] by (simp add: race_moves)
  from race_step [OF this [unfolded race_flip [of _ _ "InsertJob race_request"]] race_fresh, where ph1' = "InsertJob race_request"]
  show ?thesis by (simp add: race_moves)
qed

lemma race_inserted: "race_reached demo_db [demo_job, demo_job] (PutKey race_request demo_job False) (PutKey race_request demo_job True)"
proof -
  have "race_reached demo_db [demo_job] (PutKey race_request demo_job True) (InsertJob race_request)"
    using race_step [OF race_passed race_fresh(1) demo_ids_parse, where ph1' = "PutKey race_request demo_job True"]
    by (simp add: race_moves race_created)
  from race_step [OF this [unfolded race_flip [of _ _ "PutKey race_request demo_job True"]] race_later demo_ids_parse,
      where ph1' = "PutKey race_request demo_job False"]
  show ?thesis by (simp add: race_moves race_replayed)
qed

definition race_answer :: "int \<Rightarrow> request_phase" where
  "race_answer code = Answered (JobReply (Answer code (job_out_of demo_job)))"

text \<open>After the insert nothing can fail: the two cache writes, and the answer.\<close>

lemma race_ends:
  assumes "race_reached demo_db js (PutKey race_request demo_job b) ph"
  shows "race_reached demo_db js (race_answer (if b then 201 else 200)) ph"
proof -
  have "race_reached demo_db js (PutJob demo_job b) ph"
    using race_step [OF assms race_later demo_ids_parse, where ph1' = "PutJob demo_job b"] by (simp add: race_moves)
  from race_step [OF this race_later demo_ids_parse, where ph1' = "race_answer (if b then 201 else 200)"]
  show ?thesis by (simp add: race_moves race_answer_def schedule_reply_def)
qed

lemma race_over: "race_reached demo_db [demo_job, demo_job] (race_answer 201) (race_answer 200)"
proof -
  from race_ends [OF race_inserted]
  have "race_reached demo_db [demo_job, demo_job] (PutKey race_request demo_job True) (race_answer 200)"
    by (subst race_flip) simp
  from race_ends [OF this] show ?thesis by simp
qed

section \<open>The properties there\<close>

lemma race_codec: "codec_keeps_head (dp_codec cached_deployment)"
  using head_codec_ok by simp

theorem requests_refine_system_witness:
  "\<exists>b. api_step cached_deployment (race demo_db [demo_job, demo_job] (race_answer 201) (race_answer 200)) b \<and>
     (queue_step cached_deployment)\<^sup>*\<^sup>* ((run_state demo_db [])\<lparr>sy_readers := [demo_job, demo_job]\<rparr>) (ap_system b)"
proof -
  let ?a = "race demo_db [demo_job, demo_job] (race_answer 201) (race_answer 200)"
  let ?b = "?a\<lparr>ap_requests := add_mset (race_call, arrive cached_deployment race_call) (ap_requests ?a)\<rparr>"
  have step: "api_step cached_deployment ?a ?b" by (rule arrives)
  from requests_refine_system [OF race_over step] step show ?thesis
    by (intro exI [of _ ?b]) (simp add: race_def)
qed

theorem interleaved_answers_witness:
  "\<exists>hist. api_run cached_deployment hist (race demo_db [demo_job, demo_job] (race_answer 201) (race_answer 200)) \<and>
     get_job demo_db ''j1'' = Some demo_job \<and> created_job hist race_call ''j1'' \<and>
     answer_true cached_deployment demo_db race_call (JobReply (Answer 201 (job_out_of demo_job)))"
proof -
  obtain hist where run: "api_run cached_deployment hist (race demo_db [demo_job, demo_job] (race_answer 201) (race_answer 200))"
    using reach_api_run [OF race_over] by blast
  have told: "(race_call, Answered (JobReply (Answer 201 (job_out_of demo_job)))) \<in>#
      ap_requests (race demo_db [demo_job, demo_job] (race_answer 201) (race_answer 200))"
    by (simp add: race_def race_answer_def)
  from interleaved_answers [OF cached_honest race_codec run told]
  have "answer_true cached_deployment demo_db race_call (JobReply (Answer 201 (job_out_of demo_job)))"
    "created_job hist race_call (jo_id (job_out_of demo_job))"
    by (simp_all add: race_def system_db_def answer_earned_def)
  moreover have "jo_id (job_out_of demo_job) = ''j1''" by (simp add: job_out_of_def)
  moreover have "get_job demo_db ''j1'' = Some demo_job" by (simp add: get_job_def)
  ultimately show ?thesis using run by auto
qed

theorem racing_posts_create_once_witness:
  "race_reached demo_db [demo_job, demo_job] (race_answer 201) (race_answer 200) \<and>
   jo_id (job_out_of demo_job) = jo_id (job_out_of demo_job) \<and>
   request_hash (dp_digest cached_deployment) race_request = request_hash (dp_digest cached_deployment) race_request \<and>
   \<not> ((201::int) = 201 \<and> (200::int) = 201)"
proof -
  have posts: "{#(race_call, Answered (JobReply (Answer 201 (job_out_of demo_job)))),
      (race_call, Answered (JobReply (Answer 200 (job_out_of demo_job))))#}
      \<subseteq># ap_requests (race demo_db [demo_job, demo_job] (race_answer 201) (race_answer 200))"
    by (simp add: race_def race_answer_def)
  from race_over racing_posts_create_once [OF cached_honest race_codec race_over posts race_accepted race_accepted
      race_request_simps(1) race_request_simps(1)]
  show ?thesis by (rule conjI)
qed

theorem requests_always_end_witness:
  "\<exists>r. request_after mem_redis head_codec (\<lambda>_. ''h1'') Some demo_config
     (replicate 6 (race_env demo_env, \<lparr>w_db = empty_db, w_redis = (\<lambda>_. None)\<rparr>)) (SeekKey race_request) = Answered r"
  by (rule requests_always_end) (simp add: request_fuel_def)

end
