(* ===== verification/Metrics_Requests.thy ===== *)
theory Metrics_Requests
  imports Api_System
begin

text \<open>
  \<open>GET /v1/metrics\<close> taken apart at its \<open>await\<close>s: \<open>MetricsCache.get_or_compute\<close> asks the cache, takes the
  rebuild lock or waits a moment and asks again, counts, stores and drops the lock. Any number of such
  requests run beside the rest of the deployment; run without interruption they are the route.
\<close>

section \<open>Phases\<close>

text \<open>\<open>got_lock\<close> is \<open>Some t\<close> if the lock was taken, at the time \<open>t\<close> of the Redis server.\<close>

datatype metrics_phase =
    AskCache
  | TakeLock
  | AskAgain                                 \<comment> \<open>asleep for \<open>LOCK_WAIT_SECONDS\<close>\<close>
  | CountJobs "int option"
  | StoreCounts "int option" dict
  | DropLock int dict
  | Counted "(dict \<times> bool) result"

record metrics_env =
  me_redis :: redis_env
  me_count :: service_env                    \<comment> \<open>for the scan: its clock and whether the database answers\<close>

definition heard :: "dict option result \<Rightarrow> metrics_phase \<Rightarrow> metrics_phase" where
  "heard r missed = (case r of Inl x \<Rightarrow> Counted (Inl x) | Inr None \<Rightarrow> missed | Inr (Some m) \<Rightarrow> Counted (Inr (m, True)))"

definition after_lock :: "settings \<Rightarrow> redis_env \<Rightarrow> bool option \<Rightarrow> metrics_phase" where
  "after_lock c e reply =
     (if reply = Some True then CountJobs (Some (re_now e))
      else if cache_enabled c then AskAgain else CountJobs None)"

fun metrics_move ::
  "'r redis_cmds \<Rightarrow> dict_codec \<Rightarrow> settings \<Rightarrow> metrics_env \<Rightarrow> metrics_phase \<Rightarrow> 'r world \<Rightarrow> metrics_phase \<times> 'r world"
where
  "metrics_move R M c e AskCache w =
     (case on_redis (metrics_get R M c (me_redis e)) w of (r, w1) \<Rightarrow> (heard r TakeLock, w1))"
| "metrics_move R M c e TakeLock w =
     (case on_redis (take_metrics_lock R c (me_redis e)) w of (reply, w1) \<Rightarrow> (after_lock c (me_redis e) reply, w1))"
| "metrics_move R M c e AskAgain w =
     (case on_redis (metrics_get R M c (me_redis e)) w of (r, w1) \<Rightarrow> (heard r (CountJobs None), w1))"
| "metrics_move R M c e (CountJobs got_lock) w =
     (case compute_metrics (me_count e) w of Inl x \<Rightarrow> (Counted (Inl x), w) | Inr m \<Rightarrow> (StoreCounts got_lock m, w))"
| "metrics_move R M c e (StoreCounts got_lock m) w =
     (case got_lock of None \<Rightarrow> Counted (Inr (m, False)) | Some t \<Rightarrow> DropLock t m,
      w\<lparr>w_redis := put_metrics R c (me_redis e) (dc_dump M m) (w_redis w)\<rparr>)"
| "metrics_move R M c e (DropLock t m) w =
     (Counted (Inr (m, False)), w\<lparr>w_redis := drop_metrics_lock R c (me_redis e) (w_redis w)\<rparr>)"
| "metrics_move R M c e (Counted r) w = (Counted r, w)"

section \<open>Without interruption\<close>

fun metrics_left :: "metrics_phase \<Rightarrow> nat" where
  "metrics_left AskCache = 6"
| "metrics_left TakeLock = 5"
| "metrics_left AskAgain = 4"
| "metrics_left (CountJobs got_lock) = 3"
| "metrics_left (StoreCounts got_lock m) = 2"
| "metrics_left (DropLock t m) = 1"
| "metrics_left (Counted r) = 0"

lemma metrics_left_0 [simp]: "metrics_left ph = 0 \<longleftrightarrow> (\<exists>r. ph = Counted r)"
  by (cases ph) auto

interpretation metrics: await_machine "metrics_move R M c" metrics_left for R M c
proof
  fix ph :: metrics_phase and e w
  show "metrics_left ph \<noteq> 0 \<Longrightarrow> metrics_left (fst (metrics_move R M c e ph w)) < metrics_left ph"
    by (cases ph) (auto simp: heard_def after_lock_def split: prod.split sum.split option.split)
  show "metrics_left ph = 0 \<Longrightarrow> metrics_move R M c e ph w = (ph, w)" by auto
qed

text \<open>The environment of a service call, seen from a phase; the numbers are those of \<open>get_or_compute\<close>.\<close>

fun metrics_place :: "metrics_phase \<Rightarrow> nat" where
  "metrics_place AskCache = 0"
| "metrics_place TakeLock = 1"
| "metrics_place AskAgain = 2"
| "metrics_place (StoreCounts got_lock m) = 3"
| "metrics_place (DropLock t m) = 4"
| "metrics_place _ = 0"

definition metrics_env_at :: "service_env \<Rightarrow> metrics_phase \<Rightarrow> metrics_env" where
  "metrics_env_at e ph = \<lparr>me_redis = sv_redis e (metrics_place ph), me_count = e\<rparr>"

definition metrics_fuel :: nat where
  "metrics_fuel = 6"

definition run_metrics ::
  "'r redis_cmds \<Rightarrow> dict_codec \<Rightarrow> settings \<Rightarrow> service_env \<Rightarrow> nat \<Rightarrow> metrics_phase \<Rightarrow> 'r world \<Rightarrow> metrics_phase \<times> 'r world"
where
  "run_metrics R M c e n ph w = run_steps (\<lambda>ph. metrics_move R M c (metrics_env_at e ph) ph) n ph w"

lemma metrics_left_fuel: "metrics_left ph \<le> metrics_fuel"
  by (cases ph) (simp_all add: metrics_fuel_def)

lemma run_metrics_step:
  "run_metrics R M c e metrics_fuel ph w =
     (case metrics_move R M c (metrics_env_at e ph) ph w of (ph', w') \<Rightarrow> run_metrics R M c e metrics_fuel ph' w')"
  unfolding run_metrics_def by (rule metrics.run_unfold [OF metrics_left_fuel])

lemma run_metrics_Counted [simp]: "run_metrics R M c e metrics_fuel (Counted r) w = (Counted r, w)"
  by (simp add: run_metrics_def metrics_fuel_def eval_nat_numeral)

lemma run_count:
  "run_metrics R M c e metrics_fuel (CountJobs got_lock) w =
     (case on_redis (rebuild_metrics R M c e (got_lock \<noteq> None) (compute_metrics e w)) w of (r, w1) \<Rightarrow> (Counted r, w1))"
proof -
  have drop: "run_metrics R M c e metrics_fuel (DropLock t m) w1 =
      (Counted (Inr (m, False)), w1\<lparr>w_redis := drop_metrics_lock R c (sv_redis e 4) (w_redis w1)\<rparr>)" for t m w1
    by (subst run_metrics_step) (simp add: metrics_env_at_def)
  have store: "run_metrics R M c e metrics_fuel (StoreCounts g m) w1 =
      (case on_redis (rebuild_metrics R M c e (g \<noteq> None) (Inr m)) w1 of (r, w2) \<Rightarrow> (Counted r, w2))" for g m w1
    by (subst run_metrics_step) (cases g; simp add: metrics_env_at_def drop on_redis_def rebuild_metrics_def put_metrics_def
        drop_metrics_lock_def Let_def)
  show ?thesis
  proof (cases "compute_metrics e w")
    case (Inl x)
    then show ?thesis by (subst run_metrics_step) (simp add: metrics_env_at_def on_redis_def rebuild_metrics_def)
  next
    case (Inr m)
    then show ?thesis by (subst run_metrics_step) (simp add: metrics_env_at_def store)
  qed
qed

lemma on_metrics_get: "on_redis (metrics_get R M c e) w = (fst (metrics_get R M c e (w_redis w)), w)"
  using metrics_get_keeps [of R M c e "w_redis w"] by (simp add: on_redis_def split_beta)

text \<open>The answer of the route.\<close>

definition metrics_answer :: "(dict \<times> bool) result \<Rightarrow> dict reply" where
  "metrics_answer r =
     (case r of Inl x \<Rightarrow> ServerError x | Inr (m, hit) \<Rightarrow> Answer 200 (dict_merge m [(''cached'', JBool hit)]))"

lemma run_ask:
  "run_metrics R M c e metrics_fuel AskCache w =
     (case on_redis (get_or_compute R M c e (compute_metrics e w)) w of (r, w1) \<Rightarrow> (Counted r, w1))"
proof -
  have count: "compute_metrics e (w\<lparr>w_redis := x\<rparr>) = compute_metrics e w" for x by (simp add: compute_metrics_def)
  have again: "run_metrics R M c e metrics_fuel AskAgain (w\<lparr>w_redis := x\<rparr>) =
      (case fst (metrics_get R M c (sv_redis e 2) x) of
         Inl y \<Rightarrow> (Counted (Inl y), w\<lparr>w_redis := x\<rparr>)
       | Inr (Some m) \<Rightarrow> (Counted (Inr (m, True)), w\<lparr>w_redis := x\<rparr>)
       | Inr None \<Rightarrow> (case on_redis (rebuild_metrics R M c e False (compute_metrics e w)) (w\<lparr>w_redis := x\<rparr>) of
                        (r, w1) \<Rightarrow> (Counted r, w1)))" for x
    by (subst run_metrics_step)
      (auto simp: metrics_env_at_def on_metrics_get heard_def run_count count split: sum.split option.split)
  obtain reply x where lock: "take_metrics_lock R c (sv_redis e 1) (w_redis w) = (reply, x)"
    by (cases "take_metrics_lock R c (sv_redis e 1) (w_redis w)")
  have locked: "run_metrics R M c e metrics_fuel TakeLock w =
      run_metrics R M c e metrics_fuel (after_lock c (sv_redis e 1) reply) (w\<lparr>w_redis := x\<rparr>)"
    by (subst run_metrics_step) (simp add: metrics_env_at_def on_redis_def lock del: One_nat_def)
  have keep: "metrics_get R M c e' x = (fst (metrics_get R M c e' x), x)" for e' x
    using metrics_get_keeps [of R M c e' x] by (metis prod.collapse)
  have first: "run_metrics R M c e metrics_fuel AskCache w =
      run_metrics R M c e metrics_fuel (heard (fst (metrics_get R M c (sv_redis e 0) (w_redis w))) TakeLock) w"
    by (subst run_metrics_step) (simp add: metrics_env_at_def on_metrics_get)
  obtain r0 where r0: "metrics_get R M c (sv_redis e 0) (w_redis w) = (r0, w_redis w)"
    using metrics_get_keeps by (metis prod.collapse)
  obtain r2 where r2: "metrics_get R M c (sv_redis e 2) x = (r2, x)" using keep by blast
  show ?thesis
    unfolding first on_redis_def get_or_compute_def r0 prod.case lock [unfolded take_metrics_lock_def] Let_def r2 fst_conv
    by (auto simp: heard_def locked after_lock_def again run_count count on_redis_def r2 split: sum.split option.split prod.split)
qed

text \<open>
  A metrics request that is not interrupted is its route: after at most six steps, with the answer
  and the world of \<open>GET /v1/metrics\<close>, whether the cache hits, the lock is taken or missed, the scan fails
  or Redis is away.
\<close>

theorem metrics_request_runs_the_route:
  "\<exists>r w'. run_metrics R M c e metrics_fuel AskCache w = (Counted r, w') \<and> metrics_route R M c e w = (metrics_answer r, w')"
proof -
  obtain r w' where g: "on_redis (get_or_compute R M c e (compute_metrics e w)) w = (r, w')"
    by (cases "on_redis (get_or_compute R M c e (compute_metrics e w)) w")
  then have "metrics_route R M c e w = (metrics_answer r, w')"
    by (auto simp: metrics_route_def metrics_snapshot_def metrics_answer_def split: sum.split)
  with g show ?thesis by (simp add: run_ask)
qed

end
