(* ===== verification/Other_Keys.thy ===== *)
theory Other_Keys
  imports Api_System
begin

text \<open>
  Keys of Redis that the job cache and the rate limiter do not use. No step but those of the metrics and
  of Redis itself changes what is read from such a key: the frame that the properties of the metrics
  cache and of its lock rest on.
\<close>

definition foreign_key :: "settings \<Rightarrow> string \<Rightarrow> bool" where
  "foreign_key c k \<longleftrightarrow> (\<forall>i. k \<noteq> job_key c i) \<and> (\<forall>i. k \<noteq> idem_key c i) \<and> (\<forall>r. k \<noteq> rl_key c r)"

lemma metrics_keys_foreign: "foreign_key c (metrics_key c)" "foreign_key c (metrics_lock_key c)"
  by (simp_all add: foreign_key_def metrics_key_def metrics_lock_key_def job_key_def idem_key_def rl_key_def cache_key_def)

definition same_reads :: "'r redis_cmds \<Rightarrow> string \<Rightarrow> int \<Rightarrow> 'r \<Rightarrow> 'r \<Rightarrow> bool" where
  "same_reads R k n s s' \<longleftrightarrow> (\<forall>m\<ge>n. rd_get R m k s' = rd_get R m k s)"

lemma same_reads_refl [simp]: "same_reads R k n s s" by (simp add: same_reads_def)

lemma same_reads_trans: "same_reads R k n s s' \<Longrightarrow> same_reads R k n s' s'' \<Longrightarrow> same_reads R k n s s''"
  by (simp add: same_reads_def)

lemma same_reads_later: "same_reads R k n s s' \<Longrightarrow> n \<le> n' \<Longrightarrow> same_reads R k n' s s'"
  unfolding same_reads_def by (meson order_trans)

section \<open>Single commands and scripts\<close>

context redis_laws
begin

lemma other_set: "k \<noteq> k' \<Longrightarrow> same_reads R k t s (snd (redis_set R t k' v ex s))"
  by (simp add: same_reads_def redis_set_def get_set)

lemma other_write: "foreign_key c k \<Longrightarrow> same_reads R k (re_now e) s (snd (cache_write R c e i v body ttl s))"
proof -
  assume k: "foreign_key c k"
  have "same_reads R k (re_now e) s (snd (set_if_newer R (re_now e) (job_key c i) v body ttl s))"
    using other_set [of k "job_key c i" "re_now e" s "show_int v @ ''|'' @ body" ttl] k
    by (auto simp: set_if_newer_def foreign_key_def split: prod.split redis_reply.split)
  then show ?thesis
    by (simp add: cache_write_def Let_def split_beta cache_call_keeps [where P = "same_reads R k (re_now e) s"])
qed

lemma other_cache:
  assumes k: "foreign_key c k"
  shows "same_reads R k (re_now e) s (snd (cache_put_job R K c e j s))"
    "same_reads R k (re_now e) s (cache_invalidate_job R c e i v s)"
    "same_reads R k (re_now e) s (cache_put_idempotency R c e key i h s)"
proof -
  show "same_reads R k (re_now e) s (snd (cache_put_job R K c e j s))"
    unfolding cache_put_job_def by (rule other_write [OF k])
  show "same_reads R k (re_now e) s (cache_invalidate_job R c e i v s)"
    unfolding cache_invalidate_job_def by (rule other_write [OF k])
  show "same_reads R k (re_now e) s (cache_put_idempotency R c e key i h s)"
    unfolding cache_put_idempotency_def
    by (rule cache_call_keeps [where P = "same_reads R k (re_now e) s"])
      (use k in \<open>simp_all add: other_set foreign_key_def\<close>)
qed

lemma other_acquire_script:
  "k \<noteq> key \<Longrightarrow> same_reads R k t s (snd (acquire_script R t key window limit job s))"
  by (auto simp: acquire_script_def same_reads_def Let_def get_zremrangebyscore get_zadd get_pexpire
      split: option.splits prod.splits)

lemma other_limiter:
  assumes k: "foreign_key c k"
  shows "same_reads R k (re_now (le_redis e)) (w_redis w) (w_redis (snd (rl_acquire (build_rate_limiter R c) e j w)))"
    "same_reads R k (re_now (le_redis e)) (w_redis w) (w_redis (rl_release (build_rate_limiter R c) e j w))"
proof -
  let ?same = "same_reads R k (re_now (le_redis e)) (w_redis w)"
  have key: "k \<noteq> rl_key c (j_recipient j)" using k by (simp add: foreign_key_def)
  let ?fn = "\<lambda>s. some_reply (acquire_script R (re_now (le_redis e)) (rl_key c (j_recipient j)) (window_ms c)
                    (rate_limit_per_hour c) (j_id j) s)"
  have "snd (?fn (w_redis w)) = snd (acquire_script R (re_now (le_redis e)) (rl_key c (j_recipient j)) (window_ms c)
                    (rate_limit_per_hour c) (j_id j) (w_redis w))"
    by (simp add: some_reply_def split: prod.splits redis_reply.splits)
  then have "?same (snd (cache_call True (re_fate (le_redis e)) ?fn None (w_redis w)))"
    by (intro cache_call_keeps [where P = ?same]) (simp_all only: same_reads_refl other_acquire_script [OF key])
  then have "?same (w_redis (snd (redis_acquire R c e j w)))"
    by (auto simp: redis_acquire_def postgres_acquire_def split: prod.splits option.splits)
  then show "?same (w_redis (snd (rl_acquire (build_rate_limiter R c) e j w)))"
    by (simp add: build_rate_limiter_def redis_limiter_def postgres_limiter_def postgres_acquire_def)
  have "?same (snd (cache_call True (re_fate (le_redis e))
      (\<lambda>s. (Reply (), rd_zrem R (re_now (le_redis e)) (rl_key c (j_recipient j)) (j_id j) s)) () (w_redis w)))"
    by (rule cache_call_keeps [where P = ?same]) (simp_all add: same_reads_def get_zrem)
  then have "?same (w_redis (redis_release R c e j w))" by (simp add: redis_release_def)
  then show "?same (w_redis (rl_release (build_rate_limiter R c) e j w))"
    by (simp add: build_rate_limiter_def redis_limiter_def postgres_limiter_def postgres_release_def)
qed

end

section \<open>Requests\<close>

context redis_laws
begin

lemma other_put:
  "foreign_key c k \<Longrightarrow> re_now e \<le> n \<Longrightarrow>
     same_reads R k n (w_redis w) (w_redis (snd (on_redis (cache_put_job R K c e j) w)))"
  by (simp add: same_reads_later [OF other_cache(1)])

lemma on_cache_reads:
  "snd (on_redis (cache_get_job R K c e i) w) = w" "snd (on_redis (cache_get_idempotency R pu c e key) w) = w"
  by (simp_all add: on_redis_def split_beta)

lemma other_service_get:
  assumes k: "foreign_key c k" and n: "\<And>m. re_now (sv_redis e m) \<le> n"
  shows "same_reads R k n (w_redis w) (w_redis (snd (service_get R K c e b i inc w)))"
proof -
  have "snd (if inc then (Inr None, w) else on_redis (cache_get_job R K c (sv_redis e b) i) w) = w"
    by (simp add: on_cache_reads)
  then obtain r where g: "(if inc then (Inr None, w) else on_redis (cache_get_job R K c (sv_redis e b) i) w) = (r, w)"
    by (metis prod.collapse)
  show ?thesis
    unfolding service_get_def g using other_put [OF k n, where K = K] by (auto split: sum.splits option.splits)
qed

lemma other_schedule_insert:
  assumes k: "foreign_key c k" and n: "\<And>m. re_now (sv_redis e m) \<le> n"
  shows "same_reads R k n (w_redis w) (w_redis (snd (schedule_insert R K c e h q w)))"
proof -
  let ?create = "create_job (sv_env e) (schedule_new_job c h q)"
  obtain r w1 where tx: "in_tx (sv_fate e) ?create w = (r, w1)" by (cases "in_tx (sv_fate e) ?create w")
  note key = same_reads_later [OF other_cache(3) [OF k] n] and put = same_reads_later [OF other_cache(1) [OF k] n]
  show ?thesis
    using same_reads_trans [OF key put] put in_tx_redis [OF tx]
    by (auto simp: schedule_insert_def tx Let_def split: sum.split option.split)
qed

lemma other_schedule:
  assumes k: "foreign_key c k" and n: "\<And>m. re_now (sv_redis e m) \<le> n"
  shows "same_reads R k n (w_redis w) (w_redis (snd (schedule R K digest pu c e q w)))"
proof -
  have cached: "same_reads R k n (w_redis w) (w_redis (snd (schedule_cached R K pu c e h key w)))" for h key
  proof (cases key)
    case (Some x)
    obtain r where "on_redis (cache_get_idempotency R pu c (sv_redis e 0) x) w = (r, w)"
      using on_cache_reads(2) by (metis prod.collapse)
    with Some other_service_get [OF k n] show ?thesis
      by (auto simp: schedule_cached_def split: sum.split option.split)
  qed (simp add: schedule_cached_def)
  obtain r w1 where r: "schedule_cached R K pu c e (request_hash digest q) (q_idempotency_key q) w = (r, w1)"
    by (cases "schedule_cached R K pu c e (request_hash digest q) (q_idempotency_key q) w")
  show ?thesis
    using cached [of "request_hash digest q" "q_idempotency_key q"] same_reads_trans [OF _ other_schedule_insert [OF k n]]
    by (auto simp: schedule_def Let_def r split: sum.split option.split)
qed

lemma other_routes:
  assumes k: "foreign_key c k" and clock: "redis_clock n (sv_redis e) n'"
  shows "schedule_job R K digest pu url c e header body w = (r1, w') \<Longrightarrow> same_reads R k n' (w_redis w) (w_redis w')"
    "get_job_route R K pu c e job_id inc w = (r2, w') \<Longrightarrow> same_reads R k n' (w_redis w) (w_redis w')"
    "requeue_route R pu c e job_id extra w = (r3, w') \<Longrightarrow> same_reads R k n' (w_redis w) (w_redis w')"
proof -
  note t = redis_clockD(2) [OF clock]
  have "same_reads R k n' (w_redis w) (w_redis (snd (schedule_job R K digest pu url c e header body w)))"
    using other_schedule [OF k t] by (auto simp: schedule_job_def Let_def split_beta split: sum.split option.split)
  then show "schedule_job R K digest pu url c e header body w = (r1, w') \<Longrightarrow> same_reads R k n' (w_redis w) (w_redis w')" by simp
  have "same_reads R k n' (w_redis w) (w_redis (snd (get_job_route R K pu c e job_id inc w)))"
    using other_service_get [OF k t, of w K 0 _ inc]
    by (auto simp: get_job_route_def split: option.split prod.split sum.split) (metis snd_conv)+
  then show "get_job_route R K pu c e job_id inc w = (r2, w') \<Longrightarrow> same_reads R k n' (w_redis w) (w_redis w')" by simp
  have "same_reads R k n' (w_redis w) (w_redis (snd (requeue_route R pu c e job_id extra w)))"
    using requeue_route_redis [of R pu c e job_id extra w] same_reads_later [OF other_cache(2) [OF k] t [of 0]] by auto
  then show "requeue_route R pu c e job_id extra w = (r3, w') \<Longrightarrow> same_reads R k n' (w_redis w) (w_redis w')" by simp
qed

end

section \<open>Steps\<close>

text \<open>The steps of the metrics, and the changes that Redis makes by itself.\<close>

definition metrics_or_fault :: "'r deployment \<Rightarrow> 'r system \<Rightarrow> 'r system \<Rightarrow> bool" where
  "metrics_or_fault D s t \<longleftrightarrow>
     (\<exists>e. sy_world t = snd (metrics_route (dp_redis D) (dp_metrics_codec D) (dp_settings D) e (sy_world s))) \<or>
     (\<exists>re u. w_redis (sy_world t) \<in>
        {snd (take_metrics_lock (dp_redis D) (dp_settings D) re (w_redis (sy_world s))),
         put_metrics (dp_redis D) (dp_settings D) re u (w_redis (sy_world s)),
         drop_metrics_lock (dp_redis D) (dp_settings D) re (w_redis (sy_world s))}) \<or>
     dp_fault D (w_redis (sy_world s)) (w_redis (sy_world t))"

lemma step_keeps_other_keys:
  assumes laws: "redis_laws (dp_redis D)" and k: "foreign_key (dp_settings D) k" and step: "queue_step D s t"
    and not: "\<not> metrics_or_fault D s t"
  shows "same_reads (dp_redis D) k (sy_now t) (w_redis (sy_world s)) (w_redis (sy_world t))"
proof -
  note routes = redis_laws.other_routes [OF laws k] and cache = redis_laws.other_cache [OF laws k]
    and limiter = redis_laws.other_limiter [OF laws k]
  from step show ?thesis
  proof cases
    case (schedule_step e n header body r w)
    from routes(1) [OF this(3,4)] show ?thesis by (simp add: schedule_step(1))
  next
    case (get_step e n job_id inc r w)
    from routes(2) [OF this(2,3)] show ?thesis by (simp add: get_step(1))
  next
    case (metrics_step e n r' w)
    then have "\<exists>e. sy_world t = snd (metrics_route (dp_redis D) (dp_metrics_codec D) (dp_settings D) e (sy_world s))"
      by (intro exI [of _ e]) simp
    with not show ?thesis unfolding metrics_or_fault_def by blast
  next
    case (requeue_step e n job_id extra r' w)
    from routes(3) [OF this(2,3)] show ?thesis by (simp add: requeue_step(1))
  next
    case (put_step j re b w)
    from arg_cong [OF this(4), of "\<lambda>x. w_redis (snd x)"] cache(1) [of re "w_redis (sy_world s)" "dp_codec D" "job_out_of j"]
    show ?thesis by (simp add: put_step(1))
  next
    case (put_key_step j key re x)
    with cache(3) show ?thesis by simp
  next
    case (late_drop_step j v re x)
    with cache(2) show ?thesis by simp
  next
    case (metrics_key_step re x u)
    have "w_redis (sy_world t) = x" by (simp add: metrics_key_step(1))
    with metrics_key_step(3) not show ?thesis unfolding metrics_or_fault_def by blast
  next
    case (flight_step f we f' w)
    show ?thesis
      using deliver_step_redis [of "dp_settings D" "build_rate_limiter (dp_redis D) (dp_settings D)" "mock_send (failure_rate (dp_settings D))"
          "dp_exn_text D" we f "sy_world s"] flight_step(5)
        limiter [where e = "we_limit we" and w = "sy_world s" and j = "fl_job f"]
      by (auto simp: worker_step_def flight_step(1))
  next
    case (task_step task re x)
    with cache(2) show ?thesis by (cases task) (simp add: run_task_def)
  next
    case (redis_step x)
    with not show ?thesis by (simp add: metrics_or_fault_def)
  qed (auto simp: world_redis)
qed

lemma request_keeps_other_keys:
  assumes laws: "redis_laws R" and k: "foreign_key c k" and step: "request_step R K digest pu c e ph w = (ph', w')"
  shows "same_reads R k (re_now (rq_redis e)) (w_redis w) (w_redis w')"
proof -
  note cache = redis_laws.other_cache [OF laws k]
  show ?thesis
  proof (cases ph)
    case (SeekKey q)
    with step show ?thesis
      by (auto simp: seek_key_def dest: redis_reads split: option.splits sum.splits prod.splits if_splits)
  next
    case (SeekJob i inc g)
    with step show ?thesis by (auto simp: seek_job_def dest: redis_reads split: option.splits sum.splits prod.splits if_splits)
  qed (use step cache in \<open>auto simp: insert_row_def requeue_row_def put_row_def put_key_def
        dest: in_tx_redis split: option.splits sum.splits prod.splits if_splits\<close>)
qed

lemma api_keeps_other_keys:
  assumes laws: "redis_laws (dp_redis D)" and k: "foreign_key (dp_settings D) k" and step: "api_step D a b"
    and not: "\<not> metrics_or_fault D (ap_system a) (ap_system b)"
  shows "same_reads (dp_redis D) k (sy_now (ap_system b)) (w_redis (sy_world (ap_system a))) (w_redis (sy_world (ap_system b)))"
  using step
proof cases
  case (proceeds call ph e ph' w)
  from request_keeps_other_keys [OF laws k proceeds(5) [unfolded api_request_step_def]] show ?thesis
    by (simp add: proceeds(1))
next
  case (others s)
  with step_keeps_other_keys [OF laws k others(2)] not show ?thesis by simp
qed simp_all

lemma step_clock: "queue_step D s t \<Longrightarrow> sy_now s \<le> sy_now t"
  by (erule queue_step.cases) (auto dest: redis_clockD(3))

lemma api_step_clock: "api_step D a b \<Longrightarrow> sy_now (ap_system a) \<le> sy_now (ap_system b)"
  by (erule api_step.cases) (auto dest: step_clock)

end
