(* ===== verification/Metrics_System.thy ===== *)
theory Metrics_System
  imports Metrics_Requests Other_Keys
begin

text \<open>
  The deployment with the metrics requests taken apart as well. Every step is a run of \<open>Api_System\<close>; the
  answers are counts of the tables and no older than the lifetime of a cache entry; and the lock keeps all
  but one request from rebuilding, as long as its holder is done before it expires.
\<close>

section \<open>Steps\<close>

text \<open>
  \<open>da_counts\<close> are the counts that scans have made, and \<open>da_stored\<close> the texts that went to the cache,
  with the time; both only record.
\<close>

record 'r dashboard =
  da_api :: "'r api"
  da_requests :: "metrics_phase multiset"
  da_counts :: "dict list"
  da_stored :: "(string \<times> int) list"

fun lock_held :: "metrics_phase \<Rightarrow> int option" where
  "lock_held (CountJobs got_lock) = got_lock"
| "lock_held (StoreCounts got_lock m) = got_lock"
| "lock_held (DropLock t m) = Some t"
| "lock_held _ = None"

text \<open>A holder whose lock has not expired.\<close>

definition lock_runs :: "int \<Rightarrow> metrics_phase \<Rightarrow> bool" where
  "lock_runs n ph \<longleftrightarrow> (\<exists>t. lock_held ph = Some t \<and> n < t + 1000 * lock_ttl_seconds)"

fun new_counts :: "metrics_phase \<Rightarrow> metrics_phase \<Rightarrow> dict list" where
  "new_counts (CountJobs g) (StoreCounts g' m) = [m]"
| "new_counts _ _ = []"

fun new_stored :: "dict_codec \<Rightarrow> int \<Rightarrow> metrics_phase \<Rightarrow> (string \<times> int) list" where
  "new_stored M n (StoreCounts g m) = [(dc_dump M m, n)]"
| "new_stored M n _ = []"

definition lock_kept :: "'r deployment \<Rightarrow> 'r system \<Rightarrow> 'r system \<Rightarrow> bool" where
  "lock_kept D s t \<longleftrightarrow>
     same_reads (dp_redis D) (metrics_lock_key (dp_settings D)) (sy_now t) (w_redis (sy_world s)) (w_redis (sy_world t))"

definition metrics_move_in :: "'r deployment \<Rightarrow> metrics_env \<Rightarrow> metrics_phase \<Rightarrow> 'r world \<Rightarrow> metrics_phase \<times> 'r world" where
  "metrics_move_in D = metrics_move (dp_redis D) (dp_metrics_codec D) (dp_settings D)"

text \<open>
  A metrics request arrives, makes a step, or is gone; or the rest of the deployment makes a step. Of the
  metrics that rest writes nothing, and Redis can lose entries. With \<open>punctual\<close>, Redis does not lose the lock,
  and a holder makes its steps before the lock expires or not at all.
\<close>

inductive dash_step :: "'r deployment \<Rightarrow> bool \<Rightarrow> 'r dashboard \<Rightarrow> 'r dashboard \<Rightarrow> bool" for D punctual where
  asks: "dash_step D punctual a (a\<lparr>da_requests := add_mset AskCache (da_requests a)\<rparr>)"
| moves: "ph \<in># da_requests a \<Longrightarrow> sy_now (ap_system (da_api a)) \<le> re_now (me_redis e) \<Longrightarrow>
     punctual \<longrightarrow> lock_held ph = None \<or> lock_runs (re_now (me_redis e)) ph \<Longrightarrow>
     metrics_move_in D e ph (sy_world (ap_system (da_api a))) = (ph', w) \<Longrightarrow>
     dash_step D punctual a
       (a\<lparr>da_api := (da_api a)\<lparr>ap_system := (ap_system (da_api a))\<lparr>sy_world := w, sy_now := re_now (me_redis e)\<rparr>\<rparr>,
          da_requests := add_mset ph' (da_requests a - {#ph#}),
          da_counts := new_counts ph ph' @ da_counts a,
          da_stored := new_stored (dp_metrics_codec D) (re_now (me_redis e)) ph @ da_stored a\<rparr>)"
| leaves: "rs \<subseteq># da_requests a \<Longrightarrow> dash_step D punctual a (a\<lparr>da_requests := rs\<rparr>)"
| others: "api_step D (da_api a) b \<Longrightarrow>
     metrics_or_fault D (ap_system (da_api a)) (ap_system b) \<longrightarrow>
       forgets (dp_redis D) (w_redis (sy_world (ap_system (da_api a)))) (w_redis (sy_world (ap_system b))) \<and>
       (punctual \<longrightarrow> lock_kept D (ap_system (da_api a)) (ap_system b)) \<Longrightarrow>
     dash_step D punctual a (a\<lparr>da_api := b\<rparr>)"

definition dash_init :: "'r deployment \<Rightarrow> 'r dashboard \<Rightarrow> bool" where
  "dash_init D a \<longleftrightarrow> api_init D (da_api a) \<and> da_requests a = {#} \<and> da_counts a = [] \<and> da_stored a = []"

section \<open>Refinement\<close>

lemma on_redis_world: "on_redis f w = (r, w') \<Longrightarrow> w' = w\<lparr>w_redis := snd (f (w_redis w))\<rparr>"
  by (auto simp: on_redis_def split_beta)

text \<open>What a move does to the world.\<close>

lemma metrics_move_world:
  assumes "metrics_move R M c e ph w = (ph', w')"
  shows "w' = w \<or> w' = w\<lparr>w_redis := snd (take_metrics_lock R c (me_redis e) (w_redis w))\<rparr> \<and> ph = TakeLock \<or>
     (\<exists>g m. ph = StoreCounts g m \<and> w' = w\<lparr>w_redis := put_metrics R c (me_redis e) (dc_dump M m) (w_redis w)\<rparr>) \<or>
     (\<exists>t m. ph = DropLock t m \<and> w' = w\<lparr>w_redis := drop_metrics_lock R c (me_redis e) (w_redis w)\<rparr>)"
  using assms by (cases ph) (auto simp: on_metrics_get dest!: on_redis_world split: prod.splits sum.splits)

lemma metrics_move_runs:
  assumes n: "sy_now s \<le> re_now (me_redis e)" and step: "metrics_move_in D e ph (sy_world s) = (ph', w)"
  shows "queue_step D s (s\<lparr>sy_world := w, sy_now := re_now (me_redis e)\<rparr>) \<and> w_db w = system_db s"
proof -
  let ?e = "\<lparr>rq_redis = me_redis e, rq_fate = Commits, rq_env = undefined, rq_read_ok = True\<rparr>"
  have "queue_step D s (s\<lparr>sy_now := re_now (me_redis e)\<rparr>)" using time_passes [of s ?e D] n by simp
  then have idle: ?thesis if "w = sy_world s" using that by (simp add: system_db_def)
  have writes: ?thesis if "w = (sy_world s)\<lparr>w_redis := x\<rparr>"
    "x \<in> {snd (take_metrics_lock (dp_redis D) (dp_settings D) (me_redis e) (w_redis (sy_world s))),
          put_metrics (dp_redis D) (dp_settings D) (me_redis e) t (w_redis (sy_world s)),
          drop_metrics_lock (dp_redis D) (dp_settings D) (me_redis e) (w_redis (sy_world s))}" for x t
    using queue_step.metrics_key_step [OF n that(2)] that(1) by (simp add: system_db_def)
  from metrics_move_world [OF step [unfolded metrics_move_in_def]] idle writes show ?thesis by blast
qed

lemma dash_step_api:
  assumes ok: "api_ok D (da_api a)" and step: "dash_step D punctual a b"
  shows "(api_step D)\<^sup>*\<^sup>* (da_api a) (da_api b)"
  using step
proof cases
  case (moves ph e ph' w)
  let ?s = "(ap_system (da_api a))\<lparr>sy_world := w, sy_now := re_now (me_redis e)\<rparr>"
  have run: "queue_step D (ap_system (da_api a)) ?s" "system_db ?s = system_db (ap_system (da_api a))"
    using metrics_move_runs [OF moves(3,5)] by (simp_all add: system_db_def)
  have "api_step D (da_api a) ((da_api a)\<lparr>ap_system := ?s\<rparr>)"
    by (rule api_step.others [OF run(1)]) (use ok run(2) in \<open>simp add: api_ok_def\<close>)
  then show ?thesis unfolding moves(1) by simp
qed auto

lemma dash_reach_api: "reach (dash_init D) (dash_step D punctual) a \<Longrightarrow> reach (api_init D) (api_step D) (da_api a)"
proof (induction rule: reach.induct)
  case (reach_init a)
  then show ?case by (simp add: dash_init_def reach.reach_init)
next
  case (reach_step a b)
  show ?case by (rule reach_steps [OF reach_step(3) dash_step_api [OF api_reach_ok [OF reach_step(3)] reach_step(2)]])
qed

text \<open>
  The finest view of the deployment is still the system. With every request of the API, the metrics
  included, stopped at any of its \<open>await\<close>s, each step is a finite run of \<open>Api_System\<close> and through it of
  \<open>Queue_System\<close>, so every property of their reachable states holds of it.
\<close>

theorem dashboard_refines_api:
  assumes "reach (dash_init D) (dash_step D punctual) a" "dash_step D punctual a b"
  shows "(api_step D)\<^sup>*\<^sup>* (da_api a) (da_api b) \<and> reach (queue_init D) (queue_step D) (ap_system (da_api b))"
proof
  have ok: "api_ok D (da_api a)" by (rule api_reach_ok [OF dash_reach_api [OF assms(1)]])
  show run: "(api_step D)\<^sup>*\<^sup>* (da_api a) (da_api b)" by (rule dash_step_api [OF ok assms(2)])
  show "reach (queue_init D) (queue_step D) (ap_system (da_api b))"
    using api_reach_ok [OF reach_steps [OF dash_reach_api [OF assms(1)] run]] by (simp add: api_ok_def)
qed

section \<open>What the three writes do to the two keys\<close>

lemma metrics_keys_differ [simp]: "metrics_lock_key c \<noteq> metrics_key c" "metrics_key c \<noteq> metrics_lock_key c"
  using cache_keys_differ(6) by (simp_all add: metrics_key_def metrics_lock_key_def) metis

context redis_laws
begin

lemma get_redis_set_other:
  "t \<le> n \<Longrightarrow> k \<noteq> k' \<Longrightarrow> rd_get R n k (snd (redis_set R t k' v ex s)) = rd_get R n k s"
  by (simp add: redis_set_def get_set)

lemma get_set_nx_other:
  "t \<le> n \<Longrightarrow> k \<noteq> k' \<Longrightarrow> rd_get R n k (snd (redis_set_nx R t k' v ex s)) = rd_get R n k s"
  by (simp add: redis_set_nx_def get_redis_set_other)

lemma metrics_writes_elsewhere:
  assumes n: "re_now e \<le> n"
  shows "rd_get R n (metrics_lock_key c) (put_metrics R c e t s) = rd_get R n (metrics_lock_key c) s"
    "rd_get R n (metrics_key c) (snd (take_metrics_lock R c e s)) = rd_get R n (metrics_key c) s"
    "rd_get R n (metrics_key c) (drop_metrics_lock R c e s) = rd_get R n (metrics_key c) s"
  unfolding put_metrics_def take_metrics_lock_def drop_metrics_lock_def
  by (rule cache_call_keeps [where P = "\<lambda>x. rd_get R n k x = rd_get R n k s" for k];
      simp add: get_redis_set_other [OF n] get_set_nx_other [OF n] get_del)+

lemma put_metrics_reads:
  assumes n: "re_now e \<le> n" and u: "rd_get R n (metrics_key c) (put_metrics R c e t s) = Some u"
  shows "rd_get R n (metrics_key c) s = Some u \<or> u = t \<and> n < re_now e + 1000 * cache_metrics_ttl c"
  using u n unfolding put_metrics_def
  by (cases rule: cache_call_cases [of "cache_enabled c" "re_fate e" "redis_set R (re_now e) (metrics_key c) t (cache_metrics_ttl c)" None s])
    (auto simp: redis_set_def get_set split: if_splits)

text \<open>A lock that is there stays; taking it needs it to be free, and then it is there for its time.\<close>

lemma take_lock_stays:
  assumes n: "re_now e \<le> n" and v: "rd_get R n (metrics_lock_key c) s = Some v"
  shows "rd_get R n (metrics_lock_key c) (snd (take_metrics_lock R c e s)) = Some v"
  unfolding take_metrics_lock_def
  by (rule cache_call_keeps [where P = "\<lambda>x. rd_get R n (metrics_lock_key c) x = Some v"])
    (use get_earlier [OF n v] in \<open>simp_all add: v redis_set_nx_def\<close>)

lemma take_lock_taken:
  assumes "take_metrics_lock R c e s = (Some True, s')"
  shows "rd_get R (re_now e) (metrics_lock_key c) s = None"
    "re_now e \<le> n \<Longrightarrow> n < re_now e + 1000 * lock_ttl_seconds \<Longrightarrow> rd_get R n (metrics_lock_key c) s' \<noteq> None"
  using assms unfolding take_metrics_lock_def
  by (cases rule: cache_call_cases [of "cache_enabled c" "re_fate e"
        "redis_set_nx R (re_now e) (metrics_lock_key c) ''1'' lock_ttl_seconds" None s],
      auto simp: redis_set_nx_def redis_set_def get_set lock_ttl_seconds_def split: if_splits)+

lemma drop_lock_reads:
  "rd_get R n (metrics_lock_key c) (drop_metrics_lock R c e s) \<in> {None, rd_get R n (metrics_lock_key c) s}"
  unfolding drop_metrics_lock_def
  by (rule cache_call_keeps [where P = "\<lambda>x. rd_get R n (metrics_lock_key c) x \<in> {None, rd_get R n (metrics_lock_key c) s}"])
    (simp_all add: get_del)

end

section \<open>Where the answers come from\<close>

fun counted_in :: "metrics_phase \<Rightarrow> dict option" where
  "counted_in (StoreCounts got_lock m) = Some m"
| "counted_in (DropLock t m) = Some m"
| "counted_in (Counted (Inr (m, hit))) = (if hit then None else Some m)"
| "counted_in _ = None"

lemma counted_in_StoreCounts: "ph = StoreCounts got_lock m \<Longrightarrow> counted_in ph = Some m" by simp

lemma counted_heard [simp]: "counted_in (heard r (CountJobs g)) = None" "counted_in (heard r TakeLock) = None"
  by (auto simp: heard_def split: sum.split option.split)

lemma counted_after_lock [simp]: "counted_in (after_lock c e reply) = None"
  by (simp add: after_lock_def)

lemma metrics_move_counted:
  assumes "metrics_move R M c e ph w = (ph', w')" "counted_in ph' = Some m"
  shows "counted_in ph = Some m \<or> (\<exists>g. ph = CountJobs g \<and> ph' = StoreCounts g m \<and> compute_metrics (me_count e) w = Inr m)"
  using assms by (cases ph) (auto split: prod.splits sum.splits option.splits)

lemma metrics_move_answers:
  assumes "metrics_move R M c e ph w = (Counted (Inr (m, hit)), w')" "\<And>r. ph \<noteq> Counted r"
  shows "if hit then \<exists>t. rd_get R (re_now (me_redis e)) (metrics_key c) (w_redis w) = Some t \<and> dc_load M t = Inr m
         else counted_in ph = Some m"
proof -
  have get: "\<exists>t. rd_get R (re_now (me_redis e)) (metrics_key c) x = Some t \<and> dc_load M t = Inr m"
    if "fst (metrics_get R M c (me_redis e) x) = Inr (Some m)" for x
    using that by (cases "dc_load M (the (rd_get R (re_now (me_redis e)) (metrics_key c) x))")
      (auto simp: metrics_get_def cache_call_def redis_get_def split: option.splits if_splits redis_fate.splits)
  from assms show ?thesis
    by (cases ph) (auto simp: on_metrics_get heard_def after_lock_def intro!: get split: prod.splits sum.splits option.splits if_splits)
qed

text \<open>The books are true: answers and stored texts are counts that were made, and an entry is a stored text, in its lifetime.\<close>

definition books_true :: "'r deployment \<Rightarrow> 'r dashboard \<Rightarrow> bool" where
  "books_true D a \<longleftrightarrow>
     (\<forall>t \<tau>. (t, \<tau>) \<in> set (da_stored a) \<longrightarrow>
        \<tau> \<le> sy_now (ap_system (da_api a)) \<and> t \<in> dc_dump (dp_metrics_codec D) ` set (da_counts a)) \<and>
     (\<forall>ph\<in>#da_requests a. \<forall>m. counted_in ph = Some m \<longrightarrow> m \<in> set (da_counts a)) \<and>
     (\<forall>n t. sy_now (ap_system (da_api a)) \<le> n \<longrightarrow>
        rd_get (dp_redis D) n (metrics_key (dp_settings D)) (w_redis (sy_world (ap_system (da_api a)))) = Some t \<longrightarrow>
        (\<exists>\<tau>. (t, \<tau>) \<in> set (da_stored a) \<and> n < \<tau> + 1000 * cache_metrics_ttl (dp_settings D)))"

lemma move_keeps_entry:
  assumes laws: "redis_laws R" and move: "metrics_move R M c e ph w = (ph', w')" and n: "re_now (me_redis e) \<le> n"
    and t: "rd_get R n (metrics_key c) (w_redis w') = Some t"
  shows "rd_get R n (metrics_key c) (w_redis w) = Some t \<or>
     (t, re_now (me_redis e)) \<in> set (new_stored M (re_now (me_redis e)) ph) \<and> n < re_now (me_redis e) + 1000 * cache_metrics_ttl c"
  using metrics_move_world [OF move] t redis_laws.metrics_writes_elsewhere(2,3) [OF laws n]
  by (auto dest!: redis_laws.put_metrics_reads [OF laws n])

lemma books_true_move:
  fixes e :: metrics_env
  assumes laws: "redis_laws (dp_redis D)" and ok: "books_true D a" and ph: "ph \<in># da_requests a"
    and now: "sy_now (ap_system (da_api a)) \<le> re_now (me_redis e)"
    and move: "metrics_move_in D e ph (sy_world (ap_system (da_api a))) = (ph', w)"
  shows "books_true D
       (a\<lparr>da_api := (da_api a)\<lparr>ap_system := (ap_system (da_api a))\<lparr>sy_world := w, sy_now := re_now (me_redis e)\<rparr>\<rparr>,
          da_requests := add_mset ph' (da_requests a - {#ph#}),
          da_counts := new_counts ph ph' @ da_counts a,
          da_stored := new_stored (dp_metrics_codec D) (re_now (me_redis e)) ph @ da_stored a\<rparr>)"
  (is "books_true D ?b")
proof -
  note move' = move [unfolded metrics_move_in_def]
  have was: "\<And>t \<tau>. (t, \<tau>) \<in> set (da_stored a) \<Longrightarrow> \<tau> \<le> sy_now (ap_system (da_api a)) \<and> t \<in> dc_dump (dp_metrics_codec D) ` set (da_counts a)"
    "\<And>q m. q \<in># da_requests a \<Longrightarrow> counted_in q = Some m \<Longrightarrow> m \<in> set (da_counts a)"
    "\<And>n t. sy_now (ap_system (da_api a)) \<le> n \<Longrightarrow>
        rd_get (dp_redis D) n (metrics_key (dp_settings D)) (w_redis (sy_world (ap_system (da_api a)))) = Some t \<Longrightarrow>
        \<exists>\<tau>. (t, \<tau>) \<in> set (da_stored a) \<and> n < \<tau> + 1000 * cache_metrics_ttl (dp_settings D)"
    using ok unfolding books_true_def by blast+
  have stored: "\<tau> \<le> re_now (me_redis e) \<and> t \<in> dc_dump (dp_metrics_codec D) ` set (da_counts ?b)"
    if "(t, \<tau>) \<in> set (da_stored ?b)" for t \<tau>
  proof (cases "(t, \<tau>) \<in> set (da_stored a)")
    case True
    from was(1) [OF this] now show ?thesis by (simp add: image_Un)
  next
    case False
    with that was(2) [OF ph] show ?thesis by (cases ph) auto
  qed
  have answers: "m \<in> set (da_counts ?b)" if "q \<in># da_requests ?b" "counted_in q = Some m" for q m
    using that metrics_move_counted [OF move', of m] was(2) [OF _ that(2)] was(2) [OF ph]
    by (cases "q = ph'") (auto dest: in_diffD)
  have entry: "\<exists>\<tau>. (t, \<tau>) \<in> set (da_stored ?b) \<and> n < \<tau> + 1000 * cache_metrics_ttl (dp_settings D)"
    if "re_now (me_redis e) \<le> n" "rd_get (dp_redis D) n (metrics_key (dp_settings D)) (w_redis w) = Some t" for n t
    using move_keeps_entry [OF laws move' that] was(3) [of n t] now that(1) by auto
  show ?thesis unfolding books_true_def using stored answers entry by simp
qed

lemma others_keep:
  assumes laws: "redis_laws (dp_redis D)" and step: "api_step D a b"
    and rest: "metrics_or_fault D (ap_system a) (ap_system b) \<longrightarrow>
      forgets (dp_redis D) (w_redis (sy_world (ap_system a))) (w_redis (sy_world (ap_system b))) \<and>
      (punctual \<longrightarrow> lock_kept D (ap_system a) (ap_system b))"
  shows "sy_now (ap_system b) \<le> n \<Longrightarrow>
      rd_get (dp_redis D) n (metrics_key (dp_settings D)) (w_redis (sy_world (ap_system b))) = Some t \<Longrightarrow>
      rd_get (dp_redis D) n (metrics_key (dp_settings D)) (w_redis (sy_world (ap_system a))) = Some t"
    "punctual \<Longrightarrow> lock_kept D (ap_system a) (ap_system b)"
  using rest api_keeps_other_keys [OF laws metrics_keys_foreign(1) step] api_keeps_other_keys [OF laws metrics_keys_foreign(2) step]
  unfolding lock_kept_def same_reads_def forgets_def by metis+

lemma books_true_reach:
  assumes laws: "redis_laws (dp_redis D)" and r: "reach (dash_init D) (dash_step D punctual) a"
  shows "books_true D a"
  using r
proof (induction rule: reach.induct)
  case (reach_init a)
  then show ?case by (simp add: dash_init_def books_true_def api_init_def queue_init_def)
next
  case (reach_step a b)
  from reach_step(2) show ?case
  proof cases
    case asks
    with reach_step(3) show ?thesis by (auto simp: books_true_def)
  next
    case (moves ph e ph' w)
    show ?thesis unfolding moves(1) by (rule books_true_move [OF laws reach_step(3) moves(2,3,5)])
  next
    case (leaves rs)
    with reach_step(3) show ?thesis by (auto simp: books_true_def dest: mset_subset_eqD)
  next
    case (others b')
    show ?thesis
      using reach_step(3) others_keep(1) [OF laws others(2,3)] api_step_clock [OF others(2)]
      unfolding books_true_def others(1) by (fastforce intro: order_trans)
  qed
qed

text \<open>A count of the tables as they were in a state that the run has passed.\<close>

definition past_count :: "'r deployment \<Rightarrow> 'r system \<Rightarrow> dict \<Rightarrow> bool" where
  "past_count D t m \<longleftrightarrow>
     (\<exists>s e. reach (queue_init D) (queue_step D) s \<and> (queue_step D)\<^sup>*\<^sup>* s t \<and> compute_metrics e (sy_world s) = Inr m)"

lemma past_count_later: "past_count D s m \<Longrightarrow> (queue_step D)\<^sup>*\<^sup>* s t \<Longrightarrow> past_count D t m"
  unfolding past_count_def by (meson rtranclp_trans)

lemma api_run_system:
  "(api_step D)\<^sup>*\<^sup>* a b \<Longrightarrow> reach (api_init D) (api_step D) a \<Longrightarrow> (queue_step D)\<^sup>*\<^sup>* (ap_system a) (ap_system b)"
proof (induction rule: rtranclp_induct)
  case (step b c)
  show ?case
    by (rule rtranclp_trans [OF step.IH [OF step.prems] api_step_system [OF api_reach_ok [OF reach_steps [OF step.prems step.hyps(1)]] step.hyps(2)]])
qed simp

lemma move_new_counts:
  "metrics_move R M c e ph w = (ph', w') \<Longrightarrow> m \<in> set (new_counts ph ph') \<Longrightarrow> compute_metrics (me_count e) w = Inr m"
  by (cases "(ph, ph')" rule: new_counts.cases) (auto split: sum.splits)

lemma counts_are_past:
  assumes "reach (dash_init D) (dash_step D punctual) a"
  shows "\<forall>m\<in>set (da_counts a). past_count D (ap_system (da_api a)) m"
  using assms
proof (induction rule: reach.induct)
  case (reach_init a)
  then show ?case by (simp add: dash_init_def)
next
  case (reach_step a b)
  note api = dash_reach_api [OF reach_step(1)]
  have run: "(queue_step D)\<^sup>*\<^sup>* (ap_system (da_api a)) (ap_system (da_api b))"
    by (rule api_run_system [OF dash_step_api [OF api_reach_ok [OF api] reach_step(2)] api])
  have now: "past_count D (ap_system (da_api a)) m" if "compute_metrics e (sy_world (ap_system (da_api a))) = Inr m" for e m
    using that api_reach_ok [OF api] unfolding past_count_def api_ok_def by blast
  from reach_step(2) have "\<forall>m\<in>set (da_counts b). past_count D (ap_system (da_api a)) m"
  proof cases
    case (moves ph e ph' w)
    show ?thesis
      using reach_step(3) now move_new_counts [OF moves(5) [unfolded metrics_move_in_def]] by (auto simp: moves(1))
  qed (use reach_step(3) in simp_all)
  with run show ?case using past_count_later by blast
qed

text \<open>
  C17: a metrics answer is never stale. Whatever is interleaved, the answer that a request is about to
  give is its own count of the tables, or it is read back from a text that was stored less than
  \<open>cache_metrics_ttl\<close> seconds ago and was a count of the tables too.
\<close>

theorem metrics_answers_are_fresh:
  assumes laws: "redis_laws (dp_redis D)" and r: "reach (dash_init D) (dash_step D punctual) a"
    and ph: "ph \<in># da_requests a" "\<And>r. ph \<noteq> Counted r" and now: "sy_now (ap_system (da_api a)) \<le> re_now (me_redis e)"
    and move: "metrics_move_in D e ph (sy_world (ap_system (da_api a))) = (Counted (Inr (m, hit)), w)"
  shows "\<exists>d. past_count D (ap_system (da_api a)) d \<and>
    (if hit then dc_load (dp_metrics_codec D) (dc_dump (dp_metrics_codec D) d) = Inr m \<and>
       (\<exists>\<tau>. (dc_dump (dp_metrics_codec D) d, \<tau>) \<in> set (da_stored a) \<and> \<tau> \<le> re_now (me_redis e) \<and>
         re_now (me_redis e) < \<tau> + 1000 * cache_metrics_ttl (dp_settings D))
     else d = m)"
proof -
  note books = books_true_reach [OF laws r, unfolded books_true_def] counts_are_past [OF r]
  show ?thesis
  proof (cases hit)
    case True
    obtain t where t: "rd_get (dp_redis D) (re_now (me_redis e)) (metrics_key (dp_settings D)) (w_redis (sy_world (ap_system (da_api a)))) = Some t"
      "dc_load (dp_metrics_codec D) t = Inr m"
      using metrics_move_answers [OF move [unfolded metrics_move_in_def] ph(2)] True by auto
    with books(1) now obtain \<tau> where stored: "(t, \<tau>) \<in> set (da_stored a)"
      "re_now (me_redis e) < \<tau> + 1000 * cache_metrics_ttl (dp_settings D)" by blast
    with books(1) obtain d where d: "d \<in> set (da_counts a)" "t = dc_dump (dp_metrics_codec D) d"
      "\<tau> \<le> sy_now (ap_system (da_api a))" by blast
    have "\<tau> \<le> re_now (me_redis e)" using d(3) now by simp
    with books(2) d(1) stored t(2) True show ?thesis unfolding d(2) by auto
  next
    case False
    then have "counted_in ph = Some m" using metrics_move_answers [OF move [unfolded metrics_move_in_def] ph(2)] by simp
    with books ph(1) False show ?thesis by auto
  qed
qed

section \<open>The rebuild lock\<close>

text \<open>The key is there as long as a holder's lock has not expired, and at most one has such a lock.\<close>

definition lock_exclusive :: "'r deployment \<Rightarrow> 'r dashboard \<Rightarrow> bool" where
  "lock_exclusive D a \<longleftrightarrow>
     size {#ph \<in># da_requests a. lock_runs (sy_now (ap_system (da_api a))) ph#} \<le> 1 \<and>
     (\<forall>ph\<in>#da_requests a. \<forall>t n. lock_held ph = Some t \<longrightarrow> sy_now (ap_system (da_api a)) \<le> n \<longrightarrow> n < t + 1000 * lock_ttl_seconds \<longrightarrow>
        rd_get (dp_redis D) n (metrics_lock_key (dp_settings D)) (w_redis (sy_world (ap_system (da_api a)))) \<noteq> None)"

lemma lock_runs_earlier: "lock_runs n ph \<Longrightarrow> m \<le> n \<Longrightarrow> lock_runs m ph"
  by (auto simp: lock_runs_def)

lemma lock_runs_None: "lock_held ph = None \<Longrightarrow> \<not> lock_runs n ph"
  by (simp add: lock_runs_def)

lemma lock_runs_same: "lock_held p = lock_held q \<Longrightarrow> lock_runs n p = lock_runs n q"
  by (simp add: lock_runs_def)

lemma filter_mset_le: "(\<And>x. Q x \<Longrightarrow> P x) \<Longrightarrow> size {#x \<in># X. Q x#} \<le> size {#x \<in># X. P x#}"
  by (induction X) (auto intro: le_SucI)

lemma lock_count_later:
  "size {#q \<in># Q. lock_runs m q#} \<le> 1 \<Longrightarrow> m \<le> n \<Longrightarrow> size {#q \<in># Q. lock_runs n q#} \<le> 1"
  by (erule order_trans [OF filter_mset_le, rotated]) (rule lock_runs_earlier)

lemma lock_held_heard [simp]: "lock_held (heard r (CountJobs None)) = None" "lock_held (heard r TakeLock) = None"
  by (auto simp: heard_def split: sum.split option.split)

text \<open>A move gets the lock, keeps the one it has, or has none afterwards.\<close>

lemma metrics_move_lock:
  assumes "metrics_move R M c e ph w = (ph', w')"
  shows "lock_held ph' = None \<or> lock_held ph' = lock_held ph \<and> (\<forall>t m. ph \<noteq> DropLock t m) \<or>
     ph = TakeLock \<and> lock_held ph' = Some (re_now (me_redis e)) \<and>
       take_metrics_lock R c (me_redis e) (w_redis w) = (Some True, w_redis w')"
  using assms by (cases ph) (auto simp: after_lock_def on_redis_def split: prod.splits sum.splits option.splits if_splits)

lemma no_second_holder:
  assumes "size {#q \<in># Q. P q#} \<le> 1" "ph \<in># Q" "P ph" "q \<in># Q - {#ph#}"
  shows "\<not> P q"
proof
  assume "P q"
  obtain A where A: "Q = add_mset ph A" using assms(2) by (rule multi_member_split [THEN exE])
  then obtain B where "A = add_mset q B" using assms(4) by (auto dest: multi_member_split)
  with assms(1,3) \<open>P q\<close> show False by (simp add: A)
qed

text \<open>A move other than dropping the lock leaves it where it is.\<close>

lemma move_keeps_lock:
  assumes laws: "redis_laws R" and move: "metrics_move R M c e ph w = (ph', w')" and n: "re_now (me_redis e) \<le> n"
    and ph: "\<And>t m. ph \<noteq> DropLock t m" and v: "rd_get R n (metrics_lock_key c) (w_redis w) = Some v"
  shows "rd_get R n (metrics_lock_key c) (w_redis w') = Some v"
  using metrics_move_world [OF move] v ph redis_laws.metrics_writes_elsewhere(1) [OF laws n]
    redis_laws.take_lock_stays [OF laws n v]
  by auto

lemma lock_key_move:
  assumes laws: "redis_laws R" and move: "metrics_move R M c e ph w = (ph', w')" and ph: "ph \<in># Q" and now: "n0 \<le> re_now (me_redis e)"
    and one: "size {#q \<in># Q. lock_runs n0 q#} \<le> 1"
    and key: "\<And>q t n. q \<in># Q \<Longrightarrow> lock_held q = Some t \<Longrightarrow> n0 \<le> n \<Longrightarrow> n < t + 1000 * lock_ttl_seconds \<Longrightarrow>
      rd_get R n (metrics_lock_key c) (w_redis w) \<noteq> None"
    and punctual: "lock_held ph = None \<or> lock_runs (re_now (me_redis e)) ph"
    and q: "q \<in># add_mset ph' (Q - {#ph#})" "lock_held q = Some t" "re_now (me_redis e) \<le> n" "n < t + 1000 * lock_ttl_seconds"
  shows "rd_get R n (metrics_lock_key c) (w_redis w') \<noteq> None"
proof (cases "\<exists>t m. ph = DropLock t m")
  case True
  then have "lock_held ph' = None" using move by auto
  then have "q \<in># Q - {#ph#}" using q(1,2) by auto
  moreover have "lock_runs n0 ph" "lock_runs n0 q"
    using punctual True q(2-4) now by (auto simp: lock_runs_def)
  ultimately show ?thesis using no_second_holder [of "lock_runs n0", OF one ph] by blast
next
  case False
  have kept: ?thesis if "rd_get R n (metrics_lock_key c) (w_redis w) \<noteq> None"
    using that move_keeps_lock [OF laws move q(3)] False by auto
  have n: "n0 \<le> n" using now q(3) by simp
  show ?thesis
  proof (cases "q = ph'")
    case True
    with metrics_move_lock [OF move] q(2) kept key [OF ph _ n q(4)] redis_laws.take_lock_taken(2) [OF laws _ q(3)] q(4)
    show ?thesis by auto
  next
    case False
    with q(1) have "q \<in># Q" by (auto dest: in_diffD)
    from kept [OF key [OF this q(2) n q(4)]] show ?thesis .
  qed
qed

lemma lock_count_move:
  assumes laws: "redis_laws R" and move: "metrics_move R M c e ph w = (ph', w')" and ph: "ph \<in># Q" and now: "n0 \<le> re_now (me_redis e)"
    and one: "size {#q \<in># Q. lock_runs n0 q#} \<le> 1"
    and key: "\<And>q t n. q \<in># Q \<Longrightarrow> lock_held q = Some t \<Longrightarrow> n0 \<le> n \<Longrightarrow> n < t + 1000 * lock_ttl_seconds \<Longrightarrow>
      rd_get R n (metrics_lock_key c) (w_redis w) \<noteq> None"
  shows "size {#q \<in># add_mset ph' (Q - {#ph#}). lock_runs (re_now (me_redis e)) q#} \<le> 1"
proof -
  let ?n = "re_now (me_redis e)"
  have Q: "size {#q \<in># Q. lock_runs ?n q#} \<le> 1"
    by (rule lock_count_later [OF one now])
  obtain A where A: "Q = add_mset ph A" using ph by (rule multi_member_split [THEN exE])
  have taken: "{#q \<in># Q. lock_runs ?n q#} = {#}" if "rd_get R ?n (metrics_lock_key c) (w_redis w) = None"
    using key [OF _ _ now] that by (fastforce simp: filter_mset_eq_mempty_iff lock_runs_def)
  from metrics_move_lock [OF move] show ?thesis
  proof (elim disjE conjE)
    assume "lock_held ph' = None"
    then show ?thesis by (intro order_trans [OF _ Q]) (simp add: A lock_runs_None)
  next
    assume "lock_held ph' = lock_held ph"
    then have "lock_runs ?n ph' = lock_runs ?n ph" by (rule lock_runs_same)
    then show ?thesis by (intro order_trans [OF _ Q]) (simp add: A)
  next
    assume "take_metrics_lock R c (me_redis e) (w_redis w) = (Some True, w_redis w')"
    from taken [OF redis_laws.take_lock_taken(1) [OF laws this]] have "{#q \<in># A. lock_runs ?n q#} = {#}"
      by (simp add: A split: if_splits)
    then show ?thesis by (simp add: A del: filter_mset_eq_mempty_iff)
  qed
qed

lemma lock_exclusive_reach:
  assumes laws: "redis_laws (dp_redis D)" and r: "reach (dash_init D) (dash_step D True) a"
  shows "lock_exclusive D a"
  using r
proof (induction rule: reach.induct)
  case (reach_init a)
  then show ?case by (simp add: dash_init_def lock_exclusive_def)
next
  case (reach_step a b)
  note was = reach_step(3) [unfolded lock_exclusive_def]
  from reach_step(2) show ?case
  proof cases
    case asks
    with was show ?thesis by (simp add: lock_exclusive_def lock_runs_None)
  next
    case (moves ph e ph' w)
    note move = moves(5) [unfolded metrics_move_in_def]
    have key: "rd_get (dp_redis D) n (metrics_lock_key (dp_settings D)) (w_redis (sy_world (ap_system (da_api a)))) \<noteq> None"
      if "q \<in># da_requests a" "lock_held q = Some t" "sy_now (ap_system (da_api a)) \<le> n" "n < t + 1000 * lock_ttl_seconds" for q t n
      using was that by blast
    have one: "size {#q \<in># da_requests a. lock_runs (sy_now (ap_system (da_api a))) q#} \<le> 1" using was by blast
    show ?thesis
      unfolding lock_exclusive_def moves(1)
      using lock_count_move [OF laws move moves(2,3) one key] lock_key_move [OF laws move moves(2,3) one key] moves(4)
      by simp
  next
    case (leaves rs)
    have "size {#ph \<in># rs. P ph#} \<le> size {#ph \<in># da_requests a. P ph#}" for P
      using leaves(2) by (intro size_mset_mono multiset_filter_mono)
    with was leaves show ?thesis unfolding lock_exclusive_def by (auto dest: mset_subset_eqD intro: order_trans)
  next
    case (others b')
    have "sy_now (ap_system (da_api a)) \<le> sy_now (ap_system b')" by (rule api_step_clock [OF others(2)])
    moreover from this have "size {#ph \<in># da_requests a. lock_runs (sy_now (ap_system b')) ph#} \<le> 1"
      by (rule lock_count_later [OF conjunct1 [OF was]])
    ultimately show ?thesis
      using was others_keep(2) [OF laws others(2,3)] unfolding lock_exclusive_def lock_kept_def same_reads_def others(1) by simp
  qed
qed

text \<open>
  C16: the lock does its job. As long as a holder finishes before its lock expires and Redis does not
  lose the key, at most one request that took the lock is rebuilding the metrics, and no other can take
  it before that one is done: the next \<open>SET NX\<close> finds the key.
\<close>

theorem one_rebuild_at_a_time:
  assumes laws: "redis_laws (dp_redis D)" and r: "reach (dash_init D) (dash_step D True) a"
    and ph: "ph \<in># da_requests a" "lock_runs n ph" and now: "sy_now (ap_system (da_api a)) \<le> n"
  shows "{#q \<in># da_requests a. lock_runs n q#} = {#ph#} \<and>
    fst (take_metrics_lock (dp_redis D) (dp_settings D) \<lparr>re_fate = fate, re_now = n\<rparr> (w_redis (sy_world (ap_system (da_api a))))) = None"
proof
  note inv = lock_exclusive_reach [OF laws r, unfolded lock_exclusive_def]
  obtain A where A: "da_requests a = add_mset ph A" using ph(1) by (rule multi_member_split [THEN exE])
  have "size {#q \<in># da_requests a. lock_runs n q#} \<le> 1"
    by (rule lock_count_later [OF conjunct1 [OF inv] now])
  with ph(2) show "{#q \<in># da_requests a. lock_runs n q#} = {#ph#}" by (simp add: A)
  obtain t where "lock_held ph = Some t" "n < t + 1000 * lock_ttl_seconds" using ph(2) by (auto simp: lock_runs_def)
  with inv ph(1) now obtain v where
    "rd_get (dp_redis D) n (metrics_lock_key (dp_settings D)) (w_redis (sy_world (ap_system (da_api a)))) = Some v" by blast
  then show "fst (take_metrics_lock (dp_redis D) (dp_settings D) \<lparr>re_fate = fate, re_now = n\<rparr>
      (w_redis (sy_world (ap_system (da_api a))))) = None"
    by (simp add: take_metrics_lock_def cache_call_def redis_set_nx_def split: redis_fate.split)
qed

end
