(* ===== verification/Metrics_Run.thy ===== *)
theory Metrics_Run
  imports Metrics_System Cache_Run
begin

text \<open>
  Runs of the metrics requests on the tables of an empty queue: one request rebuilds while a second is
  answered from the cache; and the two runs that show how far the lock goes.
\<close>

section \<open>Deployment and states\<close>

definition zero_counts :: dict where
  "zero_counts = projr (compute_metrics run_service_env \<lparr>w_db = empty_db, w_redis = ()\<rparr>)"

text \<open>A codec for these counts.\<close>

definition zero_codec :: dict_codec where
  "zero_codec = \<lparr>dc_dump = (\<lambda>d. if d = zero_counts then ''z'' else ''?''), dc_load = (\<lambda>t. if t = ''z'' then Inr zero_counts else Inl (OtherError ''JSONDecodeError'' t))\<rparr>"

definition dash_deployment :: "redis_store deployment" where
  "dash_deployment = cached_deployment\<lparr>dp_metrics_codec := zero_codec\<rparr>"

lemma dash_deployment_simps [simp]:
  "dp_redis dash_deployment = mem_redis" "dp_settings dash_deployment = demo_config" "dp_metrics_codec dash_deployment = zero_codec"
  by (simp_all add: dash_deployment_def)

lemma zero_count: "compute_metrics run_service_env \<lparr>w_db = empty_db, w_redis = x\<rparr> = Inr zero_counts"
  by (simp add: zero_counts_def compute_metrics_def run_service_env_def Let_def)

definition dash_at ::
  "redis_store \<Rightarrow> int \<Rightarrow> metrics_phase multiset \<Rightarrow> dict list \<Rightarrow> (string \<times> int) list \<Rightarrow> redis_store dashboard"
where
  "dash_at x n Q ds ts =
     \<lparr>da_api = \<lparr>ap_system = (run_state empty_db [])\<lparr>sy_world := \<lparr>w_db = empty_db, w_redis = x\<rparr>, sy_now := n\<rparr>, ap_requests = {#}\<rparr>,
      da_requests = Q, da_counts = ds, da_stored = ts\<rparr>"

abbreviation dash_reached ::
  "bool \<Rightarrow> redis_store \<Rightarrow> int \<Rightarrow> metrics_phase multiset \<Rightarrow> dict list \<Rightarrow> (string \<times> int) list \<Rightarrow> bool"
where
  "dash_reached punctual x n Q ds ts \<equiv> reach (dash_init dash_deployment) (dash_step dash_deployment punctual) (dash_at x n Q ds ts)"

definition dash_env :: "int \<Rightarrow> metrics_env" where
  "dash_env n = \<lparr>me_redis = redis_at n, me_count = run_service_env\<rparr>"

lemma dash_asks: "dash_reached punctual x n Q ds ts \<Longrightarrow> dash_reached punctual x n (add_mset AskCache Q) ds ts"
  by (drule reach_step [where step = "dash_step dash_deployment punctual", OF _ dash_step.asks]) (simp add: dash_at_def)

lemma dash_moves:
  assumes r: "dash_reached punctual x n (add_mset ph Q) ds ts" and n: "n \<le> m"
    and held: "punctual \<Longrightarrow> lock_held ph = None \<or> lock_runs m ph"
    and move: "metrics_move mem_redis zero_codec demo_config (dash_env m) ph \<lparr>w_db = empty_db, w_redis = x\<rparr> =
      (ph', \<lparr>w_db = empty_db, w_redis = x'\<rparr>)"
  shows "dash_reached punctual x' m (add_mset ph' Q) (new_counts ph ph' @ ds) (new_stored zero_codec m ph @ ts)"
proof -
  let ?a = "dash_at x n (add_mset ph Q) ds ts"
  have "metrics_move_in dash_deployment (dash_env m) ph (sy_world (ap_system (da_api ?a))) = (ph', \<lparr>w_db = empty_db, w_redis = x'\<rparr>)"
    using move by (simp add: metrics_move_in_def dash_at_def)
  from reach_step [OF r dash_step.moves [OF _ _ _ this]] n held show ?thesis
    by (simp add: dash_at_def dash_env_def redis_at_def)
qed

lemma dash_starts: "dash_reached punctual (\<lambda>_. None) 10 {#} [] []"
  by (rule reach_init) (simp add: dash_init_def dash_at_def api_init_def queue_init_def mem_redis_def mem_get_def mem_find_def)

abbreviation moves_to :: "metrics_phase \<Rightarrow> int \<Rightarrow> redis_store \<Rightarrow> metrics_phase \<Rightarrow> redis_store \<Rightarrow> bool" where
  "moves_to ph n x ph' x' \<equiv>
     metrics_move mem_redis zero_codec demo_config (dash_env n) ph \<lparr>w_db = empty_db, w_redis = x\<rparr> = (ph', \<lparr>w_db = empty_db, w_redis = x'\<rparr>)"

text \<open>The keys, and what a step does when they are absent or present.\<close>

definition the_lock :: string where
  "the_lock = metrics_lock_key demo_config"

definition the_entry :: string where
  "the_entry = metrics_key demo_config"

lemma the_keys [simp]: "the_lock \<noteq> the_entry" "the_entry \<noteq> the_lock"
  by (simp_all add: the_lock_def the_entry_def)

definition locked :: "int \<Rightarrow> redis_store \<Rightarrow> redis_store" where
  "locked n x = x(the_lock \<mapsto> (RStr ''1'', Some (n + 5000)))"

definition stored :: "int \<Rightarrow> redis_store \<Rightarrow> redis_store" where
  "stored n x = x(the_entry \<mapsto> (RStr ''z'', Some (n + 2000)))"

lemma dash_settings [simp]: "cache_metrics_ttl demo_config = 2"
  by (simp add: demo_config_def default_settings_def)

lemmas dash_eval = dash_env_def redis_at_def on_redis_def metrics_get_def redis_get_def cache_call_def mem_eval(1) Let_def
  the_lock_def [symmetric] the_entry_def [symmetric]

lemma moves_ask:
  "mem_get n the_entry x = None \<Longrightarrow> moves_to AskCache n x TakeLock x"
  "mem_get n the_entry x = None \<Longrightarrow> moves_to AskAgain n x (CountJobs None) x"
  "mem_get n the_entry x = Some ''z'' \<Longrightarrow> moves_to AskCache n x (Counted (Inr (zero_counts, True))) x"
  by (simp_all add: dash_eval heard_def zero_codec_def)

lemma moves_lock:
  "mem_get n the_lock x = None \<Longrightarrow> moves_to TakeLock n x (CountJobs (Some n)) (locked n x)"
  "mem_get n the_lock x = Some v \<Longrightarrow> moves_to TakeLock n x AskAgain x"
  by (simp_all add: dash_eval take_metrics_lock_def after_lock_def redis_set_nx_def redis_set_def locked_def lock_ttl_seconds_def)
    (simp add: mem_redis_def)

lemma moves_count: "moves_to (CountJobs g) n x (StoreCounts g zero_counts) x"
  by (simp add: dash_env_def zero_count)

lemma moves_store:
  "moves_to (StoreCounts (Some t) zero_counts) n x (DropLock t zero_counts) (stored n x)"
  "moves_to (StoreCounts None zero_counts) n x (Counted (Inr (zero_counts, False))) (stored n x)"
  by (simp_all add: dash_eval put_metrics_def redis_set_def stored_def zero_codec_def) (simp_all add: mem_redis_def)

lemma moves_drop: "moves_to (DropLock t zero_counts) n x (Counted (Inr (zero_counts, False))) (x(the_lock := None))"
  by (simp add: dash_eval drop_metrics_lock_def) (simp add: mem_redis_def)

lemma mem_get_none [simp]: "mem_get n k (\<lambda>_. None) = None"
  by (simp add: mem_get_def mem_find_def)

lemma mem_get_dash [simp]:
  "mem_get n the_lock (locked m x) = (if n < m + 5000 then Some ''1'' else None)"
  "mem_get n the_entry (locked m x) = mem_get n the_entry x"
  "mem_get n the_lock (stored m x) = mem_get n the_lock x"
  "mem_get n the_entry (stored m x) = (if n < m + 2000 then Some ''z'' else None)"
  "mem_get n the_lock (x(the_lock := None)) = None"
  "mem_get n the_entry (x(the_lock := None)) = mem_get n the_entry x"
  by (simp_all add: mem_get_def mem_find_def locked_def stored_def)

section \<open>One rebuilds, one waits\<close>

lemma dash_moves_to:
  assumes "dash_reached punctual x n (add_mset ph Q) ds ts" "moves_to ph m x ph' x'" "n \<le> m"
    "punctual \<Longrightarrow> lock_held ph = None \<or> lock_runs m ph"
  shows "dash_reached punctual x' m (add_mset ph' Q) (new_counts ph ph' @ ds) (new_stored zero_codec m ph @ ts)"
  by (rule dash_moves [OF assms(1,3,4,2)])

lemmas dash_simps = lock_runs_def lock_ttl_seconds_def zero_codec_def

text \<open>\<open>n\<close> requests have missed the cache, and one has the lock.\<close>

lemma dash_asked: "dash_reached punctual (\<lambda>_. None) 10 (replicate_mset k TakeLock) [] []"
proof (induction k)
  case (Suc k)
  from dash_moves_to [OF dash_asks [OF Suc] moves_ask(1), of 10] show ?case by simp
qed (simp add: dash_starts)

lemma dash_locked:
  "dash_reached punctual (locked 10 (\<lambda>_. None)) 10 (add_mset (CountJobs (Some 10)) (replicate_mset k TakeLock)) [] []"
  using dash_moves_to [OF _ moves_lock(1), of punctual "\<lambda>_. None" 10 "replicate_mset k TakeLock" "[]" "[]" 10] dash_asked [of punctual "Suc k"]
  by simp

lemma dash_counted:
  "dash_reached punctual (locked 10 (\<lambda>_. None)) 10 (add_mset (StoreCounts (Some 10) zero_counts) (replicate_mset k TakeLock)) [zero_counts] []"
  using dash_moves_to [OF dash_locked moves_count, of 10 punctual k] by (simp add: dash_simps)

lemma dash_stored:
  "dash_reached punctual (stored 500 (locked 10 (\<lambda>_. None))) 500 (add_mset (DropLock 10 zero_counts) (replicate_mset k TakeLock))
     [zero_counts] [(''z'', 500)]"
  using dash_moves_to [OF dash_counted moves_store(1), of 500 punctual k] by (simp add: dash_simps)

theorem dashboard_refines_api_witness:
  "reach (queue_init dash_deployment) (queue_step dash_deployment)
     (ap_system (da_api (dash_at (locked 10 (\<lambda>_. None)) 10 {#AskCache, CountJobs (Some 10)#} [] [])))"
proof -
  have r: "dash_reached True (locked 10 (\<lambda>_. None)) 10 {#CountJobs (Some 10)#} [] []" using dash_locked [of True 0] by simp
  have "dash_step dash_deployment True (dash_at (locked 10 (\<lambda>_. None)) 10 {#CountJobs (Some 10)#} [] [])
      (dash_at (locked 10 (\<lambda>_. None)) 10 {#AskCache, CountJobs (Some 10)#} [] [])"
    using dash_step.asks [of dash_deployment True "dash_at (locked 10 (\<lambda>_. None)) 10 {#CountJobs (Some 10)#} [] []"]
    by (simp add: dash_at_def)
  from dashboard_refines_api [OF r this] show ?thesis by blast
qed

theorem metrics_answers_are_fresh_witness:
  "\<exists>d. past_count dash_deployment (ap_system (da_api (dash_at (stored 500 (locked 10 (\<lambda>_. None))) 500
      {#AskCache, DropLock 10 zero_counts#} [zero_counts] [(''z'', 500)]))) d \<and>
    dc_load zero_codec (dc_dump zero_codec d) = Inr zero_counts \<and> (dc_dump zero_codec d, 500) \<in> {(''z'', 500::int)}"
proof -
  let ?a = "dash_at (stored 500 (locked 10 (\<lambda>_. None))) 500 {#AskCache, DropLock 10 zero_counts#} [zero_counts] [(''z'', 500)]"
  have r: "reach (dash_init dash_deployment) (dash_step dash_deployment True) ?a"
    using dash_asks [OF dash_stored [of True 0]] by simp
  have "moves_to AskCache 600 (stored 500 (locked 10 (\<lambda>_. None))) (Counted (Inr (zero_counts, True))) (stored 500 (locked 10 (\<lambda>_. None)))"
    by (rule moves_ask(3)) simp
  then have move: "metrics_move_in dash_deployment (dash_env 600) AskCache (sy_world (ap_system (da_api ?a))) =
      (Counted (Inr (zero_counts, True)), \<lparr>w_db = empty_db, w_redis = stored 500 (locked 10 (\<lambda>_. None))\<rparr>)"
    by (simp add: metrics_move_in_def dash_at_def)
  have now: "sy_now (ap_system (da_api ?a)) \<le> re_now (me_redis (dash_env 600))" "AskCache \<in># da_requests ?a"
    by (simp_all add: dash_at_def dash_env_def redis_at_def)
  have "redis_laws (dp_redis dash_deployment)" using mem.redis_laws_axioms by simp
  from metrics_answers_are_fresh [OF this r now(2) _ now(1) move] show ?thesis by (fastforce simp: dash_at_def)
qed

theorem one_rebuild_at_a_time_witness:
  "{#q \<in># {#CountJobs (Some 10), TakeLock#}. lock_runs 500 q#} = {#CountJobs (Some 10)#} \<and>
   fst (take_metrics_lock mem_redis demo_config (redis_at 500) (locked 10 (\<lambda>_. None))) = None"
proof -
  let ?a = "dash_at (locked 10 (\<lambda>_. None)) 10 {#CountJobs (Some 10), TakeLock#} [] []"
  have r: "reach (dash_init dash_deployment) (dash_step dash_deployment True) ?a" using dash_locked [of True 1] by simp
  have held: "CountJobs (Some 10) \<in># da_requests ?a" "lock_runs 500 (CountJobs (Some 10))" "sy_now (ap_system (da_api ?a)) \<le> 500"
    by (simp_all add: dash_at_def dash_simps)
  have "redis_laws (dp_redis dash_deployment)" using mem.redis_laws_axioms by simp
  from one_rebuild_at_a_time [OF this r held, where fate = RedisOk] show ?thesis
    by (simp add: dash_at_def redis_at_def)
qed

section \<open>How far the lock goes\<close>

text \<open>
  A request that waited \<open>LOCK_WAIT_SECONDS\<close> counts whether or not the holder is done: two scans within
  the lifetime of one entry.
\<close>

theorem waiter_counts_too:
  "\<exists>a. reach (dash_init dash_deployment) (dash_step dash_deployment True) a \<and>
     length (da_counts a) = 2 \<and> map snd (da_stored a) = [500, 110] \<and>
     500 < 110 + 1000 * cache_metrics_ttl (dp_settings dash_deployment)"
proof -
  let ?x = "locked 10 (\<lambda>_. None)" and ?A = "{#CountJobs (Some 10)#}"
  have "dash_reached True ?x 10 (add_mset TakeLock ?A) [] []"
    using dash_locked [of True 1] by (simp add: add_mset_commute)
  from dash_moves_to [OF this moves_lock(2), of 10] have "dash_reached True ?x 10 (add_mset AskAgain ?A) [] []" by simp
  from dash_moves_to [OF this moves_ask(2), of 110] have "dash_reached True ?x 110 (add_mset (CountJobs None) ?A) [] []" by simp
  from dash_moves_to [OF this moves_count, of 110]
  have "dash_reached True ?x 110 (add_mset (StoreCounts None zero_counts) ?A) [zero_counts] []" by simp
  from dash_moves_to [OF this moves_store(2), of 110]
  have "dash_reached True (stored 110 ?x) 110 {#CountJobs (Some 10), Counted (Inr (zero_counts, False))#} [zero_counts] [(''z'', 110)]"
    by (simp add: dash_simps add_mset_commute)
  from dash_moves_to [OF this moves_count, of 500]
  have "dash_reached True (stored 110 ?x) 500 {#StoreCounts (Some 10) zero_counts, Counted (Inr (zero_counts, False))#}
      [zero_counts, zero_counts] [(''z'', 110)]"
    by (simp add: dash_simps)
  from dash_moves_to [OF this moves_store(1), of 500]
  have "dash_reached True (stored 500 (stored 110 ?x)) 500 {#DropLock 10 zero_counts, Counted (Inr (zero_counts, False))#}
      [zero_counts, zero_counts] [(''z'', 500), (''z'', 110)]"
    by (simp add: dash_simps)
  then show ?thesis by (intro exI conjI) (assumption, simp_all add: dash_at_def)
qed

text \<open>
  The unlock is not fenced: a holder that comes back after its lock expired drops the lock of the next
  one, and a third request gets it while the second still rebuilds.
\<close>

theorem late_unlock_admits_second_holder:
  "\<exists>a. reach (dash_init dash_deployment) (dash_step dash_deployment False) a \<and>
     size {#q \<in># da_requests a. lock_runs (sy_now (ap_system (da_api a))) q#} = 2"
proof -
  let ?B = "CountJobs (Some 6000)"
  have "dash_reached False (stored 500 (locked 10 (\<lambda>_. None))) 500 (add_mset TakeLock {#DropLock 10 zero_counts, TakeLock#})
      [zero_counts] [(''z'', 500)]"
    using dash_stored [of False 2] by (simp add: numeral_2_eq_2 add_mset_commute)
  from dash_moves_to [OF this moves_lock(1), of 6000]
  have "dash_reached False (locked 6000 (stored 500 (locked 10 (\<lambda>_. None)))) 6000 (add_mset (DropLock 10 zero_counts) {#?B, TakeLock#})
      [zero_counts] [(''z'', 500)]"
    by (simp add: add_mset_commute)
  from dash_moves_to [OF this moves_drop, of 6000]
  have "dash_reached False ((locked 6000 (stored 500 (locked 10 (\<lambda>_. None))))(the_lock := None)) 6000
      (add_mset TakeLock {#?B, Counted (Inr (zero_counts, False))#}) [zero_counts] [(''z'', 500)]"
    by (simp add: add_mset_commute)
  from dash_moves_to [OF this moves_lock(1), of 6000]
  have "dash_reached False (locked 6000 ((locked 6000 (stored 500 (locked 10 (\<lambda>_. None))))(the_lock := None))) 6000
      {#?B, ?B, Counted (Inr (zero_counts, False))#} [zero_counts] [(''z'', 500)]"
    by simp
  then show ?thesis by (intro exI conjI) (assumption, simp add: dash_at_def dash_simps)
qed

end
