(* ===== verification/Migrations.thy ===== *)
theory Migrations
  imports Database
begin

text \<open>
  The migrations of \<open>src/migrations/versions\<close>: how \<open>0001_initial.py\<close> cuts its SQL script into statements,
  what the statements of both revisions do to a schema, and that the downgrades undo the upgrades.
\<close>

section \<open>Cutting a script\<close>

text \<open>The characters at which \<open>str.splitlines\<close> breaks and that \<open>str.strip\<close> removes, among one-byte characters.\<close>

definition is_break :: "char \<Rightarrow> bool" where
  "is_break x \<longleftrightarrow> x \<in> {CHR 0x0A, CHR 0x0B, CHR 0x0C, CHR 0x0D, CHR 0x1C, CHR 0x1D, CHR 0x1E, CHR 0x85}"

definition is_space :: "char \<Rightarrow> bool" where
  "is_space x \<longleftrightarrow> is_break x \<or> x \<in> {CHR 0x09, CHR 0x1F, CHR 0x20, CHR 0xA0}"

definition strip :: "string \<Rightarrow> string" where
  "strip s = rev (dropWhile is_space (rev (dropWhile is_space s)))"

text \<open>\<open>splitlines\<close>; a carriage return takes a line feed after it along.\<close>

function lines_from :: "string \<Rightarrow> string \<Rightarrow> string list" where
  "lines_from line [] = (if line = [] then [] else [line])"
| "lines_from line (x # xs) =
     (if is_break x then line # lines_from [] (if x = CHR 0x0D \<and> take 1 xs = [CHR 0x0A] then drop 1 xs else xs)
      else lines_from (line @ [x]) xs)"
  by pat_completeness auto

termination
  by (relation "measure (\<lambda>(line, s). length s)") auto

definition splitlines :: "string \<Rightarrow> string list" where
  "splitlines s = lines_from [] s"

fun split_on :: "char \<Rightarrow> string \<Rightarrow> string list" where
  "split_on c [] = [[]]"
| "split_on c (x # xs) =
     (if x = c then [] # split_on c xs else case split_on c xs of [] \<Rightarrow> [[x]] | p # ps \<Rightarrow> (x # p) # ps)"

fun join_lines :: "string list \<Rightarrow> string" where
  "join_lines [] = []"
| "join_lines [l] = l"
| "join_lines (l # ls) = l @ CHR 0x0A # join_lines ls"

definition is_comment :: "string \<Rightarrow> bool" where
  "is_comment line \<longleftrightarrow> take 2 (strip line) = ''--''"

text \<open>\<open>_execute_script\<close>: the statements that are executed, in their order.\<close>

definition statement_code :: "string \<Rightarrow> string" where
  "statement_code statement = strip (join_lines (filter (\<lambda>line. \<not> is_comment line) (splitlines statement)))"

definition execute_script :: "string \<Rightarrow> string list" where
  "execute_script script = filter (\<lambda>code. code \<noteq> []) (map statement_code (split_on (CHR '';'') script))"

lemma split_on_append:
  "c \<notin> set p \<Longrightarrow> split_on c (p @ c # s) = p # split_on c s"
  by (induction p) auto

lemma split_on_end: "c \<notin> set p \<Longrightarrow> split_on c p = [p]"
  by (induction p) auto

lemma break_newline [simp]: "is_break (CHR 0x0A)"
  by (simp add: is_break_def)

lemma lines_from_line:
  "(\<And>x. x \<in> set l \<Longrightarrow> \<not> is_break x) \<Longrightarrow> lines_from line (l @ s) = lines_from (line @ l) s"
  by (induction l arbitrary: line) auto

lemma splitlines_join:
  assumes "\<And>l x. l \<in> set ls \<Longrightarrow> x \<in> set l \<Longrightarrow> \<not> is_break x" "ls \<noteq> [] \<Longrightarrow> last ls \<noteq> []"
  shows "splitlines (join_lines ls) = ls"
  using assms
proof (induction ls rule: join_lines.induct)
  case (2 l)
  then have "lines_from [] (l @ []) = lines_from ([] @ l) []" by (intro lines_from_line) auto
  with 2 show ?case by (simp add: splitlines_def)
next
  case (3 l k ls)
  have "lines_from [] (l @ CHR 0x0A # join_lines (k # ls)) = lines_from ([] @ l) (CHR 0x0A # join_lines (k # ls))"
    using 3(2) by (intro lines_from_line) auto
  moreover have "splitlines (join_lines (k # ls)) = k # ls" by (rule 3(1)) (use 3(2,3) in auto)
  ultimately show ?case by (simp add: splitlines_def)
qed (simp add: splitlines_def)

text \<open>
  A script that is laid out in lines, some of them comments, with a semicolon at the end of each
  statement and nowhere else: what is executed is each statement without its comments.
\<close>

definition script_lines :: "string list \<Rightarrow> bool" where
  "script_lines ls \<longleftrightarrow> (\<forall>l\<in>set ls. CHR '';'' \<notin> set l \<and> (\<forall>x\<in>set l. \<not> is_break x)) \<and> (ls \<noteq> [] \<longrightarrow> last ls \<noteq> [])"

definition lay_out :: "string list list \<Rightarrow> string" where
  "lay_out stmts = concat (map (\<lambda>ls. join_lines ls @ '';'') stmts) @ [CHR 0x0A]"

definition code_lines :: "string list \<Rightarrow> string list" where
  "code_lines ls = filter (\<lambda>l. \<not> is_comment l) ls"

lemma set_join_lines: "set (join_lines ls) \<subseteq> insert (CHR 0x0A) (\<Union>l\<in>set ls. set l)"
  by (induction ls rule: join_lines.induct) auto

theorem execute_script_laid_out:
  assumes "\<And>ls. ls \<in> set stmts \<Longrightarrow> script_lines ls"
  shows "execute_script (lay_out stmts) = filter (\<lambda>code. code \<noteq> []) (map (strip \<circ> join_lines \<circ> code_lines) stmts)"
proof -
  have "split_on (CHR '';'') (lay_out stmts) = map join_lines stmts @ [[CHR 0x0A]]"
    using assms unfolding lay_out_def
  proof (induction stmts)
    case (Cons ls stmts)
    have "CHR '';'' \<notin> set (join_lines ls)" using Cons.prems [of ls] set_join_lines [of ls] by (auto simp: script_lines_def)
    from split_on_append [OF this] Cons.IH [OF Cons.prems] show ?case by simp
  qed simp
  moreover have "statement_code (join_lines ls) = strip (join_lines (code_lines ls))" if "ls \<in> set stmts" for ls
    using splitlines_join [of ls] assms [OF that] by (simp add: statement_code_def code_lines_def script_lines_def)
  moreover have "statement_code [CHR 0x0A] = []"
    by (simp add: statement_code_def splitlines_def strip_def is_comment_def)
  ultimately show ?thesis by (simp add: execute_script_def cong: map_cong)
qed

text \<open>The script of the downgrade, cut.\<close>

definition downgrade_script :: "string list list" where
  "downgrade_script =
     [[[],
       ''DROP TABLE IF EXISTS mock_webhook_receipts, mock_provider_log, webhook_outbox,'',
       ''    rate_limit_buckets, job_attempts, dead_letters, deliveries, jobs''],
      [[], ''DROP TYPE IF EXISTS job_status''],
      [[], ''DROP TYPE IF EXISTS channel'']]"

lemma downgrade_statements:
  "execute_script (lay_out downgrade_script) =
     [''DROP TABLE IF EXISTS mock_webhook_receipts, mock_provider_log, webhook_outbox,'' @ CHR 0x0A #
        ''    rate_limit_buckets, job_attempts, dead_letters, deliveries, jobs'',
      ''DROP TYPE IF EXISTS job_status'', ''DROP TYPE IF EXISTS channel'']"
proof -
  have "execute_script (lay_out downgrade_script) =
      filter (\<lambda>code. code \<noteq> []) (map (strip \<circ> join_lines \<circ> code_lines) downgrade_script)"
    by (rule execute_script_laid_out) (auto simp: downgrade_script_def script_lines_def is_break_def)
  then show ?thesis
    by (simp add: downgrade_script_def code_lines_def is_comment_def strip_def is_space_def is_break_def)
qed

section \<open>Schemas\<close>

text \<open>
  The statements of the migrations. A column has a name, a type and a text with the rest of its definition;
  a table also has constraints of its own. What the texts say of the rows is in \<open>Database\<close>; here they are
  only kept. Tables and indexes share their names.
\<close>

type_synonym column = "string \<times> string \<times> string"

definition quoted :: "string \<Rightarrow> string" where
  "quoted s = CHR 0x27 # s @ [CHR 0x27]"

definition column_types :: "column list \<Rightarrow> string list" where
  "column_types cols = map (\<lambda>(c, ty, rest). ty) cols"

datatype ddl =
    CreateType string "string list"                  \<comment> \<open>name, labels\<close>
  | CreateTable string "column list" "string list"   \<comment> \<open>name, columns, constraints\<close>
  | CreateIndex string string string                 \<comment> \<open>name, table, columns and condition\<close>
  | DropTables "string list"
  | DropType string
  | AddColumn string column
  | DropColumn string string

record schema =
  sc_types :: "(string \<times> string list) list"
  sc_tables :: "(string \<times> column list \<times> string list) list"
  sc_indexes :: "(string \<times> string \<times> string) list"

definition relation_names :: "schema \<Rightarrow> string list" where
  "relation_names s = map fst (sc_tables s) @ map fst (sc_indexes s)"

definition built_in_types :: "string list" where
  "built_in_types = [''uuid'', ''text'', ''jsonb'', ''smallint'', ''integer'', ''bigserial'', ''timestamptz'']"

text \<open>
  A type stays while a column has it; dropping a table drops its indexes; \<open>None\<close> is an error. The foreign
  keys only point among tables that are dropped together, so they do not stop it.
\<close>

definition run_ddl :: "ddl \<Rightarrow> schema \<Rightarrow> schema option" where
  "run_ddl d s =
     (case d of
        CreateType t labels \<Rightarrow>
          if t \<in> set (map fst (sc_types s)) then None else Some (s\<lparr>sc_types := sc_types s @ [(t, labels)]\<rparr>)
      | CreateTable t cols cons \<Rightarrow>
          if t \<in> set (relation_names s) \<or> \<not> set (column_types cols) \<subseteq> set (built_in_types @ map fst (sc_types s)) then None
          else Some (s\<lparr>sc_tables := sc_tables s @ [(t, cols, cons)]\<rparr>)
      | CreateIndex i t spec \<Rightarrow>
          if i \<in> set (relation_names s) \<or> t \<notin> set (map fst (sc_tables s)) then None
          else Some (s\<lparr>sc_indexes := sc_indexes s @ [(i, t, spec)]\<rparr>)
      | DropTables ts \<Rightarrow>
          Some (s\<lparr>sc_tables := filter (\<lambda>(t, x). t \<notin> set ts) (sc_tables s),
                  sc_indexes := filter (\<lambda>(i, t, spec). t \<notin> set ts) (sc_indexes s)\<rparr>)
      | DropType t \<Rightarrow>
          if list_ex (\<lambda>(u, cols, cons). t \<in> set (column_types cols)) (sc_tables s) then None
          else Some (s\<lparr>sc_types := filter (\<lambda>(u, labels). u \<noteq> t) (sc_types s)\<rparr>)
      | AddColumn t c \<Rightarrow>
          (case map_of (sc_tables s) t of
             None \<Rightarrow> None
           | Some (cols, cons) \<Rightarrow>
               if fst c \<in> set (map fst cols) \<or> fst (snd c) \<notin> set (built_in_types @ map fst (sc_types s)) then None
               else Some (s\<lparr>sc_tables := map (\<lambda>(u, x). (u, if u = t then apfst (\<lambda>cs. cs @ [c]) x else x)) (sc_tables s)\<rparr>))
      | DropColumn t c \<Rightarrow>
          (case map_of (sc_tables s) t of
             None \<Rightarrow> None
           | Some (cols, cons) \<Rightarrow>
               if c \<notin> set (map fst cols) then None
               else Some (s\<lparr>sc_tables :=
                      map (\<lambda>(u, x). (u, if u = t then apfst (filter (\<lambda>k. fst k \<noteq> c)) x else x)) (sc_tables s)\<rparr>)))"

fun run_migration :: "ddl list \<Rightarrow> schema \<Rightarrow> schema option" where
  "run_migration [] s = Some s"
| "run_migration (d # ds) s = Option.bind (run_ddl d s) (run_migration ds)"

definition upgrade_0001 :: "ddl list" where
  "upgrade_0001 =
     [CreateType ''channel'' [''email'', ''sms'', ''push''],
      CreateType ''job_status'' [''pending'', ''processing'', ''sent'', ''dead_lettered''],
      CreateTable ''jobs''
        [(''id'', ''uuid'', ''PRIMARY KEY DEFAULT gen_random_uuid()''),
         (''idempotency_key'', ''text'', ''UNIQUE''),
         (''request_hash'', ''text'', ''NOT NULL''),
         (''recipient'', ''text'', ''NOT NULL''),
         (''channel'', ''channel'', ''NOT NULL''),
         (''payload'', ''jsonb'', ''NOT NULL''),
         (''priority'', ''smallint'', ''NOT NULL DEFAULT 1 CHECK (priority BETWEEN 0 AND 3)''),
         (''status'', ''job_status'', ''NOT NULL DEFAULT '' @ quoted ''pending''),
         (''run_at'', ''timestamptz'', ''NOT NULL''),
         (''attempts'', ''integer'', ''NOT NULL DEFAULT 0''),
         (''max_attempts'', ''integer'', ''NOT NULL CHECK (max_attempts >= 1)''),
         (''last_error'', ''text'', []),
         (''claim_token'', ''uuid'', []),
         (''locked_by'', ''text'', []),
         (''claimed_at'', ''timestamptz'', []),
         (''lease_expires_at'', ''timestamptz'', []),
         (''callback_url'', ''text'', []),
         (''version'', ''integer'', ''NOT NULL DEFAULT 1''),
         (''created_at'', ''timestamptz'', ''NOT NULL DEFAULT now()''),
         (''updated_at'', ''timestamptz'', ''NOT NULL DEFAULT now()''),
         (''sent_at'', ''timestamptz'', [])] [],
      CreateIndex ''ix_jobs_due'' ''jobs'' (''(priority DESC, run_at) WHERE status = '' @ quoted ''pending''),
      CreateIndex ''ix_jobs_lease'' ''jobs'' (''(lease_expires_at) WHERE status = '' @ quoted ''processing''),
      CreateIndex ''ix_jobs_recipient'' ''jobs'' ''(recipient)'',
      CreateTable ''deliveries''
        [(''job_id'', ''uuid'', ''PRIMARY KEY REFERENCES jobs (id)''),
         (''worker_id'', ''text'', ''NOT NULL''),
         (''provider_message_id'', ''text'', []),
         (''delivered_at'', ''timestamptz'', ''NOT NULL DEFAULT now()'')] [],
      CreateTable ''dead_letters''
        [(''job_id'', ''uuid'', ''PRIMARY KEY REFERENCES jobs (id)''),
         (''reason'', ''text'', ''NOT NULL''),
         (''attempts'', ''integer'', ''NOT NULL''),
         (''last_error'', ''text'', []),
         (''dead_lettered_at'', ''timestamptz'', ''NOT NULL DEFAULT now()'')] [],
      CreateTable ''job_attempts''
        [(''id'', ''bigserial'', ''PRIMARY KEY''),
         (''job_id'', ''uuid'', ''NOT NULL REFERENCES jobs (id)''),
         (''attempt_no'', ''integer'', ''NOT NULL''),
         (''worker_id'', ''text'', []),
         (''outcome'', ''text'', ''NOT NULL CHECK (outcome IN ('sent', 'failed', 'lease_expired'))''),
         (''error'', ''text'', []),
         (''started_at'', ''timestamptz'', []),
         (''finished_at'', ''timestamptz'', ''NOT NULL DEFAULT now()'')] [''UNIQUE (job_id, attempt_no)''],
      CreateTable ''rate_limit_buckets''
        [(''recipient'', ''text'', ''NOT NULL''),
         (''window_start'', ''timestamptz'', ''NOT NULL''),
         (''count'', ''integer'', ''NOT NULL'')] [''PRIMARY KEY (recipient, window_start)''],
      CreateTable ''webhook_outbox''
        [(''id'', ''uuid'', ''PRIMARY KEY DEFAULT gen_random_uuid()''),
         (''job_id'', ''uuid'', ''NOT NULL REFERENCES jobs (id)''),
         (''event'', ''text'', ''NOT NULL CHECK (event IN ('sent', 'failed', 'dead_lettered'))''),
         (''payload'', ''jsonb'', ''NOT NULL''),
         (''target_url'', ''text'', ''NOT NULL''),
         (''status'', ''text'', ''NOT NULL DEFAULT 'pending' CHECK (status IN ('pending', 'delivered', 'failed'))''),
         (''attempts'', ''integer'', ''NOT NULL DEFAULT 0''),
         (''next_attempt_at'', ''timestamptz'', ''NOT NULL DEFAULT now()''),
         (''last_error'', ''text'', []),
         (''created_at'', ''timestamptz'', ''NOT NULL DEFAULT now()''),
         (''delivered_at'', ''timestamptz'', [])] [],
      CreateIndex ''ix_webhook_outbox_due'' ''webhook_outbox'' (''(next_attempt_at) WHERE status = '' @ quoted ''pending''),
      CreateTable ''mock_provider_log''
        [(''id'', ''bigserial'', ''PRIMARY KEY''),
         (''provider_idempotency_key'', ''text'', ''NOT NULL UNIQUE''),
         (''job_id'', ''uuid'', ''NOT NULL''),
         (''channel'', ''channel'', ''NOT NULL''),
         (''recipient'', ''text'', ''NOT NULL''),
         (''received_at'', ''timestamptz'', ''NOT NULL DEFAULT now()'')] [],
      CreateTable ''mock_webhook_receipts''
        [(''id'', ''bigserial'', ''PRIMARY KEY''),
         (''event_id'', ''uuid'', ''NOT NULL UNIQUE''),
         (''job_id'', ''uuid'', ''NOT NULL''),
         (''event'', ''text'', ''NOT NULL''),
         (''payload'', ''jsonb'', ''NOT NULL''),
         (''received_at'', ''timestamptz'', ''NOT NULL DEFAULT now()'')] []]"

definition downgrade_0001 :: "ddl list" where
  "downgrade_0001 =
     [DropTables [''mock_webhook_receipts'', ''mock_provider_log'', ''webhook_outbox'', ''rate_limit_buckets'', ''job_attempts'',
        ''dead_letters'', ''deliveries'', ''jobs''],
      DropType ''job_status'', DropType ''channel'']"

definition upgrade_0002 :: "ddl list" where
  "upgrade_0002 = [AddColumn ''mock_provider_log'' (''duplicate_requests'', ''integer'', ''NOT NULL DEFAULT 0'')]"

definition downgrade_0002 :: "ddl list" where
  "downgrade_0002 = [DropColumn ''mock_provider_log'' ''duplicate_requests'']"

section \<open>Up and down\<close>

text \<open>The objects that the first migration makes.\<close>

fun new_types :: "ddl list \<Rightarrow> (string \<times> string list) list" where
  "new_types [] = []"
| "new_types (CreateType t labels # ds) = (t, labels) # new_types ds"
| "new_types (d # ds) = new_types ds"

fun new_tables :: "ddl list \<Rightarrow> (string \<times> column list \<times> string list) list" where
  "new_tables [] = []"
| "new_tables (CreateTable t cols cons # ds) = (t, cols, cons) # new_tables ds"
| "new_tables (d # ds) = new_tables ds"

fun new_indexes :: "ddl list \<Rightarrow> (string \<times> string \<times> string) list" where
  "new_indexes [] = []"
| "new_indexes (CreateIndex i t spec # ds) = (i, t, spec) # new_indexes ds"
| "new_indexes (d # ds) = new_indexes ds"

definition with_new :: "ddl list \<Rightarrow> schema \<Rightarrow> schema" where
  "with_new ds s =
     s\<lparr>sc_types := sc_types s @ new_types ds, sc_tables := sc_tables s @ new_tables ds, sc_indexes := sc_indexes s @ new_indexes ds\<rparr>"

text \<open>A schema that the first migration can be applied to and taken back from: it has none of its names.\<close>

definition clear_of :: "ddl list \<Rightarrow> schema \<Rightarrow> bool" where
  "clear_of ds s \<longleftrightarrow>
     list_all (\<lambda>n. n \<notin> set (relation_names s)) (map fst (new_tables ds) @ map fst (new_indexes ds)) \<and>
     list_all (\<lambda>(t, labels). t \<notin> set (map fst (sc_types s))) (new_types ds) \<and>
     list_all (\<lambda>(i, t, spec). t \<in> set (map fst (sc_tables s))) (sc_indexes s) \<and>
     list_all (\<lambda>(t, cols, cons). set (column_types cols) \<subseteq> set (built_in_types @ map fst (sc_types s))) (sc_tables s)"

lemma clear_ofD:
  assumes "clear_of upgrade_0001 s"
  shows "list_all (\<lambda>n. n \<notin> set (relation_names s)) (map fst (new_tables upgrade_0001) @ map fst (new_indexes upgrade_0001))"
    "''channel'' \<notin> set (map fst (sc_types s))" "''job_status'' \<notin> set (map fst (sc_types s))"
  using assms by (simp_all add: clear_of_def) (simp_all add: upgrade_0001_def)

lemma upgrade_creates:
  assumes "clear_of upgrade_0001 s"
  shows "run_migration upgrade_0001 s = Some (with_new upgrade_0001 s)"
  using clear_ofD [OF assms]
  by (simp add: upgrade_0001_def with_new_def run_ddl_def relation_names_def built_in_types_def column_types_def)

text \<open>What the later migrations do to the tables that were there before.\<close>

lemma other_tables:
  assumes "t \<notin> set (map fst xs)"
  shows "map (\<lambda>(u, x). (u, if u = t then f x else x)) xs = xs" "map_of (xs @ ys) t = map_of ys t"
  using assms by (induction xs) auto

definition log_columns :: "column list" where
  "log_columns =
     [(''id'', ''bigserial'', ''PRIMARY KEY''), (''provider_idempotency_key'', ''text'', ''NOT NULL UNIQUE''),
      (''job_id'', ''uuid'', ''NOT NULL''), (''channel'', ''channel'', ''NOT NULL''), (''recipient'', ''text'', ''NOT NULL''),
      (''received_at'', ''timestamptz'', ''NOT NULL DEFAULT now()'')]"

definition counter_column :: column where
  "counter_column = (''duplicate_requests'', ''integer'', ''NOT NULL DEFAULT 0'')"

definition with_counter :: "schema \<Rightarrow> schema" where
  "with_counter s =
     s\<lparr>sc_tables := map (\<lambda>(u, x). (u, if u = ''mock_provider_log'' then apfst (\<lambda>cs. cs @ [counter_column]) x else x)) (sc_tables s)\<rparr>"

lemma log_table:
  assumes "clear_of upgrade_0001 s"
  shows "''mock_provider_log'' \<notin> set (map fst (sc_tables s))"
    "map_of (sc_tables (with_new upgrade_0001 s)) ''mock_provider_log'' = Some (log_columns, [])"
proof -
  show old: "''mock_provider_log'' \<notin> set (map fst (sc_tables s))"
    using clear_ofD(1) [OF assms] by (simp add: upgrade_0001_def relation_names_def)
  have "map_of (sc_tables (with_new upgrade_0001 s)) ''mock_provider_log'' = map_of (new_tables upgrade_0001) ''mock_provider_log''"
    unfolding with_new_def using other_tables(2) [OF old] by simp
  then show "map_of (sc_tables (with_new upgrade_0001 s)) ''mock_provider_log'' = Some (log_columns, [])"
    by (simp add: upgrade_0001_def log_columns_def)
qed

lemma counter_added:
  assumes "clear_of upgrade_0001 s"
  shows "run_migration upgrade_0002 (with_new upgrade_0001 s) = Some (with_counter (with_new upgrade_0001 s))"
proof -
  have up: "upgrade_0002 = [AddColumn ''mock_provider_log'' counter_column]" by (simp add: upgrade_0002_def counter_column_def)
  have "fst counter_column \<notin> set (map fst log_columns)" "fst (snd counter_column) \<in> set built_in_types"
    by (simp_all add: counter_column_def log_columns_def built_in_types_def)
  with log_table(2) [OF assms] show ?thesis unfolding up by (simp add: run_ddl_def with_counter_def)
qed

lemma map_of_changed:
  "map_of (map (\<lambda>(u, x). (u, if u = t then f x else x)) xs) t = map_option f (map_of xs t)"
  by (induction xs) auto

lemma counter_dropped:
  assumes "clear_of upgrade_0001 s"
  shows "map_of (sc_tables (with_counter (with_new upgrade_0001 s))) ''mock_provider_log'' =
      Some (log_columns @ [counter_column], [])"
    and "run_migration downgrade_0002 (with_counter (with_new upgrade_0001 s)) = Some (with_new upgrade_0001 s)"
proof -
  let ?s = "with_new upgrade_0001 s"
  show cols: "map_of (sc_tables (with_counter ?s)) ''mock_provider_log'' = Some (log_columns @ [counter_column], [])"
    using log_table(2) [OF assms] by (simp add: with_counter_def map_of_changed)
  have new: "map (\<lambda>(u, x). (u, if u = ''mock_provider_log'' then apfst (filter (\<lambda>k. fst k \<noteq> ''duplicate_requests'')) x else x))
      (map (\<lambda>(u, x). (u, if u = ''mock_provider_log'' then apfst (\<lambda>cs. cs @ [counter_column]) x else x)) (new_tables upgrade_0001)) =
      new_tables upgrade_0001"
    by (simp add: upgrade_0001_def counter_column_def)
  have "run_migration downgrade_0002 (with_counter ?s) =
      Some (?s\<lparr>sc_tables := map (\<lambda>(u, x). (u, if u = ''mock_provider_log''
          then apfst (filter (\<lambda>k. fst k \<noteq> ''duplicate_requests'')) x else x)) (sc_tables (with_counter ?s))\<rparr>)"
    using cols by (simp add: downgrade_0002_def run_ddl_def with_counter_def counter_column_def)
  also have "\<dots> = Some ?s"
    using new by (simp add: with_counter_def with_new_def other_tables(1) [OF log_table(1) [OF assms]])
  finally show "run_migration downgrade_0002 (with_counter ?s) = Some ?s" .
qed

lemma all_dropped:
  assumes "clear_of upgrade_0001 s"
  shows "run_migration downgrade_0001 (with_new upgrade_0001 s) = Some s"
proof -
  let ?new = "map fst (new_tables upgrade_0001)"
  let ?drop = "[''mock_webhook_receipts'', ''mock_provider_log'', ''webhook_outbox'', ''rate_limit_buckets'', ''job_attempts'',
      ''dead_letters'', ''deliveries'', ''jobs'']"
  have names: "set ?drop = set ?new" by (auto simp: upgrade_0001_def)
  have old: "t \<in> set (map fst (sc_tables s)) \<Longrightarrow> t \<notin> set ?new" for t
    using clear_ofD(1) [OF assms] by (auto simp: relation_names_def list_all_iff)
  have refs: "list_all (\<lambda>(i, t, spec). t \<in> set (map fst (sc_tables s))) (sc_indexes s)" using assms by (simp add: clear_of_def)
  have tables: "filter (\<lambda>(t, x). t \<notin> set ?new) (sc_tables s @ new_tables upgrade_0001) = sc_tables s"
  proof -
    have "filter (\<lambda>(t, x). t \<notin> set ?new) (sc_tables s) = sc_tables s"
      using old by (force simp: filter_id_conv)
    moreover have "filter (\<lambda>(t, x). t \<notin> set ?new) (new_tables upgrade_0001) = []"
      by (force simp: filter_empty_conv)
    ultimately show ?thesis by (simp only: filter_append append_Nil2)
  qed
  have indexes: "filter (\<lambda>(i, t, spec). t \<notin> set ?new) (sc_indexes s @ new_indexes upgrade_0001) = sc_indexes s"
  proof -
    have "filter (\<lambda>(i, t, spec). t \<notin> set ?new) (new_indexes upgrade_0001) = []" by (simp add: upgrade_0001_def)
    moreover have "t \<notin> set ?new" if "(i, t, spec) \<in> set (sc_indexes s)" for i t spec
    proof -
      from refs that have "t \<in> set (map fst (sc_tables s))" unfolding list_all_iff by blast
      then show ?thesis by (rule old)
    qed
    then have "filter (\<lambda>(i, t, spec). t \<notin> set ?new) (sc_indexes s) = sc_indexes s" unfolding filter_id_conv by blast
    ultimately show ?thesis by (simp only: filter_append append_Nil2)
  qed
  have types: "map fst (new_types upgrade_0001) = [''channel'', ''job_status'']" by (simp add: upgrade_0001_def)
  have cols: "list_all (\<lambda>(t, cols, cons). set (column_types cols) \<subseteq> set (built_in_types @ map fst (sc_types s))) (sc_tables s)"
    using assms by (simp add: clear_of_def)
  have unused: "\<not> list_ex (\<lambda>(u, cols, cons). ty \<in> set (column_types cols)) (sc_tables s)" if "ty \<in> {''channel'', ''job_status''}" for ty
  proof -
    have "ty \<notin> set (built_in_types @ map fst (sc_types s))" using clear_ofD(2,3) [OF assms] that by (auto simp: built_in_types_def)
    with cols show ?thesis unfolding list_ex_iff list_all_iff by blast
  qed
  have drop: "run_ddl (DropTables ?drop) (with_new upgrade_0001 s) = Some (s\<lparr>sc_types := sc_types s @ new_types upgrade_0001\<rparr>)"
  proof -
    let ?n = "with_new upgrade_0001 s"
    have sel: "sc_tables ?n = sc_tables s @ new_tables upgrade_0001" "sc_indexes ?n = sc_indexes s @ new_indexes upgrade_0001"
      by (simp_all add: with_new_def)
    have "run_ddl (DropTables ?drop) ?n = Some (?n\<lparr>sc_tables := sc_tables s, sc_indexes := sc_indexes s\<rparr>)"
      by (simp only: run_ddl_def ddl.case names sel tables indexes)
    then show ?thesis by (simp add: with_new_def)
  qed
  have kept: "filter (\<lambda>(u, labels). u \<noteq> ty) (sc_types s) = sc_types s" if "ty \<in> {''channel'', ''job_status''}" for ty
    using clear_ofD(2,3) [OF assms] that by (force simp: filter_id_conv)
  show ?thesis
    unfolding downgrade_0001_def using unused kept by (simp add: drop) (simp add: run_ddl_def upgrade_0001_def)
qed

text \<open>
  C31: the migrations can be taken back. On any schema that has none of their names the upgrades succeed
  and give the provider log its counter; each downgrade gives exactly the schema before its upgrade, the
  other tables of the database untouched; and the first upgrade does not apply a second time.
\<close>

theorem migrations_undo:
  assumes "clear_of upgrade_0001 s"
  shows "\<exists>s1 s2. run_migration upgrade_0001 s = Some s1 \<and> run_migration upgrade_0002 s1 = Some s2 \<and>
     map_of (sc_tables s2) ''mock_provider_log'' = Some (log_columns @ [counter_column], []) \<and>
     run_migration downgrade_0002 s2 = Some s1 \<and> run_migration downgrade_0001 s1 = Some s \<and>
     run_migration upgrade_0001 s1 = None"
proof (intro exI conjI)
  show "run_migration upgrade_0001 s = Some (with_new upgrade_0001 s)" by (rule upgrade_creates [OF assms])
  show "run_migration upgrade_0002 (with_new upgrade_0001 s) = Some (with_counter (with_new upgrade_0001 s))"
    by (rule counter_added [OF assms])
  show "run_migration upgrade_0001 (with_new upgrade_0001 s) = None"
    by (simp add: upgrade_0001_def with_new_def run_ddl_def)
qed (rule counter_dropped [OF assms] all_dropped [OF assms])+

text \<open>A database in which only Alembic's own table exists.\<close>

theorem migrations_undo_witness:
  "\<exists>s1 s2. run_migration upgrade_0001 \<lparr>sc_types = [], sc_tables = [(''alembic_version'', [(''version_num'', ''text'', ''NOT NULL'')], [])], sc_indexes = []\<rparr> = Some s1 \<and>
     run_migration upgrade_0002 s1 = Some s2 \<and> length (sc_tables s2) = 9 \<and> run_migration downgrade_0002 s2 = Some s1"
proof -
  let ?s = "\<lparr>sc_types = [], sc_tables = [(''alembic_version'', [(''version_num'', ''text'', ''NOT NULL'')], [])], sc_indexes = []\<rparr>"
  have clear: "clear_of upgrade_0001 ?s"
    by (simp add: clear_of_def upgrade_0001_def relation_names_def built_in_types_def column_types_def)
  obtain s1 s2 where run: "run_migration upgrade_0001 ?s = Some s1" "run_migration upgrade_0002 s1 = Some s2"
      "run_migration downgrade_0002 s2 = Some s1"
    using migrations_undo [OF clear] by blast
  have "s1 = with_new upgrade_0001 ?s" using run(1) upgrade_creates [OF clear] by simp
  then have "s2 = with_counter (with_new upgrade_0001 ?s)" using run(2) counter_added [OF clear] by simp
  then have "length (sc_tables s2) = 9" by (simp add: with_counter_def with_new_def) (simp add: upgrade_0001_def)
  with run show ?thesis by blast
qed

end
